(* ===== verification/Tube_Prelude.thy ===== *)
theory Tube_Prelude
  imports
    Main
    "HOL-Library.Word"
    "HOL-Library.AList"
    "HOL-Library.Multiset"
    "HOL-Library.While_Combinator"
begin

text \<open>
  What every component theory shares: the machine types of the program, the outcome of a C++
  call (a value, an exception or undefined behaviour, no return), the model of
  \<^verbatim>\<open>std::unordered_map\<close> as an association list in iteration order, the list of hops of a
  route, and a locale for state machines whose operations all keep one invariant.
\<close>

section \<open>Machine types and outcomes\<close>

text \<open>\<^verbatim>\<open>unsigned int\<close>: 32 bits, arithmetic wraps.\<close>

type_synonym u32 = "32 word"

text \<open>A number that a \<^verbatim>\<open>size_t\<close> of 64 bits can hold; the second equation is the one to evaluate.\<close>

definition fits_size :: "nat \<Rightarrow> bool" where
  "fits_size n \<longleftrightarrow> n < 2 ^ 64"

lemma fits_size_code [code]: "fits_size n \<longleftrightarrow> int n < 18446744073709551616"
  by (simp add: fits_size_def)

text \<open>
  Why a call does not return normally: an exception of the standard library or of the JSON
  library, a \<^verbatim>\<open>std::runtime_error\<close> thrown by the code itself, or undefined behaviour.
\<close>

datatype fault =
    Runtime_Error string
  | Out_Of_Range
  | Json_Exception
  | Undefined_Behaviour

text \<open>The outcome of a call. \<open>Diverges\<close> is a call that never returns.\<close>

datatype 'a outcome = Returns 'a | Fault fault | Diverges

fun returned :: "'a outcome \<Rightarrow> bool" where
  "returned (Returns x) = True"
| "returned _ = False"

named_theorems outcome_simps \<open>equations and splits of the outcome type\<close>
named_theorems umap_simps \<open>facts about association lists as unordered maps\<close>

fun bindO :: "'a outcome \<Rightarrow> ('a \<Rightarrow> 'b outcome) \<Rightarrow> 'b outcome" where
  "bindO (Returns x) f = f x"
| "bindO (Fault e) f = Fault e"
| "bindO Diverges f = Diverges"

lemma bindO_Returns_iff [outcome_simps]:
  "bindO m f = Returns y \<longleftrightarrow> (\<exists>x. m = Returns x \<and> f x = Returns y)"
  by (cases m) auto

lemma bindO_return [simp]: "bindO m Returns = m"
  by (cases m) auto

lemma bindO_assoc: "bindO (bindO m f) g = bindO m (\<lambda>x. bindO (f x) g)"
  by (cases m) auto

text \<open>Run a fallible function over a list, left to right, stopping at the first fault.\<close>

fun mapO :: "('a \<Rightarrow> 'b outcome) \<Rightarrow> 'a list \<Rightarrow> 'b list outcome" where
  "mapO f [] = Returns []"
| "mapO f (x # xs) = bindO (f x) (\<lambda>y. bindO (mapO f xs) (\<lambda>ys. Returns (y # ys)))"

lemma mapO_Returns: "mapO f xs = Returns ys \<Longrightarrow> length ys = length xs"
  by (induction xs arbitrary: ys) (auto simp: outcome_simps)

text \<open>
  A value of type \<^verbatim>\<open>'a option\<close> as an outcome: \<open>while_option\<close> and
  \<open>partial_function (option)\<close> yield \<open>None\<close> for a loop that does not stop.
\<close>

fun from_option :: "'a option \<Rightarrow> 'a outcome" where
  "from_option None = Diverges"
| "from_option (Some x) = Returns x"

lemma from_option_Returns [outcome_simps]: "from_option m = Returns x \<longleftrightarrow> m = Some x"
  by (cases m) auto

section \<open>Unordered maps\<close>

text \<open>
  A \<^verbatim>\<open>std::unordered_map\<close> is an association list with distinct keys; the order of the list
  stands for the container's iteration order, which C++ leaves unspecified.
  \<open>map_of m k\<close> is \<^verbatim>\<open>m.find(k)\<close>, \<open>AList.update k v m\<close> is \<^verbatim>\<open>m[k] = v\<close>,
  \<open>umap_emplace k v m\<close> is \<^verbatim>\<open>m.emplace(k, v)\<close> (no effect when the key is there) and
  \<open>AList.delete k m\<close> is \<^verbatim>\<open>m.erase(k)\<close>.
\<close>

type_synonym ('k, 'v) umap = "('k \<times> 'v) list"

definition umap_ok :: "('k, 'v) umap \<Rightarrow> bool" where
  "umap_ok m \<longleftrightarrow> distinct (map fst m)"

definition umap_emplace :: "'k \<Rightarrow> 'v \<Rightarrow> ('k, 'v) umap \<Rightarrow> ('k, 'v) umap" where
  "umap_emplace k v m = (if map_of m k = None then m @ [(k, v)] else m)"

lemma umap_ok_Nil [simp]: "umap_ok []"
  by (simp add: umap_ok_def)

lemma umap_ok_update [simp, umap_simps]: "umap_ok m \<Longrightarrow> umap_ok (AList.update k v m)"
  by (simp add: umap_ok_def distinct_update)

lemma umap_ok_delete [simp, umap_simps]: "umap_ok m \<Longrightarrow> umap_ok (AList.delete k m)"
  by (simp add: umap_ok_def distinct_delete)

lemma umap_ok_emplace [simp, umap_simps]: "umap_ok m \<Longrightarrow> umap_ok (umap_emplace k v m)"
  by (auto simp: umap_ok_def umap_emplace_def map_of_eq_None_iff)

lemma map_of_emplace [umap_simps]:
  "map_of (umap_emplace k v m) = (if map_of m k = None then (map_of m)(k \<mapsto> v) else map_of m)"
  by (auto simp: umap_emplace_def map_add_def fun_eq_iff split: option.splits)

lemma umap_in_iff: "umap_ok m \<Longrightarrow> (k, v) \<in> set m \<longleftrightarrow> map_of m k = Some v"
  by (simp add: umap_ok_def)

section \<open>Lists\<close>

text \<open>The pairs of consecutive elements: the hops of a list of stops.\<close>

definition hops :: "'a list \<Rightarrow> ('a \<times> 'a) list" where
  "hops xs = zip xs (tl xs)"

lemma hops_simps [simp]:
  "hops [] = []"
  "hops [x] = []"
  "hops (x # y # zs) = (x, y) # hops (y # zs)"
  by (simp_all add: hops_def)

lemma hops_append_nth:
  "Suc i < length xs \<Longrightarrow> (xs ! i, xs ! Suc i) \<in> set (hops xs)"
  by (auto simp: hops_def set_zip nth_tl intro!: exI [of _ i])

lemma set_hops: "set (hops xs) = {(xs ! i, xs ! Suc i) | i. Suc i < length xs}"
  by (fastforce simp: hops_def set_zip nth_tl)

lemma hops_subset: "(a, b) \<in> set (hops xs) \<Longrightarrow> a \<in> set xs \<and> b \<in> set xs"
  by (auto simp: set_hops)

lemma hops_left_or_last:
  "a \<in> set xs \<Longrightarrow> a = last xs \<or> (\<exists>b. (a, b) \<in> set (hops xs))"
  by (induction xs rule: induct_list012) auto

lemma those_Some_iff: "those xs = Some ys \<longleftrightarrow> xs = map Some ys"
proof (induction xs arbitrary: ys)
  case Nil
  then show ?case by auto
next
  case (Cons x xs)
  then show ?case by (cases x; cases ys) auto
qed

lemma those_None_iff: "those xs = None \<longleftrightarrow> None \<in> set xs"
proof (induction xs)
  case Nil
  then show ?case by simp
next
  case (Cons x xs)
  then show ?case by (cases x) auto
qed

lemma map_Some_lookup: "map f xs = map Some ys \<Longrightarrow> y \<in> set ys \<Longrightarrow> \<exists>x \<in> set xs. f x = Some y"
proof -
  assume eq: "map f xs = map Some ys" and "y \<in> set ys"
  then have "Some y \<in> set (map f xs)" by simp
  then show ?thesis by auto
qed

lemma field_of_update:
  "f (g (xs ! i)) = f (xs ! i) \<Longrightarrow> f (xs[i := g (xs ! i)] ! n) = f (xs ! n)"
  by (cases "i < length xs"; cases "n = i") (simp_all add: list_update_beyond)

text \<open>Every element of a trace is justified by what comes before it.\<close>

definition each_after :: "('a \<Rightarrow> 'a list \<Rightarrow> bool) \<Rightarrow> 'a list \<Rightarrow> bool" where
  "each_after R tr \<longleftrightarrow> (\<forall>n < length tr. R (tr ! n) (take n tr))"

lemma each_after_Nil [simp]: "each_after R []"
  by (simp add: each_after_def)

lemma each_afterD: "each_after R tr \<Longrightarrow> n < length tr \<Longrightarrow> R (tr ! n) (take n tr)"
  by (simp add: each_after_def)

lemma each_after_append:
  assumes "each_after R tr" and "\<And>a. a \<in> set acts \<Longrightarrow> R a tr"
    and mono: "\<And>a xs ys. R a xs \<Longrightarrow> R a (xs @ ys)"
  shows "each_after R (tr @ acts)"
  unfolding each_after_def
proof (intro allI impI)
  fix n assume n: "n < length (tr @ acts)"
  show "R ((tr @ acts) ! n) (take n (tr @ acts))"
  proof (cases "n < length tr")
    case True
    then show ?thesis using assms(1) by (simp add: each_after_def nth_append)
  next
    case False
    then have "(tr @ acts) ! n \<in> set acts" using n by (simp add: nth_append)
    then show ?thesis using assms(2) mono False by simp
  qed
qed

section \<open>State machines\<close>

text \<open>
  Several operations that share one contract: each is an event of type \<open>'e\<close>, \<open>step\<close> is
  the operation's effect on the state, \<open>allowed\<close> is what the environment guarantees about
  an event in a state, and every allowed event keeps the invariant. What holds after any
  sequence of operations is proved once here.
\<close>

fun run_all :: "('e \<Rightarrow> 's \<Rightarrow> 's) \<Rightarrow> 'e list \<Rightarrow> 's \<Rightarrow> 's" where
  "run_all step [] s = s"
| "run_all step (e # es) s = run_all step es (step e s)"

fun all_allowed :: "('e \<Rightarrow> 's \<Rightarrow> 's) \<Rightarrow> ('e \<Rightarrow> 's \<Rightarrow> bool) \<Rightarrow> 'e list \<Rightarrow> 's \<Rightarrow> bool" where
  "all_allowed step allowed [] s = True"
| "all_allowed step allowed (e # es) s =
     (allowed e s \<and> all_allowed step allowed es (step e s))"

locale invariant_machine =
  fixes init :: 's
    and step :: "'e \<Rightarrow> 's \<Rightarrow> 's"
    and allowed :: "'e \<Rightarrow> 's \<Rightarrow> bool"
    and inv :: "'s \<Rightarrow> bool"
  assumes init_inv: "inv init"
    and step_inv: "inv s \<Longrightarrow> allowed e s \<Longrightarrow> inv (step e s)"
begin

lemma run_keeps_inv: "inv s \<Longrightarrow> all_allowed step allowed es s \<Longrightarrow> inv (run_all step es s)"
  by (induction es arbitrary: s) (auto simp: step_inv)

lemma run_from_init: "all_allowed step allowed es init \<Longrightarrow> inv (run_all step es init)"
  by (rule run_keeps_inv [OF init_inv])

end

text \<open>A machine that implements a more abstract one, its state read through \<open>abs\<close>.\<close>

locale refined_machine = invariant_machine init step allowed inv
  for init :: 's and step :: "'e \<Rightarrow> 's \<Rightarrow> 's" and allowed and inv +
  fixes abs :: "'s \<Rightarrow> 'a" and astep :: "'e \<Rightarrow> 'a \<Rightarrow> 'a"
  assumes abs_step: "inv s \<Longrightarrow> allowed e s \<Longrightarrow> abs (step e s) = astep e (abs s)"
begin

lemma abs_run_from:
  "inv s \<Longrightarrow> all_allowed step allowed es s \<Longrightarrow> abs (run_all step es s) = run_all astep es (abs s)"
  by (induction es arbitrary: s) (auto simp: abs_step step_inv)

lemma abs_run: "all_allowed step allowed es init \<Longrightarrow> abs (run_all step es init) = run_all astep es (abs init)"
  by (rule abs_run_from [OF init_inv])

end

text \<open>
  A machine whose steps are steps of a more abstract one, or nothing there: its runs are runs of the
  abstract machine.
\<close>

locale stuttering_machine = invariant_machine init step allowed inv
  for init :: 's and step :: "'e \<Rightarrow> 's \<Rightarrow> 's" and allowed and inv +
  fixes abs :: "'s \<Rightarrow> 'a" and astep :: "'f \<Rightarrow> 'a \<Rightarrow> 'a" and aallowed :: "'f \<Rightarrow> 'a \<Rightarrow> bool"
  assumes simulated: "inv s \<Longrightarrow> allowed e s \<Longrightarrow>
    abs (step e s) = abs s \<or> (\<exists>f. aallowed f (abs s) \<and> abs (step e s) = astep f (abs s))"
begin

lemma abstract_run_from:
  "inv s \<Longrightarrow> all_allowed step allowed es s \<Longrightarrow>
   \<exists>fs. all_allowed astep aallowed fs (abs s) \<and> run_all astep fs (abs s) = abs (run_all step es s)"
proof (induction es arbitrary: s)
  case Nil
  then show ?case by (intro exI [of _ "[]"]) simp
next
  case (Cons e es)
  then obtain fs where fs: "all_allowed astep aallowed fs (abs (step e s))"
    "run_all astep fs (abs (step e s)) = abs (run_all step es (step e s))"
    using step_inv by fastforce
  consider "abs (step e s) = abs s" | f where "aallowed f (abs s)" "abs (step e s) = astep f (abs s)"
    using simulated [of s e] Cons.prems by auto
  then show ?case
  proof cases
    case 1
    then show ?thesis using fs by (intro exI [of _ fs]) simp
  next
    case (2 f)
    then show ?thesis using fs by (intro exI [of _ "f # fs"]) simp
  qed
qed

lemma abstract_run:
  "all_allowed step allowed es init \<Longrightarrow>
   \<exists>fs. all_allowed astep aallowed fs (abs init) \<and> run_all astep fs (abs init) = abs (run_all step es init)"
  by (rule abstract_run_from [OF init_inv])

end

lemma run_all_append: "run_all step (es @ fs) s = run_all step fs (run_all step es s)"
  by (induction es arbitrary: s) auto

end
