(* ===== verification/Stomp_Frame.thy ===== *)
theory Stomp_Frame
  imports Tube_Prelude
begin

text \<open>
  STOMP frames, \<^verbatim>\<open>inc/network-monitor/stomp-frame.h\<close> and \<^verbatim>\<open>src/stomp-frame.cpp\<close>: the
  commands, headers and error codes with their names, the parser, the validator and the
  constructors. A \<^verbatim>\<open>std::string_view\<close> into the frame's text is the list of characters it
  shows; positions are natural numbers, and a \<^verbatim>\<open>find\<close> that yields \<^verbatim>\<open>npos\<close> is \<open>None\<close>.
\<close>

section \<open>Commands, headers and errors\<close>

datatype StompCommand =
    kInvalid
  | kAbort
  | kAck
  | kBegin
  | kCommit
  | kConnect
  | kConnected
  | kDisconnect
  | kError
  | kMessage
  | kNack
  | kReceipt
  | kSend
  | kStomp
  | kSubscribe
  | kUnsubscribe

datatype StompHeader =
    kInvalid
  | kAcceptVersion
  | kAck
  | kContentLength
  | kContentType
  | kDestination
  | kHeartBeat
  | kHost
  | kId
  | kLogin
  | kMessage
  | kMessageId
  | kPasscode
  | kReceipt
  | kReceiptId
  | kSession
  | kSubscription
  | kTransaction
  | kServer
  | kVersion

datatype StompError =
    kOk
  | kUndefinedError
  | kParsingEmptyHeaderValue
  | kParsingContentLengthExceedsFrameLength
  | kParsingInvalidContentLength
  | kParsingJunkAfterBody
  | kParsingMissingBlankLineAfterHeaders
  | kParsingMissingColonInHeader
  | kParsingMissingEolAfterCommand
  | kParsingMissingEolAfterHeaderValue
  | kParsingMissingNullInBody
  | kParsingUnrecognizedCommand
  | kParsingUnrecognizedHeader
  | kValidationContentLengthMismatch
  | kValidationInvalidCommand
  | kValidationInvalidContentLength
  | kValidationMissingHeader

text \<open>The tables of names; the trailing spaces of one error name are the code's.\<close>

definition gStompCommandStrings :: "(StompCommand \<times> string) list" where
  "gStompCommandStrings =
     [(StompCommand.kAbort, ''ABORT''),
      (StompCommand.kAck, ''ACK''),
      (StompCommand.kBegin, ''BEGIN''),
      (StompCommand.kCommit, ''COMMIT''),
      (StompCommand.kConnect, ''CONNECT''),
      (StompCommand.kConnected, ''CONNECTED''),
      (StompCommand.kDisconnect, ''DISCONNECT''),
      (StompCommand.kError, ''ERROR''),
      (StompCommand.kMessage, ''MESSAGE''),
      (StompCommand.kNack, ''NACK''),
      (StompCommand.kReceipt, ''RECEIPT''),
      (StompCommand.kSend, ''SEND''),
      (StompCommand.kStomp, ''STOMP''),
      (StompCommand.kSubscribe, ''SUBSCRIBE''),
      (StompCommand.kUnsubscribe, ''UNSUBSCRIBE'')]"

definition gStompHeaderStrings :: "(StompHeader \<times> string) list" where
  "gStompHeaderStrings =
     [(StompHeader.kAcceptVersion, ''accept-version''),
      (StompHeader.kAck, ''ack''),
      (StompHeader.kContentLength, ''content-length''),
      (StompHeader.kContentType, ''content-type''),
      (StompHeader.kDestination, ''destination''),
      (StompHeader.kHeartBeat, ''heart-beat''),
      (StompHeader.kHost, ''host''),
      (StompHeader.kId, ''id''),
      (StompHeader.kLogin, ''login''),
      (StompHeader.kMessage, ''message''),
      (StompHeader.kMessageId, ''message-id''),
      (StompHeader.kPasscode, ''passcode''),
      (StompHeader.kReceipt, ''receipt''),
      (StompHeader.kReceiptId, ''receipt-id''),
      (StompHeader.kSession, ''session''),
      (StompHeader.kSubscription, ''subscription''),
      (StompHeader.kTransaction, ''transaction''),
      (StompHeader.kServer, ''server''),
      (StompHeader.kVersion, ''version'')]"

definition gStompErrorStrings :: "(StompError \<times> string) list" where
  "gStompErrorStrings =
     [(StompError.kOk, ''Ok''),
      (StompError.kUndefinedError, ''UndefinedError''),
      (StompError.kParsingEmptyHeaderValue, ''ParsingEmptyHeaderValue''),
      (StompError.kParsingContentLengthExceedsFrameLength, ''ParsingContentLengthExceedsFrameLength''),
      (StompError.kParsingInvalidContentLength, ''ParsingInvalidContentLength''),
      (StompError.kParsingJunkAfterBody, ''ParsingJunkAfterBody''),
      (StompError.kParsingMissingBlankLineAfterHeaders, ''ParsingMissingBlankLineAfterHeaders   ''),
      (StompError.kParsingMissingColonInHeader, ''ParsingMissingColonInHeader''),
      (StompError.kParsingMissingEolAfterCommand, ''ParsingMissingEolAfterCommand''),
      (StompError.kParsingMissingEolAfterHeaderValue, ''ParsingMissingEolAfterHeaderValue''),
      (StompError.kParsingMissingNullInBody, ''ParsingMissingNullInBody''),
      (StompError.kParsingUnrecognizedCommand, ''ParsingUnrecognizedCommand''),
      (StompError.kParsingUnrecognizedHeader, ''ParsingUnrecognizedHeader''),
      (StompError.kValidationContentLengthMismatch, ''ValidationContentLengthMismatch''),
      (StompError.kValidationInvalidCommand, ''ValidationInvalidCommand''),
      (StompError.kValidationInvalidContentLength, ''ValidationInvalidContentLength''),
      (StompError.kValidationMissingHeader, ''ValidationMissingHeader'')]"

text \<open>A bimap is looked up from the left by the key and from the right by the name.\<close>

definition right_of :: "('a \<times> string) list \<Rightarrow> string \<Rightarrow> 'a option" where
  "right_of tab s = map_of (map (\<lambda>(x, y). (y, x)) tab) s"

definition command_to_string :: "StompCommand \<Rightarrow> string" where
  "command_to_string c =
     (case map_of gStompCommandStrings c of None \<Rightarrow> ''StompCommand::kInvalid'' | Some s \<Rightarrow> s)"

definition ToCommand :: "string \<Rightarrow> StompCommand" where
  "ToCommand s =
     (case right_of gStompCommandStrings s of None \<Rightarrow> StompCommand.kInvalid | Some c \<Rightarrow> c)"

definition header_to_string :: "StompHeader \<Rightarrow> string" where
  "header_to_string h =
     (case map_of gStompHeaderStrings h of None \<Rightarrow> ''StompHeader::kInvalid'' | Some s \<Rightarrow> s)"

definition ToHeader :: "string \<Rightarrow> StompHeader" where
  "ToHeader s =
     (case right_of gStompHeaderStrings s of None \<Rightarrow> StompHeader.kInvalid | Some h \<Rightarrow> h)"

definition error_to_string :: "StompError \<Rightarrow> string" where
  "error_to_string e =
     (case map_of gStompErrorStrings e of None \<Rightarrow> ''UndefinedError'' | Some s \<Rightarrow> s)"

definition StringToError :: "string \<Rightarrow> StompError" where
  "StringToError s =
     (case right_of gStompErrorStrings s of None \<Rightarrow> kUndefinedError | Some e \<Rightarrow> e)"

section \<open>String operations\<close>

definition newLine :: char where "newLine = CHR 0x0A"
definition colon :: char where "colon = CHR '':''"
definition nullChar :: char where "nullChar = CHR 0x00"

text \<open>\<^verbatim>\<open>find(c, start)\<close> and \<^verbatim>\<open>substr(start, n)\<close>.\<close>

definition find_char :: "char \<Rightarrow> string \<Rightarrow> nat \<Rightarrow> nat option" where
  "find_char c s start =
     (let rest = dropWhile (\<lambda>x. x \<noteq> c) (drop start s)
      in if rest = [] then None else Some (length s - length rest))"

definition substr :: "string \<Rightarrow> nat \<Rightarrow> nat \<Rightarrow> string" where
  "substr s start n = take n (drop start s)"

definition is_digit :: "char \<Rightarrow> bool" where
  "is_digit c \<longleftrightarrow> (48 :: nat) \<le> of_char c \<and> of_char c \<le> (57 :: nat)"

fun digits_value :: "nat \<Rightarrow> string \<Rightarrow> nat" where
  "digits_value acc [] = acc"
| "digits_value acc (c # cs) = digits_value (acc * 10 + (of_char c - 48)) cs"

text \<open>
  \<^verbatim>\<open>StoI\<close>: \<^verbatim>\<open>std::from_chars\<close> reads the longest prefix of digits and ignores what
  follows. Without a digit the conversion fails. When the number does not fit in a
  \<^verbatim>\<open>size_t\<close> the conversion counts as successful and the result is not written: \<open>None\<close>.
\<close>

definition StoI :: "string \<Rightarrow> bool \<times> nat option" where
  "StoI s =
     (let ds = takeWhile is_digit s; n = digits_value 0 ds
      in if ds = [] then (False, None)
         else if fits_size n then (True, Some n) else (True, None))"

section \<open>The frame\<close>

type_synonym Headers = "(StompHeader, string) umap"

record StompFrame =
  sf_plain :: string
  sf_command :: StompCommand
  sf_headers :: Headers
  sf_body :: string

definition empty_frame :: StompFrame where
  "empty_frame = \<lparr>sf_plain = [], sf_command = StompCommand.kInvalid, sf_headers = [], sf_body = []\<rparr>"

definition GetCommand :: "StompFrame \<Rightarrow> StompCommand" where
  "GetCommand f = sf_command f"

definition HasHeader :: "StompFrame \<Rightarrow> StompHeader \<Rightarrow> bool" where
  "HasHeader f h \<longleftrightarrow> map_of (sf_headers f) h \<noteq> None"

definition GetHeaderValue :: "StompFrame \<Rightarrow> StompHeader \<Rightarrow> string" where
  "GetHeaderValue f h = (case map_of (sf_headers f) h of None \<Rightarrow> '''' | Some v \<Rightarrow> v)"

definition GetBody :: "StompFrame \<Rightarrow> string" where
  "GetBody f = sf_body f"

definition frame_ToString :: "StompFrame \<Rightarrow> string" where
  "frame_ToString f = sf_plain f"

section \<open>The parser\<close>

lemma find_char_append:
  "c \<notin> set a \<Longrightarrow> find_char c (pre @ a @ c # r) (length pre) = Some (length pre + length a)"
  by (simp add: find_char_def Let_def dropWhile_append)

lemma find_char_split:
  assumes "find_char c s i = Some k"
  obtains a r where "s = take i s @ a @ c # r" "c \<notin> set a" "i + length a = k" "length (take i s) = i"
proof -
  let ?a = "takeWhile (\<lambda>x. x \<noteq> c) (drop i s)" and ?r = "dropWhile (\<lambda>x. x \<noteq> c) (drop i s)"
  have r: "?r \<noteq> []" and k: "k = length s - length ?r"
    using assms by (auto simp: find_char_def Let_def split: if_splits)
  have split: "drop i s = ?a @ ?r" by simp
  have "hd ?r = c" using hd_dropWhile [OF r] by simp
  then have "?r = c # tl ?r" using r by (metis list.collapse)
  then have s: "s = take i s @ ?a @ c # tl ?r" by (metis append_take_drop_id split)
  have i: "length (take i s) = i"
    using r by (cases "i \<le> length s") auto
  have "length s = i + length ?a + length ?r"
  proof -
    have "length (?a @ ?r) = length s - i" by (metis length_drop split)
    moreover have "i \<le> length s" using i by simp
    ultimately show ?thesis by (simp only: length_append)
  qed
  then have ka: "i + length ?a = k" using k by linarith
  have "c \<notin> set ?a" by (auto dest: set_takeWhileD)
  then show ?thesis by (rule that [OF s _ ka i])
qed

lemma find_char_bounds:
  assumes "find_char c s i = Some k"
  shows "i \<le> k \<and> k < length s"
proof (rule find_char_split [OF assms])
  fix a r assume s: "s = take i s @ a @ c # r" and k: "i + length a = k" "length (take i s) = i"
  have "length s = length (take i s @ a @ c # r)" by (rule arg_cong [OF s])
  also have "\<dots> = i + length a + Suc (length r)" by (simp only: length_append length_Cons k(2))
  finally show ?thesis using k(1) by simp
qed

text \<open>The loop over the header lines: an error, or where it stops and the headers found.\<close>

function parse_headers :: "string \<Rightarrow> nat \<Rightarrow> Headers \<Rightarrow> (StompError + nat \<times> Headers) outcome" where
  "parse_headers plain headerLineStart headers =
     (if headerLineStart < length plain \<and> plain ! headerLineStart \<noteq> newLine then
        (case find_char colon plain headerLineStart of
           None \<Rightarrow> Returns (Inl kParsingMissingColonInHeader)
         | Some headerEnd \<Rightarrow>
             let header = ToHeader (substr plain headerLineStart (headerEnd - headerLineStart));
                 valueStart = headerEnd + 1
             in if header = StompHeader.kInvalid then Returns (Inl kParsingUnrecognizedHeader)
                else if length plain \<le> valueStart then Fault Out_Of_Range
                else if plain ! valueStart = newLine then Returns (Inl kParsingEmptyHeaderValue)
                else
                  (case find_char newLine plain valueStart of
                     None \<Rightarrow> Returns (Inl kParsingMissingEolAfterHeaderValue)
                   | Some valueEnd \<Rightarrow>
                       parse_headers plain (valueEnd + 1)
                         (umap_emplace header (substr plain valueStart (valueEnd - valueStart)) headers)))
      else Returns (Inr (headerLineStart, headers)))"
  by pat_completeness auto

termination
  by (relation "measure (\<lambda>(plain, headerLineStart, _). length plain - headerLineStart)")
    (auto dest!: find_char_bounds)

declare parse_headers.simps [simp del]

text \<open>The body: where its NULL octet is, or an error. The length read stays 0 if not written.\<close>

definition find_body_end :: "string \<Rightarrow> Headers \<Rightarrow> nat \<Rightarrow> StompError + nat" where
  "find_body_end plain headers bodyStart =
     (case map_of headers kContentLength of
        Some v \<Rightarrow>
          (let (ok, written) = StoI v;
               bodyLength = (case written of None \<Rightarrow> 0 | Some n \<Rightarrow> n)
           in if \<not> ok then Inl kParsingInvalidContentLength
              else if bodyLength = length plain - bodyStart then Inl kParsingMissingNullInBody
              else if bodyLength > length plain - bodyStart
                then Inl kParsingContentLengthExceedsFrameLength
              else if plain ! (bodyStart + bodyLength) \<noteq> nullChar
                then Inl kParsingMissingNullInBody
              else Inr (bodyStart + bodyLength))
      | None \<Rightarrow>
          (case find_char nullChar plain bodyStart of
             None \<Rightarrow> Inl kParsingMissingNullInBody
           | Some bodyEnd \<Rightarrow> Inr bodyEnd))"

definition parse_body ::
  "string \<Rightarrow> StompCommand \<Rightarrow> Headers \<Rightarrow> nat \<Rightarrow> StompError + StompCommand \<times> Headers \<times> string" where
  "parse_body plain command headers newLineBeforeBody =
     (if newLineBeforeBody \<ge> length plain \<or> plain ! newLineBeforeBody \<noteq> newLine
      then Inl kParsingMissingBlankLineAfterHeaders
      else
        let bodyStart = newLineBeforeBody + 1
        in case find_body_end plain headers bodyStart of
             Inl e \<Rightarrow> Inl e
           | Inr bodyEnd \<Rightarrow>
               if list_ex (\<lambda>c. c \<noteq> newLine) (drop (bodyEnd + 1) plain)
               then Inl kParsingJunkAfterBody
               else Inr (command, headers, substr plain bodyStart (bodyEnd - bodyStart)))"

definition parse_plain :: "string \<Rightarrow> (StompError + StompCommand \<times> Headers \<times> string) outcome" where
  "parse_plain plain =
     (case find_char newLine plain 0 of
        None \<Rightarrow> Returns (Inl kParsingMissingEolAfterCommand)
      | Some commandEnd \<Rightarrow>
          let command = ToCommand (substr plain 0 commandEnd)
          in if command = StompCommand.kInvalid then Returns (Inl kParsingUnrecognizedCommand)
             else bindO (parse_headers plain (commandEnd + 1) []) (\<lambda>res.
               case res of
                 Inl e \<Rightarrow> Returns (Inl e)
               | Inr (newLineBeforeBody, headers) \<Rightarrow>
                   Returns (parse_body plain command headers newLineBeforeBody)))"

text \<open>The members are written only when the whole frame has been parsed.\<close>

definition ParseFrame :: "StompFrame \<Rightarrow> StompError outcome \<times> StompFrame" where
  "ParseFrame f =
     (case parse_plain (sf_plain f) of
        Returns (Inl e) \<Rightarrow> (Returns e, f)
      | Returns (Inr (command, headers, body)) \<Rightarrow>
          (Returns kOk, f\<lparr>sf_command := command, sf_headers := headers, sf_body := body\<rparr>)
      | Fault x \<Rightarrow> (Fault x, f)
      | Diverges \<Rightarrow> (Diverges, f))"

section \<open>The validator\<close>

text \<open>The headers each command needs, \<open>None\<close> for a command that is never valid.\<close>

fun required_headers :: "StompCommand \<Rightarrow> StompHeader list option" where
  "required_headers StompCommand.kConnect = Some [kAcceptVersion, kHost]"
| "required_headers StompCommand.kStomp = Some [kAcceptVersion, kHost]"
| "required_headers StompCommand.kConnected = Some [kVersion]"
| "required_headers StompCommand.kSend = Some [kDestination]"
| "required_headers StompCommand.kSubscribe = Some [kDestination, kId]"
| "required_headers StompCommand.kUnsubscribe = Some [kId]"
| "required_headers StompCommand.kAck = Some [kId]"
| "required_headers StompCommand.kNack = Some [kId]"
| "required_headers StompCommand.kBegin = Some [kTransaction]"
| "required_headers StompCommand.kCommit = Some [kTransaction]"
| "required_headers StompCommand.kAbort = Some [kTransaction]"
| "required_headers StompCommand.kDisconnect = Some []"
| "required_headers StompCommand.kMessage = Some [kDestination, kMessageId, kSubscription]"
| "required_headers StompCommand.kReceipt = Some [kReceiptId]"
| "required_headers StompCommand.kError = Some []"
| "required_headers StompCommand.kInvalid = None"

text \<open>Comparing a length that was never written is undefined.\<close>

definition ValidateFrame :: "StompFrame \<Rightarrow> StompError outcome" where
  "ValidateFrame f =
     (case required_headers (sf_command f) of
        None \<Rightarrow> Returns kValidationInvalidCommand
      | Some required \<Rightarrow>
          if \<not> list_all (HasHeader f) required then Returns kValidationMissingHeader
          else if HasHeader f kContentLength then
            (case StoI (GetHeaderValue f kContentLength) of
               (False, _) \<Rightarrow> Returns kValidationInvalidContentLength
             | (True, None) \<Rightarrow> Fault Undefined_Behaviour
             | (True, Some n) \<Rightarrow>
                 if n \<noteq> length (sf_body f) then Returns kValidationContentLengthMismatch
                 else Returns kOk)
          else Returns kOk)"

definition ParseAndValidateFrame :: "StompFrame \<Rightarrow> StompError outcome \<times> StompFrame" where
  "ParseAndValidateFrame f =
     (case ParseFrame f of
        (Returns ec, f') \<Rightarrow> (if ec \<noteq> kOk then (Returns ec, f') else (ValidateFrame f', f'))
      | (res, f') \<Rightarrow> (res, f'))"

section \<open>Construction\<close>

definition StompFrame_parse :: "string \<Rightarrow> StompError outcome \<times> StompFrame" where
  "StompFrame_parse frame = ParseAndValidateFrame (empty_frame\<lparr>sf_plain := frame\<rparr>)"

definition header_line :: "StompHeader \<times> string \<Rightarrow> string" where
  "header_line hv = header_to_string (fst hv) @ [colon] @ snd hv @ [newLine]"

definition make_plain :: "StompCommand \<Rightarrow> Headers \<Rightarrow> string \<Rightarrow> string" where
  "make_plain command headers body =
     command_to_string command @ [newLine] @ concat (map header_line headers) @ [newLine] @
     body @ [nullChar]"

definition StompFrame_make ::
  "StompCommand \<Rightarrow> Headers \<Rightarrow> string \<Rightarrow> StompError outcome \<times> StompFrame" where
  "StompFrame_make command headers body =
     ParseAndValidateFrame (empty_frame\<lparr>sf_plain := make_plain command headers body\<rparr>)"

definition StompFrame_copy :: "StompFrame \<Rightarrow> StompFrame" where
  "StompFrame_copy other = snd (ParseAndValidateFrame (empty_frame\<lparr>sf_plain := sf_plain other\<rparr>))"

text \<open>Copy assignment to another object: members that the parser does not write stay.\<close>

definition StompFrame_assign :: "StompFrame \<Rightarrow> StompFrame \<Rightarrow> StompFrame" where
  "StompFrame_assign this other = snd (ParseAndValidateFrame (this\<lparr>sf_plain := sf_plain other\<rparr>))"

end
