(* ===== verification/Stomp_Grammar.thy ===== *)
theory Stomp_Grammar
  imports Stomp_Frame
begin

text \<open>
  What the parser accepts: exactly the texts of a grammar, with the command, the headers (the
  first of several lines with the same header counts) and the body that the grammar says. From
  this follow the round trip through the constructor that assembles a frame, and the cases in
  which the validator objects.
\<close>

section \<open>The grammar\<close>

definition frame_text ::
  "StompCommand \<Rightarrow> (StompHeader \<times> string) list \<Rightarrow> string \<Rightarrow> string \<Rightarrow> string" where
  "frame_text c ls body trailing =
     command_to_string c @ [newLine] @ concat (map header_line ls) @ [newLine] @
     body @ [nullChar] @ trailing"

definition lines_ok :: "(StompHeader \<times> string) list \<Rightarrow> bool" where
  "lines_ok ls \<longleftrightarrow>
     (\<forall>(h, v) \<in> set ls. h \<noteq> StompHeader.kInvalid \<and> v \<noteq> [] \<and> newLine \<notin> set v)"

definition collect :: "(StompHeader \<times> string) list \<Rightarrow> Headers \<Rightarrow> Headers" where
  "collect ls hs = fold (\<lambda>(h, v). umap_emplace h v) ls hs"

text \<open>The length the parser reads from a content-length header: 0 if it does not fit.\<close>

definition read_length :: "string \<Rightarrow> nat option" where
  "read_length v =
     (case StoI v of (False, _) \<Rightarrow> None | (True, None) \<Rightarrow> Some 0 | (True, Some n) \<Rightarrow> Some n)"

definition body_fits :: "Headers \<Rightarrow> string \<Rightarrow> bool" where
  "body_fits hs body \<longleftrightarrow>
     (case map_of hs kContentLength of
        None \<Rightarrow> nullChar \<notin> set body
      | Some v \<Rightarrow> read_length v = Some (length body))"

definition in_grammar ::
  "string \<Rightarrow> StompCommand \<Rightarrow> Headers \<Rightarrow> string \<Rightarrow> bool" where
  "in_grammar plain c hs body \<longleftrightarrow>
     (\<exists>ls trailing. plain = frame_text c ls body trailing \<and> c \<noteq> StompCommand.kInvalid \<and>
        lines_ok ls \<and> hs = collect ls [] \<and> body_fits hs body \<and> set trailing \<subseteq> {newLine})"

section \<open>Names\<close>

lemma ToCommand_inverse: "c \<noteq> StompCommand.kInvalid \<Longrightarrow> ToCommand (command_to_string c) = c"
  by (cases c) (simp_all add: ToCommand_def command_to_string_def right_of_def gStompCommandStrings_def)

lemma command_to_string_inverse:
  "ToCommand s \<noteq> StompCommand.kInvalid \<Longrightarrow> command_to_string (ToCommand s) = s"
  by (auto simp: ToCommand_def command_to_string_def right_of_def gStompCommandStrings_def
      split: if_splits)

lemma ToHeader_inverse: "h \<noteq> StompHeader.kInvalid \<Longrightarrow> ToHeader (header_to_string h) = h"
  by (cases h) (simp_all add: ToHeader_def header_to_string_def right_of_def gStompHeaderStrings_def)

lemma header_to_string_inverse:
  "ToHeader s \<noteq> StompHeader.kInvalid \<Longrightarrow> header_to_string (ToHeader s) = s"
  by (auto simp: ToHeader_def header_to_string_def right_of_def gStompHeaderStrings_def
      split: if_splits)

lemma command_to_string_chars: "newLine \<notin> set (command_to_string c)"
  by (cases c) (simp_all add: command_to_string_def gStompCommandStrings_def newLine_def)

lemma header_to_string_chars:
  "newLine \<notin> set (header_to_string h)" "h \<noteq> StompHeader.kInvalid \<Longrightarrow> colon \<notin> set (header_to_string h)"
  "header_to_string h \<noteq> []"
  by (cases h; simp add: header_to_string_def gStompHeaderStrings_def newLine_def colon_def)+

section \<open>The grammar is accepted\<close>

lemma substr_append [simp]: "substr (pre @ a @ r) (length pre) (length a) = a"
  by (simp add: substr_def)

lemma drop_prefix: "n = length xs \<Longrightarrow> drop n (xs @ ys) = ys"
  by simp

text \<open>One turn of the loop reads one header line.\<close>

lemma parse_headers_line:
  assumes h: "h \<noteq> StompHeader.kInvalid" and v: "v \<noteq> []" "newLine \<notin> set v"
  shows "parse_headers (pre @ header_line (h, v) @ post) (length pre) hs =
    parse_headers (pre @ header_line (h, v) @ post) (length (pre @ header_line (h, v)))
      (umap_emplace h v hs)"
proof -
  let ?n = "header_to_string h" and ?plain = "pre @ header_line (h, v) @ post"
  have p1: "?plain = pre @ ?n @ colon # v @ newLine # post"
    and p2: "?plain = (pre @ ?n @ [colon]) @ v @ newLine # post"
    by (simp_all add: header_line_def)
  have start: "length pre < length ?plain" "?plain ! length pre \<noteq> newLine"
    unfolding p1 using header_to_string_chars(1,3) [of h]
    by (auto simp: nth_append neq_Nil_conv)
  have c1: "find_char colon ?plain (length pre) = Some (length pre + length ?n)"
    unfolding p1 by (rule find_char_append [OF header_to_string_chars(2) [OF h]])
  have c2: "find_char newLine ?plain (length pre + length ?n + 1) =
      Some (length pre + length ?n + 1 + length v)"
    using find_char_append [OF v(2), of "pre @ ?n @ [colon]" post] unfolding p2 by simp
  have s1: "substr ?plain (length pre) (length ?n) = ?n" unfolding p1 by (rule substr_append)
  have s2: "substr ?plain (length pre + length ?n + 1) (length v) = v"
    using substr_append [of "pre @ ?n @ [colon]" v "newLine # post"] unfolding p2 by simp
  have vs: "length pre + length ?n + 1 < length ?plain" "?plain ! (length pre + length ?n + 1) \<noteq> newLine"
  proof -
    show "length pre + length ?n + 1 < length ?plain" unfolding p2 by simp
    have "?plain ! (length pre + length ?n + 1) = v ! 0"
      using v(1) unfolding p2 by (simp add: nth_append)
    then show "?plain ! (length pre + length ?n + 1) \<noteq> newLine"
      using v by (metis hd_conv_nth hd_in_set)
  qed
  have "parse_headers ?plain (length pre) hs =
      parse_headers ?plain (length pre + length ?n + 1 + length v + 1) (umap_emplace h v hs)"
    using start c1 c2 s1 s2 vs ToHeader_inverse [OF h] h
    by (subst parse_headers.simps) (simp add: Let_def)
  also have "length pre + length ?n + 1 + length v + 1 = length (pre @ header_line (h, v))"
    by (simp add: header_line_def)
  finally show ?thesis .
qed

lemma lines_ok_Cons:
  "lines_ok (hv # ls) \<longleftrightarrow> fst hv \<noteq> StompHeader.kInvalid \<and> snd hv \<noteq> [] \<and> newLine \<notin> set (snd hv) \<and> lines_ok ls"
  by (cases hv) (auto simp: lines_ok_def)

text \<open>Reading header lines leaves the parser after them, whatever follows.\<close>

lemma parse_headers_lines:
  "lines_ok ls \<Longrightarrow>
   parse_headers (pre @ concat (map header_line ls) @ post) (length pre) hs =
   parse_headers (pre @ concat (map header_line ls) @ post)
     (length (pre @ concat (map header_line ls))) (collect ls hs)"
proof (induction ls arbitrary: pre hs)
  case Nil
  then show ?case by (simp add: collect_def)
next
  case (Cons hv ls)
  then show ?case
    using parse_headers_line [of "fst hv" "snd hv" pre "concat (map header_line ls) @ post" hs]
      Cons.IH [of "pre @ header_line hv" "umap_emplace (fst hv) (snd hv) hs"]
    by (simp add: lines_ok_Cons collect_def split_beta)
qed

lemma parse_headers_accepts:
  assumes "lines_ok ls"
  shows "parse_headers (pre @ concat (map header_line ls) @ newLine # rest) (length pre) hs =
     Returns (Inr (length pre + length (concat (map header_line ls)), collect ls hs))"
  using parse_headers_lines [OF assms, of pre "newLine # rest" hs]
    parse_headers.simps [of "pre @ concat (map header_line ls) @ newLine # rest"
      "length (pre @ concat (map header_line ls))" "collect ls hs"]
  by (simp add: nth_append)

lemma parse_plain_accepts:
  assumes c: "c \<noteq> StompCommand.kInvalid" and ls: "lines_ok ls"
    and b: "body_fits (collect ls []) body" and t: "set trailing \<subseteq> {newLine}"
  shows "parse_plain (frame_text c ls body trailing) = Returns (Inr (c, collect ls [], body))"
proof -
  let ?cs = "command_to_string c" and ?hl = "concat (map header_line ls)"
  let ?plain = "frame_text c ls body trailing"
  let ?pre = "?cs @ [newLine] @ ?hl @ [newLine]"
  have p1: "?plain = [] @ ?cs @ newLine # ?hl @ newLine # body @ nullChar # trailing"
    and p2: "?plain = (?cs @ [newLine]) @ ?hl @ newLine # body @ nullChar # trailing"
    and p3: "?plain = ?pre @ body @ nullChar # trailing"
    by (simp_all add: frame_text_def)
  have f: "find_char newLine ?plain 0 = Some (length ?cs)"
    using find_char_append [OF command_to_string_chars, of "[]"] unfolding p1 by simp
  have s: "substr ?plain 0 (length ?cs) = ?cs"
    using substr_append [of "[]" ?cs] unfolding p1 by simp
  have h: "parse_headers ?plain (length ?cs + 1) [] =
      Returns (Inr (length ?cs + 1 + length ?hl, collect ls []))"
    using parse_headers_accepts [OF ls, of "?cs @ [newLine]"] unfolding p2 by simp
  have nl: "length ?cs + 1 + length ?hl < length ?plain"
    "?plain ! (length ?cs + 1 + length ?hl) = newLine"
    unfolding p2 by (simp_all add: nth_append)
  have pre: "length ?cs + 1 + length ?hl + 1 = length ?pre" by simp
  have e: "find_body_end ?plain (collect ls []) (length ?pre) = Inr (length ?pre + length body)"
  proof (cases "map_of (collect ls []) kContentLength")
    case None
    then have "nullChar \<notin> set body" using b by (simp add: body_fits_def)
    then have "find_char nullChar ?plain (length ?pre) = Some (length ?pre + length body)"
      unfolding p3 by (rule find_char_append)
    then show ?thesis using None by (simp add: find_body_end_def)
  next
    case (Some v)
    then have r: "read_length v = Some (length body)" using b by (simp add: body_fits_def)
    have "?plain ! (length ?pre + length body) = nullChar" unfolding p3 by (simp add: nth_append)
    moreover have "length ?plain - length ?pre = length body + 1 + length trailing"
      unfolding p3 by simp
    ultimately show ?thesis
      using Some r by (auto simp: find_body_end_def read_length_def split: prod.splits bool.splits option.splits)
  qed
  have p4: "?plain = (?pre @ body @ [nullChar]) @ trailing" by (simp add: frame_text_def)
  have d: "drop (length ?pre + length body + 1) ?plain = trailing"
    unfolding p4 by (rule drop_prefix) simp
  have sb: "substr ?plain (length ?pre) (length body) = body" unfolding p3 by (rule substr_append)
  have tr: "\<not> list_ex (\<lambda>c. c \<noteq> newLine) trailing" using t by (auto simp: list_ex_iff)
  show ?thesis
    using f s h nl e d sb tr ToCommand_inverse [OF c] c pre
    by (simp add: parse_plain_def parse_body_def Let_def)
qed

section \<open>Nothing else is accepted\<close>

lemma find_char_drop:
  assumes "find_char c s i = Some k"
  obtains a r where "drop i s = a @ c # r" "c \<notin> set a" "k = i + length a"
    "drop (Suc k) s = r" "substr s i (k - i) = a"
proof (rule find_char_split [OF assms])
  fix a r assume s: "s = take i s @ a @ c # r" and a: "c \<notin> set a" and k: "i + length a = k"
    and i: "length (take i s) = i"
  have d: "drop i s = a @ c # r" by (metis append_eq_conv_conj i s)
  have "drop (Suc k) s = drop (Suc (length a)) (drop i s)" using k by (simp add: add.commute)
  then have "drop (Suc k) s = r" using d by simp
  moreover have "substr s i (k - i) = a" using d k by (auto simp: substr_def)
  ultimately show ?thesis using that [OF d a] k by simp
qed

lemma parse_headers_sound:
  "parse_headers plain i hs = Returns (Inr (k, hs')) \<Longrightarrow> i \<le> length plain \<Longrightarrow>
   \<exists>ls. lines_ok ls \<and> hs' = collect ls hs \<and> i \<le> k \<and> k \<le> length plain \<and>
     drop i plain = concat (map header_line ls) @ drop k plain"
proof (induction plain i hs rule: parse_headers.induct)
  case (1 plain i hs)
  show ?case
  proof (cases "i < length plain \<and> plain ! i \<noteq> newLine")
    case False
    then have "k = i" "hs' = hs" using 1(2) by (auto simp: parse_headers.simps [of plain i hs])
    then show ?thesis using 1(3) by (intro exI [of _ "[]"]) (simp add: lines_ok_def collect_def)
  next
    case True
    then obtain he where he: "find_char colon plain i = Some he"
      using 1(2) by (cases "find_char colon plain i") (simp_all add: parse_headers.simps [of plain i hs])
    let ?h = "ToHeader (substr plain i (he - i))"
    have h: "?h \<noteq> StompHeader.kInvalid" and vs: "\<not> length plain \<le> he + 1" "plain ! (he + 1) \<noteq> newLine"
      using 1(2) True he by (auto simp: parse_headers.simps [of plain i hs] Let_def split: if_splits)
    obtain ve where ve: "find_char newLine plain (he + 1) = Some ve"
      using 1(2) True he h vs
      by (cases "find_char newLine plain (he + 1)") (auto simp: parse_headers.simps [of plain i hs] Let_def)
    let ?v = "substr plain (he + 1) (ve - (he + 1))"
    have rec: "parse_headers plain (ve + 1) (umap_emplace ?h ?v hs) = Returns (Inr (k, hs'))"
      using 1(2) True he h vs ve by (simp add: parse_headers.simps [of plain i hs] Let_def)
    obtain a r where a: "drop i plain = a @ colon # r" "he = i + length a"
      "drop (Suc he) plain = r" "substr plain i (he - i) = a"
      by (rule find_char_drop [OF he])
    obtain b r2 where b: "drop (he + 1) plain = b @ newLine # r2" "newLine \<notin> set b"
      "ve = he + 1 + length b" "drop (Suc ve) plain = r2" "?v = b"
      by (rule find_char_drop [OF ve])
    have "b \<noteq> []"
    proof
      assume "b = []"
      then have "drop (he + 1) plain ! 0 = newLine" using b(1) by simp
      then show False using vs by simp
    qed
    have bd: "ve + 1 \<le> length plain" using find_char_bounds [OF ve] by simp
    obtain ls where ls: "lines_ok ls" "hs' = collect ls (umap_emplace ?h ?v hs)" "ve + 1 \<le> k"
      "k \<le> length plain" "drop (ve + 1) plain = concat (map header_line ls) @ drop k plain"
      using 1(1) [OF True he refl refl h vs ve rec bd] by blast
    have "drop i plain = header_line (?h, b) @ drop (ve + 1) plain"
      using a b header_to_string_inverse [OF h] by (simp add: header_line_def)
    then show ?thesis
      using ls h b \<open>b \<noteq> []\<close> a(2)
      by (intro exI [of _ "(?h, b) # ls"]) (auto simp: lines_ok_def collect_def)
  qed
qed

lemma find_body_end_sound:
  assumes "find_body_end plain hs i = Inr k" and "i \<le> length plain"
  shows "\<exists>body trailing. drop i plain = body @ nullChar # trailing \<and> k = i + length body \<and>
    body_fits hs body \<and> substr plain i (k - i) = body \<and> drop (k + 1) plain = trailing"
proof (cases "map_of hs kContentLength")
  case None
  then have "find_char nullChar plain i = Some k"
    using assms(1) by (auto simp: find_body_end_def split: option.splits)
  then show ?thesis by (rule find_char_drop) (use None in \<open>auto simp: body_fits_def\<close>)
next
  case (Some v)
  then obtain n where n: "read_length v = Some n" "n < length plain - i"
    "plain ! (i + n) = nullChar" "k = i + n"
    using assms(1) by (auto simp: find_body_end_def read_length_def
        split: prod.splits bool.splits option.splits if_splits)
  let ?d = "drop i plain"
  have "?d = take n ?d @ ?d ! n # drop (Suc n) ?d"
    using n(2) by (intro id_take_nth_drop) simp
  moreover have "?d ! n = nullChar" using n by simp
  ultimately have d: "?d = take n ?d @ nullChar # drop (Suc n) ?d" by simp
  have "length (take n ?d) = n" using n(2) by simp
  then show ?thesis
    using d n Some
    by (intro exI [of _ "take n ?d"] exI [of _ "drop (Suc n) ?d"])
      (simp add: body_fits_def substr_def add.commute)
qed

lemma parse_plain_sound:
  assumes "parse_plain plain = Returns (Inr (c, hs, body))"
  shows "in_grammar plain c hs body"
proof -
  obtain ce where ce: "find_char newLine plain 0 = Some ce"
    using assms by (cases "find_char newLine plain 0") (simp_all add: parse_plain_def)
  have c0: "ToCommand (substr plain 0 ce) \<noteq> StompCommand.kInvalid"
    using assms ce by (auto simp: parse_plain_def)
  obtain nb hs0 where ph0: "parse_headers plain (ce + 1) [] = Returns (Inr (nb, hs0))"
  proof (cases "parse_headers plain (ce + 1) []")
    case (Returns res)
    then show ?thesis using that assms ce c0 by (cases res) (auto simp: parse_plain_def)
  qed (use assms ce c0 in \<open>simp_all add: parse_plain_def\<close>)
  have nb: "nb < length plain" "plain ! nb = newLine"
    using assms ce c0 ph0 by (auto simp: parse_plain_def parse_body_def split: if_splits)
  obtain be where be0: "find_body_end plain hs0 (nb + 1) = Inr be"
    using assms ce c0 ph0 nb by (cases "find_body_end plain hs0 (nb + 1)") (auto simp: parse_plain_def parse_body_def)
  have tr0: "\<not> list_ex (\<lambda>c. c \<noteq> newLine) (drop (be + 1) plain)"
    using assms ce c0 ph0 nb be0 by (auto simp: parse_plain_def parse_body_def)
  then have res: "ToCommand (substr plain 0 ce) = c" "hs0 = hs"
    "substr plain (nb + 1) (be - (nb + 1)) = body"
    using assms ce c0 ph0 nb be0 by (simp_all add: parse_plain_def parse_body_def)
  have c: "ToCommand (substr plain 0 ce) = c" "c \<noteq> StompCommand.kInvalid" using c0 res by simp_all
  note ph = ph0 [unfolded res(2)]
  have rest: "\<exists>be. find_body_end plain hs (nb + 1) = Inr be \<and>
      \<not> list_ex (\<lambda>c. c \<noteq> newLine) (drop (be + 1) plain) \<and>
      body = substr plain (nb + 1) (be - (nb + 1))"
    using be0 tr0 res by blast
  then obtain be where be: "find_body_end plain hs (nb + 1) = Inr be"
    "\<not> list_ex (\<lambda>c. c \<noteq> newLine) (drop (be + 1) plain)" "body = substr plain (nb + 1) (be - (nb + 1))"
    by blast
  obtain a r where a: "drop 0 plain = a @ newLine # r" "ce = 0 + length a"
    "drop (Suc ce) plain = r" "substr plain 0 (ce - 0) = a"
    by (rule find_char_drop [OF ce])
  have "ce + 1 \<le> length plain" using find_char_bounds [OF ce] by simp
  from parse_headers_sound [OF ph this] obtain ls where ls: "lines_ok ls" "hs = collect ls []"
    "drop (ce + 1) plain = concat (map header_line ls) @ drop nb plain" by blast
  obtain b tr where b: "drop (nb + 1) plain = b @ nullChar # tr" "body_fits hs b"
    "substr plain (nb + 1) (be - (nb + 1)) = b" "drop (be + 1) plain = tr"
    using find_body_end_sound [OF be(1)] nb(1) by auto
  have "drop nb plain = newLine # drop (nb + 1) plain"
    using nb by (metis Cons_nth_drop_Suc Suc_eq_plus1)
  moreover have "command_to_string c = a" using c a(4) command_to_string_inverse by auto
  ultimately have "plain = frame_text c ls body tr"
    using a ls(3) b be(3) by (simp add: frame_text_def)
  moreover have "set tr \<subseteq> {newLine}" using be(2) b(4) by (auto simp: list_ex_iff)
  moreover have "body = b" using b(3) be(3) by simp
  ultimately show ?thesis
    using c(2) ls(1,2) b(2) unfolding in_grammar_def by blast
qed

lemma parse_plain_iff:
  "parse_plain plain = Returns (Inr (c, hs, body)) \<longleftrightarrow> in_grammar plain c hs body"
  using parse_plain_sound parse_plain_accepts unfolding in_grammar_def by metis

end
