(* ===== verification/Stomp_Frame_Laws.thy ===== *)
theory Stomp_Frame_Laws
  imports Stomp_Grammar
begin

text \<open>
  The class \<^verbatim>\<open>StompFrame\<close>: when its constructors succeed, what they store, with which error
  they fail, when they throw, and what copying a frame does.
\<close>

section \<open>Errors of the parser\<close>

lemma parse_headers_error: "parse_headers plain i hs = Returns (Inl e) \<Longrightarrow> e \<noteq> kOk"
proof (induction plain i hs rule: parse_headers.induct)
  case (1 plain i hs)
  then show ?case
    by (subst (asm) (2) parse_headers.simps) (auto simp: Let_def split: if_splits option.splits)
qed

lemma find_body_end_error: "find_body_end plain hs i = Inl e \<Longrightarrow> e \<noteq> kOk"
  by (auto simp: find_body_end_def split: if_splits option.splits prod.splits)

lemma parse_body_error: "parse_body plain c hs nb = Inl e \<Longrightarrow> e \<noteq> kOk"
  by (auto simp: parse_body_def Let_def find_body_end_error split: if_splits sum.splits)

lemma parse_plain_error: "parse_plain plain = Returns (Inl e) \<Longrightarrow> e \<noteq> kOk"
proof (cases "find_char newLine plain 0")
  case (Some ce)
  assume e: "parse_plain plain = Returns (Inl e)"
  show ?thesis
  proof (cases "parse_headers plain (ce + 1) []")
    case (Returns res)
    then show ?thesis
      using e Some parse_headers_error [of plain "ce + 1" "[]"] parse_body_error
      by (cases res) (auto simp: parse_plain_def Let_def split: if_splits prod.splits)
  qed (use e Some in \<open>auto simp: parse_plain_def Let_def split: if_splits\<close>)
qed (auto simp: parse_plain_def)

lemma ParseFrame_kOk:
  "ParseFrame f = (Returns kOk, f') \<longleftrightarrow>
     (\<exists>c hs body. in_grammar (sf_plain f) c hs body \<and>
        f' = f\<lparr>sf_command := c, sf_headers := hs, sf_body := body\<rparr>)"
proof (cases "parse_plain (sf_plain f)")
  case (Returns res)
  show ?thesis
  proof (cases res)
    case (Inl e)
    then have "\<not> in_grammar (sf_plain f) c hs body" for c hs body
      using Returns parse_plain_iff [of "sf_plain f" c hs body] by simp
    then show ?thesis using Returns Inl parse_plain_error [of "sf_plain f" e] by (simp add: ParseFrame_def)
  next
    case (Inr x)
    obtain c hs body where x: "x = (c, hs, body)" by (cases x)
    then have "in_grammar (sf_plain f) c' hs' body' \<longleftrightarrow> c' = c \<and> hs' = hs \<and> body' = body" for c' hs' body'
      using Returns Inr parse_plain_iff [of "sf_plain f" c' hs' body'] by auto
    then show ?thesis using Returns Inr x by (auto simp: ParseFrame_def)
  qed
next
  case (Fault x)
  then have "\<not> in_grammar (sf_plain f) c hs body" for c hs body
    using parse_plain_iff [of "sf_plain f" c hs body] by simp
  then show ?thesis using Fault by (simp add: ParseFrame_def)
next
  case Diverges
  then have "\<not> in_grammar (sf_plain f) c hs body" for c hs body
    using parse_plain_iff [of "sf_plain f" c hs body] by simp
  then show ?thesis using Diverges by (simp add: ParseFrame_def)
qed

section \<open>Exceptions\<close>

text \<open>The text of a frame that ends right after the colon of a header.\<close>

definition cut_after_colon :: "string \<Rightarrow> bool" where
  "cut_after_colon plain \<longleftrightarrow>
     (\<exists>c ls h. plain = command_to_string c @ [newLine] @ concat (map header_line ls) @
        header_to_string h @ [colon] \<and>
        c \<noteq> StompCommand.kInvalid \<and> lines_ok ls \<and> h \<noteq> StompHeader.kInvalid)"

lemma parse_headers_cut:
  assumes ls: "lines_ok ls" and h: "h \<noteq> StompHeader.kInvalid"
  shows "parse_headers (pre @ concat (map header_line ls) @ header_to_string h @ [colon]) (length pre) hs
    = Fault Out_Of_Range"
proof -
  let ?n = "header_to_string h" and ?pre = "pre @ concat (map header_line ls)"
  let ?plain = "?pre @ ?n @ [colon]"
  have start: "length ?pre < length ?plain" "?plain ! length ?pre \<noteq> newLine"
    using header_to_string_chars(1,3) [of h] by (auto simp: nth_append neq_Nil_conv)
  have f: "find_char colon ?plain (length ?pre) = Some (length ?pre + length ?n)"
    using find_char_append [OF header_to_string_chars(2) [OF h], of ?pre "[]"] by simp
  have s: "substr ?plain (length ?pre) (length ?n) = ?n" by (rule substr_append)
  have "parse_headers ?plain (length ?pre) (collect ls hs) = Fault Out_Of_Range"
    using start f s ToHeader_inverse [OF h] h by (subst parse_headers.simps) (simp add: Let_def)
  then show ?thesis
    using parse_headers_lines [OF ls, of pre "?n @ [colon]" hs] by simp
qed

lemma parse_headers_fault:
  "parse_headers plain i hs = Fault x \<Longrightarrow> i \<le> length plain \<Longrightarrow>
   x = Out_Of_Range \<and> (\<exists>ls h. lines_ok ls \<and> h \<noteq> StompHeader.kInvalid \<and>
     drop i plain = concat (map header_line ls) @ header_to_string h @ [colon])"
proof (induction plain i hs rule: parse_headers.induct)
  case (1 plain i hs)
  note unf = parse_headers.simps [of plain i hs]
  from 1(2) have True: "i < length plain \<and> plain ! i \<noteq> newLine"
    by (auto simp: unf split: if_splits)
  then obtain he where he: "find_char colon plain i = Some he"
    using 1(2) by (cases "find_char colon plain i") (simp_all add: unf)
  let ?h = "ToHeader (substr plain i (he - i))"
  have h: "?h \<noteq> StompHeader.kInvalid"
    using 1(2) True he by (auto simp: unf Let_def split: if_splits)
  obtain a r where a: "drop i plain = a @ colon # r" "he = i + length a"
    "drop (Suc he) plain = r" "substr plain i (he - i) = a"
    by (rule find_char_drop [OF he])
  have ah: "header_to_string ?h = a" using a(4) header_to_string_inverse [OF h] by simp
  show ?case
  proof (cases "length plain \<le> he + 1")
    case cut: True
    then have "r = []" using a(3) cut by auto
    moreover have "x = Out_Of_Range" using 1(2) True he h cut by (simp add: unf Let_def)
    ultimately show ?thesis
      using a(1) ah h by (intro conjI exI [of _ "[]"] exI [of _ ?h]) (auto simp: lines_ok_def)
  next
    case vs: False
    then have nl: "plain ! (he + 1) \<noteq> newLine"
      using 1(2) True he h by (auto simp: unf Let_def split: if_splits)
    obtain ve where ve: "find_char newLine plain (he + 1) = Some ve"
      using 1(2) True he h vs nl by (cases "find_char newLine plain (he + 1)") (auto simp: unf Let_def)
    let ?v = "substr plain (he + 1) (ve - (he + 1))"
    have rec: "parse_headers plain (ve + 1) (umap_emplace ?h ?v hs) = Fault x"
      using 1(2) True he h vs nl ve by (simp add: unf Let_def)
    obtain b r2 where b: "drop (he + 1) plain = b @ newLine # r2" "newLine \<notin> set b"
      "drop (Suc ve) plain = r2" "?v = b"
      by (rule find_char_drop [OF ve])
    have "b \<noteq> []"
    proof
      assume "b = []"
      then have "drop (he + 1) plain ! 0 = newLine" using b(1) by simp
      then show False using vs nl by simp
    qed
    have bd: "ve + 1 \<le> length plain" using find_char_bounds [OF ve] by simp
    obtain ls h' where ls: "x = Out_Of_Range" "lines_ok ls" "h' \<noteq> StompHeader.kInvalid"
      "drop (ve + 1) plain = concat (map header_line ls) @ header_to_string h' @ [colon]"
      using 1(1) [OF True he refl refl h vs nl ve rec bd] by blast
    have "drop i plain = header_line (?h, b) @ drop (ve + 1) plain"
      using a b ah by (simp add: header_line_def)
    then show ?thesis
      using ls h b(2) \<open>b \<noteq> []\<close>
      by (intro conjI exI [of _ "(?h, b) # ls"] exI [of _ h']) (simp_all add: lines_ok_Cons)
  qed
qed

lemma parse_plain_throws: "parse_plain plain = Fault x \<longleftrightarrow> x = Out_Of_Range \<and> cut_after_colon plain"
proof
  assume f: "parse_plain plain = Fault x"
  then obtain ce where ce: "find_char newLine plain 0 = Some ce"
    by (cases "find_char newLine plain 0") (simp_all add: parse_plain_def)
  have c: "ToCommand (substr plain 0 ce) \<noteq> StompCommand.kInvalid"
    using f ce by (auto simp: parse_plain_def)
  have h: "parse_headers plain (ce + 1) [] = Fault x"
    using f ce c by (cases "parse_headers plain (ce + 1) []") (auto simp: parse_plain_def split: sum.splits)
  obtain a r where a: "drop 0 plain = a @ newLine # r" "drop (Suc ce) plain = r" "substr plain 0 (ce - 0) = a"
    by (rule find_char_drop [OF ce])
  have "ce + 1 \<le> length plain" using find_char_bounds [OF ce] by simp
  from parse_headers_fault [OF h this] obtain ls h' where
    "x = Out_Of_Range" "lines_ok ls" "h' \<noteq> StompHeader.kInvalid"
    "drop (ce + 1) plain = concat (map header_line ls) @ header_to_string h' @ [colon]" by blast
  then show "x = Out_Of_Range \<and> cut_after_colon plain"
    unfolding cut_after_colon_def using a c command_to_string_inverse [OF c]
    by (intro conjI exI [of _ "ToCommand a"] exI [of _ ls] exI [of _ h']) simp_all
next
  assume "x = Out_Of_Range \<and> cut_after_colon plain"
  then obtain c ls h where x: "x = Out_Of_Range"
    and p: "plain = (command_to_string c @ [newLine]) @ concat (map header_line ls) @
        header_to_string h @ [colon]"
    and ok: "c \<noteq> StompCommand.kInvalid" "lines_ok ls" "h \<noteq> StompHeader.kInvalid"
    by (auto simp: cut_after_colon_def)
  have "find_char newLine plain 0 = Some (length (command_to_string c))"
    using find_char_append [OF command_to_string_chars, of "[]"] unfolding p by simp
  moreover have "substr plain 0 (length (command_to_string c)) = command_to_string c"
    using substr_append [of "[]" "command_to_string c"] unfolding p by simp
  moreover have "parse_headers plain (length (command_to_string c) + 1) [] = Fault Out_Of_Range"
    using parse_headers_cut [OF ok(2,3), of "command_to_string c @ [newLine]" "[]"] unfolding p by simp
  ultimately show "parse_plain plain = Fault x"
    using x ok(1) ToCommand_inverse [OF ok(1)] by (simp add: parse_plain_def Let_def)
qed

section \<open>Names\<close>

text \<open>The printed name of a command, a header or an error is read back as the same value; and a
  string is read as a command or a header only if it is its printed name.\<close>

theorem names_roundtrip:
  "ToCommand (command_to_string c) = c \<and> ToHeader (header_to_string h) = h \<and>
   StringToError (error_to_string e) = e \<and>
   (ToCommand s = StompCommand.kInvalid \<or> command_to_string (ToCommand s) = s) \<and>
   (ToHeader s = StompHeader.kInvalid \<or> header_to_string (ToHeader s) = s)"
proof (intro conjI)
  show "ToCommand (command_to_string c) = c"
  proof (cases "c = StompCommand.kInvalid")
    case True
    show ?thesis unfolding True by code_simp
  qed (rule ToCommand_inverse)
  show "ToHeader (header_to_string h) = h"
  proof (cases "h = StompHeader.kInvalid")
    case True
    show ?thesis unfolding True by code_simp
  qed (rule ToHeader_inverse)
  show "StringToError (error_to_string e) = e"
    by (cases e) (simp_all add: StringToError_def error_to_string_def right_of_def gStompErrorStrings_def)
qed (use command_to_string_inverse header_to_string_inverse in blast)+

section \<open>The constructors\<close>

text \<open>C6: the parser of frames accepts exactly the texts of the grammar: the name of a command and a
  line end, header lines of a known header, a colon, a value that is not empty and a line end, a
  blank line, a body that the content-length header measures or that has no NULL octet, the NULL
  octet, and line ends; and it stores that command, the first value of each header, and the body.
  On anything else it leaves the frame as it was.\<close>

theorem ParseFrame_grammar:
  "(ParseFrame f = (Returns kOk, f') \<longleftrightarrow>
     (\<exists>c hs body. in_grammar (sf_plain f) c hs body \<and>
        f' = f\<lparr>sf_command := c, sf_headers := hs, sf_body := body\<rparr>)) \<and>
   (fst (ParseFrame f) = Returns kOk \<or> snd (ParseFrame f) = f)"
proof -
  have "fst (ParseFrame f) = Returns kOk \<or> snd (ParseFrame f) = f"
    by (auto simp: ParseFrame_def split: outcome.splits sum.splits prod.splits)
  then show ?thesis using ParseFrame_kOk by blast
qed

text \<open>C33: constructing a frame from a text throws exactly when the text ends right after the colon
  of a header: \<open>at\<close> is asked for the character behind the end. Any other malformed text gives an
  error code.\<close>

theorem ParseFrame_throws:
  "fst (ParseFrame f) = Fault x \<longleftrightarrow> x = Out_Of_Range \<and> cut_after_colon (sf_plain f)"
  using parse_plain_throws [of "sf_plain f" x]
  by (cases "parse_plain (sf_plain f)") (auto simp: ParseFrame_def split: sum.splits)

text \<open>The content-length header, if there is one, is the length of the body.\<close>

definition length_ok :: "Headers \<Rightarrow> string \<Rightarrow> bool" where
  "length_ok hs body \<longleftrightarrow>
     (case map_of hs kContentLength of
        None \<Rightarrow> nullChar \<notin> set body
      | Some v \<Rightarrow> StoI v = (True, Some (length body)))"

lemma length_ok_fits: "length_ok hs body \<Longrightarrow> body_fits hs body"
  by (auto simp: length_ok_def body_fits_def read_length_def split: option.splits)

lemma collect_append:
  "distinct (map fst (hs @ ls)) \<Longrightarrow> collect ls hs = hs @ ls"
proof (induction ls arbitrary: hs)
  case (Cons hv ls)
  have "map_of hs (fst hv) = None" using Cons.prems by (auto simp: map_of_eq_None_iff)
  then show ?case
    using Cons.IH [of "hs @ [hv]"] Cons.prems by (simp add: collect_def umap_emplace_def split_beta)
qed (simp add: collect_def)

lemma ValidateFrame_cases:
  assumes "length_ok (sf_headers f) (sf_body f)" and "required_headers (sf_command f) = Some req"
  shows "ValidateFrame f = Returns (if set req \<subseteq> dom (map_of (sf_headers f)) then kOk
    else kValidationMissingHeader)"
  using assms
  by (auto simp: ValidateFrame_def length_ok_def HasHeader_def GetHeaderValue_def list_all_iff
      split: option.splits)

lemma required_headers_Some: "c \<noteq> StompCommand.kInvalid \<Longrightarrow> \<exists>req. required_headers c = Some req"
  by (cases c) simp_all

lemma parse_make:
  assumes c: "c \<noteq> StompCommand.kInvalid" and hs: "umap_ok hs" "lines_ok hs" and b: "body_fits hs body"
  shows "parse_plain (make_plain c hs body) = Returns (Inr (c, hs, body))"
proof -
  have "collect hs [] = hs" using collect_append [of "[]" hs] hs(1) by (simp add: umap_ok_def)
  then show ?thesis
    using parse_plain_accepts [OF c hs(2), of body "[]"] b by (simp add: frame_text_def make_plain_def)
qed

lemma make_result:
  assumes "c \<noteq> StompCommand.kInvalid" and "umap_ok hs" and "lines_ok hs" and "length_ok hs body"
  shows "\<exists>f. StompFrame_make c hs body =
      (Returns (if set (the (required_headers c)) \<subseteq> dom (map_of hs) then kOk
                else kValidationMissingHeader), f) \<and>
    GetCommand f = c \<and> (\<forall>h. HasHeader f h \<longleftrightarrow> h \<in> dom (map_of hs)) \<and>
    (\<forall>h v. map_of hs h = Some v \<longrightarrow> GetHeaderValue f h = v) \<and> GetBody f = body \<and>
    StompFrame_parse (frame_ToString f) = StompFrame_make c hs body"
proof -
  let ?f = "\<lparr>sf_plain = make_plain c hs body, sf_command = c, sf_headers = hs, sf_body = body\<rparr>"
  obtain req where req: "required_headers c = Some req" using required_headers_Some [OF assms(1)] ..
  have "ParseFrame (empty_frame\<lparr>sf_plain := make_plain c hs body\<rparr>) = (Returns kOk, ?f)"
    using parse_make [OF assms(1-3) length_ok_fits [OF assms(4)]]
    by (simp add: ParseFrame_def empty_frame_def)
  moreover have "ValidateFrame ?f = Returns (if set req \<subseteq> dom (map_of hs) then kOk
      else kValidationMissingHeader)"
    using ValidateFrame_cases [of ?f req] assms(4) req by simp
  ultimately have "StompFrame_make c hs body =
      (Returns (if set req \<subseteq> dom (map_of hs) then kOk else kValidationMissingHeader), ?f)"
    by (simp add: StompFrame_make_def ParseAndValidateFrame_def)
  then show ?thesis
    using req by (intro exI [of _ ?f])
      (auto simp: GetCommand_def HasHeader_def GetHeaderValue_def GetBody_def frame_ToString_def
        StompFrame_parse_def StompFrame_make_def)
qed

text \<open>C9: a frame assembled from a command, headers and a body, whose values have a character and no
  line end and whose body is measured by its content-length or has no NULL octet, has these
  components, whatever the order of the headers; its text, parsed again, gives the same frame; and
  the error code says whether a header that the command requires is missing.\<close>

theorem StompFrame_make_roundtrip:
  assumes "c \<noteq> StompCommand.kInvalid" and "umap_ok hs" and "lines_ok hs" and "length_ok hs body"
  shows "\<exists>f. StompFrame_make c hs body =
      (Returns (if set (the (required_headers c)) \<subseteq> dom (map_of hs) then kOk
                else kValidationMissingHeader), f) \<and>
    GetCommand f = c \<and> (\<forall>h. HasHeader f h \<longleftrightarrow> h \<in> dom (map_of hs)) \<and>
    (\<forall>h v. map_of hs h = Some v \<longrightarrow> GetHeaderValue f h = v) \<and> GetBody f = body \<and>
    StompFrame_parse (frame_ToString f) = StompFrame_make c hs body"
  by (rule make_result [OF assms])

lemma StompFrame_make_roundtrip_witness:
  "\<exists>f. StompFrame_make StompCommand.kSend [(kDestination, ''/a''), (kContentLength, ''2'')] ''hi'' =
     (Returns kOk, f) \<and> GetBody f = ''hi''"
proof -
  have "length_ok [(kDestination, ''/a''), (kContentLength, ''2'')] ''hi''"
    by (simp add: length_ok_def StoI_def fits_size_def is_digit_def)
  moreover have "lines_ok [(kDestination, ''/a''), (kContentLength, ''2'')]" by (simp add: lines_ok_def newLine_def)
  ultimately show ?thesis
    using StompFrame_make_roundtrip [of StompCommand.kSend "[(kDestination, ''/a''), (kContentLength, ''2'')]" "''hi''"]
    by (auto simp: umap_ok_def)
qed

text \<open>A frame without a body whose content-length is a number that does not fit in 64 bits is
  accepted by the parser as a frame of length 0, and then validated against a variable that was
  never written.\<close>

theorem huge_content_length:
  assumes g: "in_grammar s c hs body" and v: "map_of hs kContentLength = Some v"
    and huge: "StoI v = (True, None)" and req: "set (the (required_headers c)) \<subseteq> dom (map_of hs)"
  shows "body = [] \<and> fst (StompFrame_parse s) = Fault Undefined_Behaviour"
proof -
  have c: "c \<noteq> StompCommand.kInvalid" and b: "body_fits hs body" using g by (auto simp: in_grammar_def)
  obtain r where r: "required_headers c = Some r" using required_headers_Some [OF c] ..
  have "body = []" using b v huge by (simp add: body_fits_def read_length_def)
  moreover have "ParseFrame (empty_frame\<lparr>sf_plain := s\<rparr>) =
      (Returns kOk, empty_frame\<lparr>sf_plain := s, sf_command := c, sf_headers := hs, sf_body := body\<rparr>)"
    using ParseFrame_kOk g by auto
  moreover have "list_all (HasHeader (empty_frame\<lparr>sf_plain := s, sf_command := c, sf_headers := hs,
      sf_body := body\<rparr>)) r"
    using req r by (auto simp: list_all_iff HasHeader_def)
  ultimately show ?thesis
    using r v huge by (simp add: StompFrame_parse_def ParseAndValidateFrame_def ValidateFrame_def
        HasHeader_def GetHeaderValue_def)
qed

lemma huge_content_length_witness:
  "fst (StompFrame_parse (frame_text StompCommand.kSend
     [(kDestination, ''/a''), (kContentLength, ''99999999999999999999'')] [] [])) =
   Fault Undefined_Behaviour"
proof -
  let ?hs = "[(kDestination, ''/a''), (kContentLength, ''99999999999999999999'')]"
  have s: "StoI ''99999999999999999999'' = (True, None)" by (simp add: StoI_def fits_size_def is_digit_def)
  have "collect ?hs [] = ?hs" by (simp add: collect_def umap_emplace_def)
  moreover have "lines_ok ?hs" by (simp add: lines_ok_def newLine_def)
  moreover have "body_fits ?hs []" using s by (simp add: body_fits_def read_length_def)
  ultimately have "in_grammar (frame_text StompCommand.kSend ?hs [] []) StompCommand.kSend ?hs []"
    unfolding in_grammar_def by (intro exI [of _ ?hs] exI [of _ "[]"]) simp
  from huge_content_length [OF this _ s] show ?thesis by simp
qed

text \<open>Assigning a frame whose text the parser rejects leaves the command, the headers and the
  body of the frame assigned to, while the text is that of the other one.\<close>

theorem assign_rejected_frame:
  assumes "parse_plain (sf_plain other) = Returns (Inl e)"
  shows "StompFrame_assign this other = this\<lparr>sf_plain := sf_plain other\<rparr>"
  using assms parse_plain_error [OF assms]
  by (simp add: StompFrame_assign_def ParseAndValidateFrame_def ParseFrame_def)

lemma assign_rejected_frame_witness:
  "StompFrame_assign (snd (StompFrame_make StompCommand.kDisconnect [] [])) empty_frame =
     (snd (StompFrame_make StompCommand.kDisconnect [] []))\<lparr>sf_plain := []\<rparr>"
proof -
  have "parse_plain (sf_plain empty_frame) = Returns (Inl kParsingMissingEolAfterCommand)" by code_simp
  from assign_rejected_frame [OF this] show ?thesis by (simp add: empty_frame_def)
qed

end
