(* ===== verification/Stomp_Messages.thy ===== *)
theory Stomp_Messages
  imports Stomp_Frame_Laws
begin

text \<open>
  What the client and the server share in the frames they send: numbers as header values, the
  order of the headers as a parameter, and the SEND frame that both build.
\<close>

section \<open>Numbers as header values\<close>

text \<open>\<^verbatim>\<open>std::to_string\<close> of a size.\<close>

fun to_dec :: "nat \<Rightarrow> string" where
  "to_dec n = (if n < 10 then [char_of (48 + n)] else to_dec (n div 10) @ [char_of (48 + n mod 10)])"

declare to_dec.simps [simp del]

lemma digits_value_append: "digits_value acc (xs @ ys) = digits_value (digits_value acc xs) ys"
  by (induction acc xs rule: digits_value.induct) simp_all

lemma of_char_digit: "d < 10 \<Longrightarrow> of_char (char_of (48 + d :: nat)) = (48 + d :: nat)"
  by (simp add: of_char_of)

lemma to_dec_digits: "(\<forall>c \<in> set (to_dec n). is_digit c) \<and> to_dec n \<noteq> [] \<and> digits_value 0 (to_dec n) = n"
proof (induction n rule: to_dec.induct)
  case (1 n)
  show ?case
  proof (cases "n < 10")
    case True
    then show ?thesis by (simp add: to_dec.simps [of n] is_digit_def of_char_digit)
  next
    case False
    have "n mod 10 < 10" by simp
    then have m: "of_char (char_of (48 + n mod 10 :: nat)) = 48 + n mod 10" by (rule of_char_digit)
    show ?thesis
      using 1 [OF False] m False
      by (auto simp: to_dec.simps [of n] digits_value_append is_digit_def)
  qed
qed

lemma StoI_to_dec: "n < 2 ^ 64 \<Longrightarrow> StoI (to_dec n) = (True, Some n)"
  using to_dec_digits [of n] by (simp add: StoI_def fits_size_def takeWhile_eq_all_conv [THEN iffD2])

lemma to_dec_no_newline: "newLine \<notin> set (to_dec n)"
  using to_dec_digits [of n] by (auto simp: is_digit_def newLine_def)

section \<open>Headers in any order\<close>

text \<open>
  The headers of a frame are passed as a map whose iteration order is not specified: \<open>ord\<close>
  puts them in the order in which the constructor sees them.
\<close>

type_synonym header_order = "Headers \<Rightarrow> Headers"

locale header_layout =
  fixes ord :: header_order
  assumes ord_mset: "mset (ord hs) = mset hs"
begin

lemma ord_set: "set (ord hs) = set hs"
  using ord_mset [of hs] by (metis set_mset_mset)

lemma ord_ok: "umap_ok (ord hs) \<longleftrightarrow> umap_ok hs"
  unfolding umap_ok_def using ord_mset [of hs] by (metis mset_eq_imp_distinct_iff mset_map)

lemma ord_lookup: "umap_ok hs \<Longrightarrow> map_of (ord hs) = map_of hs"
  using ord_ok [of hs] ord_set [of hs] by (simp add: umap_ok_def map_of_inject_set)

lemma make_any_order:
  assumes "c \<noteq> StompCommand.kInvalid" and "umap_ok hs" and "lines_ok hs" and "length_ok hs body"
  shows "\<exists>f. StompFrame_make c (ord hs) body =
      (Returns (if set (the (required_headers c)) \<subseteq> dom (map_of hs) then kOk
                else kValidationMissingHeader), f) \<and>
    GetCommand f = c \<and> (\<forall>h. HasHeader f h \<longleftrightarrow> h \<in> dom (map_of hs)) \<and>
    (\<forall>h v. map_of hs h = Some v \<longrightarrow> GetHeaderValue f h = v) \<and> GetBody f = body \<and>
    StompFrame_parse (frame_ToString f) = StompFrame_make c (ord hs) body"
proof -
  have "lines_ok (ord hs)" using assms(3) by (simp add: lines_ok_def ord_set)
  moreover have "length_ok (ord hs) body"
    using assms(4) ord_lookup [OF assms(2)] by (simp add: length_ok_def)
  moreover have "umap_ok (ord hs)" using assms(2) by (simp add: ord_ok)
  ultimately show ?thesis
    using make_result [OF assms(1), of "ord hs" body] ord_lookup [OF assms(2)] by simp
qed

end

text \<open>Two layouts: insertion order, and the reverse.\<close>

interpretation insertion_order: header_layout "\<lambda>hs. hs"
  by unfold_locales simp

interpretation reverse_order: header_layout rev
  by unfold_locales simp

section \<open>A header without a value\<close>

lemma lines_ok_Nil: "lines_ok []"
  unfolding lines_ok_def list.set by blast

lemma lines_ok_iff:
  "lines_ok ls \<longleftrightarrow>
   (\<forall>hv \<in> set ls. fst hv \<noteq> StompHeader.kInvalid \<and> snd hv \<noteq> [] \<and> newLine \<notin> set (snd hv))"
  by (induction ls) (simp_all add: lines_ok_Cons lines_ok_Nil)

lemma parse_headers_empty:
  assumes ls: "lines_ok ls" and h: "h \<noteq> StompHeader.kInvalid"
  shows "parse_headers (pre @ concat (map header_line ls) @ header_line (h, []) @ post) (length pre) hs
    = Returns (Inl kParsingEmptyHeaderValue)"
proof -
  let ?n = "header_to_string h" and ?pre = "pre @ concat (map header_line ls)"
  let ?plain = "?pre @ ?n @ colon # newLine # post"
  have start: "length ?pre < length ?plain" "?plain ! length ?pre \<noteq> newLine"
    using header_to_string_chars(1,3) [of h] by (auto simp: nth_append neq_Nil_conv)
  have f: "find_char colon ?plain (length ?pre) = Some (length ?pre + length ?n)"
    by (rule find_char_append [OF header_to_string_chars(2) [OF h]])
  have s: "substr ?plain (length ?pre) (length ?n) = ?n" by (rule substr_append)
  have p: "?plain = (?pre @ ?n @ [colon]) @ newLine # post" by simp
  have v: "length ?pre + length ?n + 1 < length ?plain" "?plain ! (length ?pre + length ?n + 1) = newLine"
    unfolding p by (simp_all add: nth_append)
  have "parse_headers ?plain (length ?pre) (collect ls hs) = Returns (Inl kParsingEmptyHeaderValue)"
    using start f s v ToHeader_inverse [OF h] h by (subst parse_headers.simps) (simp add: Let_def)
  then show ?thesis
    using parse_headers_lines [OF ls, of pre "?n @ colon # newLine # post" hs]
    by (simp add: header_line_def)
qed

lemma make_empty_value:
  assumes c: "c \<noteq> StompCommand.kInvalid" and i: "StompHeader.kInvalid \<notin> set (map fst hs)"
    and nl: "\<forall>hv \<in> set hs. newLine \<notin> set (snd hv)" and e: "[] \<in> set (map snd hs)"
  shows "fst (StompFrame_make c hs body) = Returns kParsingEmptyHeaderValue"
proof -
  have "\<exists>hv \<in> set hs. snd hv = []" using e unfolding set_map image_iff by metis
  then obtain pre hv post where hs: "hs = pre @ hv # post" "snd hv = []" "\<forall>hv \<in> set pre. snd hv \<noteq> []"
    by (metis split_list_first_prop [of hs "\<lambda>hv. snd hv = []"])
  have ok: "fst hv' \<noteq> StompHeader.kInvalid" if "hv' \<in> set hs" for hv'
    using i that unfolding set_map by (metis image_eqI)
  have ls: "lines_ok pre"
    unfolding lines_ok_iff using ok nl hs(3) unfolding hs(1) set_append by blast
  have h: "fst hv \<noteq> StompHeader.kInvalid" by (rule ok) (simp add: hs(1))
  have hv: "hv = (fst hv, [])" using hs(2) by (metis prod.collapse)
  let ?rest = "concat (map header_line post) @ [newLine] @ body @ [nullChar]"
  have p: "make_plain c hs body = (command_to_string c @ [newLine]) @ concat (map header_line pre) @
      header_line (fst hv, []) @ ?rest"
    unfolding make_plain_def hs(1) using hv by simp
  have "find_char newLine (make_plain c hs body) 0 = Some (length (command_to_string c))"
    using find_char_append [OF command_to_string_chars, of "[]"] unfolding p by simp
  moreover have "substr (make_plain c hs body) 0 (length (command_to_string c)) = command_to_string c"
    using substr_append [of "[]" "command_to_string c"] unfolding p by simp
  moreover have "parse_headers (make_plain c hs body) (length (command_to_string c) + 1) [] =
      Returns (Inl kParsingEmptyHeaderValue)"
    using parse_headers_empty [OF ls h, of "command_to_string c @ [newLine]" ?rest "[]"] unfolding p by simp
  ultimately have "parse_plain (make_plain c hs body) = Returns (Inl kParsingEmptyHeaderValue)"
    using c ToCommand_inverse [OF c] by (simp add: parse_plain_def Let_def)
  then show ?thesis
    by (simp add: StompFrame_make_def ParseAndValidateFrame_def ParseFrame_def)
qed

section \<open>The frames both sides send\<close>

text \<open>What can be the value of a header.\<close>

definition id_ok :: "string \<Rightarrow> bool" where
  "id_ok i \<longleftrightarrow> i \<noteq> [] \<and> newLine \<notin> set i"

named_theorems header_values \<open>texts that can be the value of a header\<close>

lemma constant_values [header_values]:
  "id_ok ''1.2''" "id_ok ''auto''" "id_ok ''text/plain''" "id_ok ''application/json''"
  by (simp_all add: id_ok_def newLine_def)

lemma length_value [header_values]: "id_ok (to_dec n)"
  using to_dec_digits to_dec_no_newline by (auto simp: id_ok_def)

lemma version_ok: "newLine \<notin> set ''1.2''"
  by (simp add: newLine_def)

lemma auto_ok: "newLine \<notin> set ''auto''"
  by (simp add: newLine_def)

lemma lines_ok_values:
  "list_all (\<lambda>(h, v). h \<noteq> StompHeader.kInvalid \<and> id_ok v) hs \<Longrightarrow> lines_ok hs"
  by (auto simp: list_all_iff lines_ok_def id_ok_def)

context header_layout
begin

lemma make_valid:
  assumes "c \<noteq> StompCommand.kInvalid" and "umap_ok hs"
    and "list_all (\<lambda>(h, v). h \<noteq> StompHeader.kInvalid \<and> id_ok v) hs" and "length_ok hs body"
    and "list_all (\<lambda>h. map_of hs h \<noteq> None) (the (required_headers c))"
  obtains f where "StompFrame_make c (ord hs) body = (Returns StompError.kOk, f)"
    and "StompFrame_parse (frame_ToString f) = (Returns StompError.kOk, f)"
    and "GetCommand f = c" and "GetBody f = body"
    and "\<And>h v. map_of hs h = Some v \<Longrightarrow> GetHeaderValue f h = v"
proof -
  have "set (the (required_headers c)) \<subseteq> dom (map_of hs)" using assms(5) by (auto simp: list_all_iff)
  then show thesis
    using make_any_order [OF assms(1,2) lines_ok_values [OF assms(3)] assms(4)] that by fastforce
qed

lemma send_frame:
  assumes "id_ok rid" and "id_ok dest" and "length content < 2 ^ 64"
  shows "\<exists>f. StompFrame_make StompCommand.kSend
      (ord [(kId, rid), (kDestination, dest), (kContentType, ''application/json''),
            (kContentLength, to_dec (length content))]) content = (Returns StompError.kOk, f) \<and>
    StompFrame_parse (frame_ToString f) = (Returns StompError.kOk, f) \<and>
    GetCommand f = StompCommand.kSend \<and> GetHeaderValue f kDestination = dest \<and>
    GetHeaderValue f kId = rid \<and> GetBody f = content"
  by (rule make_valid [where c = StompCommand.kSend and body = content and
        hs = "[(kId, rid), (kDestination, dest), (kContentType, ''application/json''),
          (kContentLength, to_dec (length content))]"])
    (simp_all add: umap_ok_def length_ok_def assms header_values StoI_to_dec [OF assms(3)])

end

end
