(* ===== verification/Stomp_Server.thy ===== *)
theory Stomp_Server
  imports Stomp_Messages
begin

text \<open>
  The STOMP server, \<^verbatim>\<open>inc/network-monitor/stomp-server.h\<close>: its two maps of sessions, and one
  definition per operation and per handler of the WebSocket server's callbacks. The WebSocket
  server and its sessions are outside: a session is an identity of type \<open>'w\<close>, what the code
  asks of it, and the user callbacks it posts, are actions, in order.
\<close>

section \<open>State\<close>

datatype StompServerError =
    kOk
  | kUndefinedError
  | kClientCannotReconnect
  | kCouldNotCloseClientConnection
  | kCouldNotParseFrame
  | kCouldNotSendMessage
  | kCouldNotStartWebSocketServer
  | kInvalidHeaderValueAcceptVersion
  | kInvalidHeaderValueHost
  | kUnsupportedFrame
  | kWebSocketSessionDisconnected
  | kWebSocketServerDisconnected

definition gStompServerErrorStrings :: "(StompServerError \<times> string) list" where
  "gStompServerErrorStrings =
     [(StompServerError.kOk, ''Ok''),
      (StompServerError.kUndefinedError, ''UndefinedError''),
      (StompServerError.kClientCannotReconnect, ''ClientCannotReconnect''),
      (StompServerError.kCouldNotCloseClientConnection, ''CouldNotCloseClientConnection''),
      (StompServerError.kCouldNotParseFrame, ''CouldNotParseFrame''),
      (StompServerError.kCouldNotSendMessage, ''CouldNotSendMessage''),
      (StompServerError.kCouldNotStartWebSocketServer, ''CouldNotStartWebSocketServer''),
      (StompServerError.kInvalidHeaderValueAcceptVersion, ''InvalidHeaderValueAcceptVersion''),
      (StompServerError.kInvalidHeaderValueHost, ''InvalidHeaderValueHost''),
      (StompServerError.kUnsupportedFrame, ''UnsupportedFrame''),
      (StompServerError.kWebSocketSessionDisconnected, ''WebSocketSessionDisconnected''),
      (StompServerError.kWebSocketServerDisconnected, ''WebSocketServerDisconnected'')]"

definition server_error_to_string :: "StompServerError \<Rightarrow> string" where
  "server_error_to_string e =
     (case map_of gStompServerErrorStrings e of None \<Rightarrow> ''UndefinedError'' | Some s \<Rightarrow> s)"

datatype ConnectionStatus = kInvalid | kPending | kConnected

record Connection =
  cn_id :: string
  cn_status :: ConnectionStatus

text \<open>A handler is there or not; what it does is the user's business.\<close>

record 'w stomp_server =
  sv_host :: string
  sv_onClientConnect :: bool
  sv_onClientMessage :: bool
  sv_onClientDisconnect :: bool
  sv_onDisconnect :: bool
  sv_connections :: "('w, Connection) umap"
  sv_sessions :: "(string, 'w) umap"

text \<open>
  What the server does to the outside. A send or a close may carry a completion handler, named by
  the request or the connection it reports; its call is an action of its own.
\<close>

datatype 'w server_action =
    Ws_Send 'w string "string option"
  | Ws_Close 'w "string option"
  | Ws_Stop
  | Client_Connected StompServerError string
  | Client_Message StompServerError string string string string
  | Client_Disconnected StompServerError string
  | Server_Disconnected StompServerError
  | Send_Done StompServerError string
  | Close_Done StompServerError string

definition new_server :: "string \<Rightarrow> 'w stomp_server" where
  "new_server host =
     \<lparr>sv_host = host, sv_onClientConnect = False, sv_onClientMessage = False,
      sv_onClientDisconnect = False, sv_onDisconnect = False, sv_connections = [], sv_sessions = []\<rparr>"

definition kVersion :: string where "kVersion = ''1.2''"

section \<open>Operations\<close>

text \<open>\<^verbatim>\<open>Run\<close>: the handlers are stored, also when the WebSocket server does not start.\<close>

definition server_Run ::
  "bool \<Rightarrow> bool \<Rightarrow> bool \<Rightarrow> bool \<Rightarrow> bool \<Rightarrow> 'w stomp_server \<Rightarrow> StompServerError \<times> 'w stomp_server" where
  "server_Run onConnect onMessage onClientDisconnect onDisconnect failed st =
     (if failed then kCouldNotStartWebSocketServer else StompServerError.kOk,
      st\<lparr>sv_onClientConnect := onConnect, sv_onClientMessage := onMessage,
         sv_onClientDisconnect := onClientDisconnect, sv_onDisconnect := onDisconnect\<rparr>)"

definition MakeErrorFrame :: "header_order \<Rightarrow> StompServerError \<Rightarrow> StompError outcome \<times> StompFrame" where
  "MakeErrorFrame ord error =
     StompFrame_make StompCommand.kError
       (ord [(kContentType, ''text/plain''), (StompHeader.kVersion, kVersion)])
       (server_error_to_string error)"

definition CloseConnection ::
  "header_order \<Rightarrow> string \<Rightarrow> 'w \<Rightarrow> StompServerError \<Rightarrow> string option \<Rightarrow> 'w stomp_server \<Rightarrow>
   unit outcome \<times> 'w stomp_server \<times> 'w server_action list" where
  "CloseConnection ord cid wsSession error onClose st =
     (let st' = st\<lparr>sv_sessions := AList.delete cid (sv_sessions st),
                   sv_connections := AList.delete wsSession (sv_connections st)\<rparr>
      in if error = StompServerError.kUndefinedError
         then (Returns (), st', [Ws_Close wsSession onClose])
         else
           (case MakeErrorFrame ord StompServerError.kUnsupportedFrame of
              (Returns _, frame) \<Rightarrow>
                (Returns (), st', [Ws_Send wsSession (frame_ToString frame) None,
                                   Ws_Close wsSession onClose])
            | (Fault x, _) \<Rightarrow> (Fault x, st', [])
            | (Diverges, _) \<Rightarrow> (Diverges, st', [])))"

text \<open>\<^verbatim>\<open>Send\<close>; \<open>newId\<close> is the ID generated if the user has none.\<close>

definition server_Send ::
  "header_order \<Rightarrow> string \<Rightarrow> string \<Rightarrow> string \<Rightarrow> string \<Rightarrow> bool \<Rightarrow> string \<Rightarrow> 'w stomp_server \<Rightarrow>
   string outcome \<times> 'w server_action list" where
  "server_Send ord newId connectionId destination messageContent onSend userRequestId st =
     (case map_of (sv_sessions st) connectionId of
        None \<Rightarrow> (Returns '''', [])
      | Some wsSession \<Rightarrow>
          (case map_of (sv_connections st) wsSession of
             None \<Rightarrow> (Returns '''', [Ws_Close wsSession None])
           | Some connection \<Rightarrow>
               if cn_status connection \<noteq> kConnected then (Returns '''', [])
               else
                 let requestId = (if userRequestId = '''' then newId else userRequestId)
                 in (case StompFrame_make StompCommand.kSend
                            (ord [(kId, requestId), (kDestination, destination),
                                  (kContentType, ''application/json''),
                                  (kContentLength, to_dec (length messageContent))])
                            messageContent of
                       (Returns error, frame) \<Rightarrow>
                         if error \<noteq> StompError.kOk then (Returns '''', [])
                         else (Returns requestId,
                               [Ws_Send wsSession (frame_ToString frame)
                                  (if onSend then Some requestId else None)])
                     | (Fault x, _) \<Rightarrow> (Fault x, [])
                     | (Diverges, _) \<Rightarrow> (Diverges, []))))"

text \<open>The completion handlers of \<^verbatim>\<open>Send\<close> and \<^verbatim>\<open>Close\<close>.\<close>

definition server_OnSend :: "bool \<Rightarrow> string \<Rightarrow> 'w server_action list" where
  "server_OnSend failed requestId =
     [Send_Done (if failed then kCouldNotSendMessage else StompServerError.kOk) requestId]"

definition server_OnClose :: "bool \<Rightarrow> string \<Rightarrow> 'w server_action list" where
  "server_OnClose failed connectionId =
     [Close_Done (if failed then kCouldNotCloseClientConnection else StompServerError.kOk) connectionId]"

definition server_Close ::
  "header_order \<Rightarrow> string \<Rightarrow> bool \<Rightarrow> 'w stomp_server \<Rightarrow>
   unit outcome \<times> 'w stomp_server \<times> 'w server_action list" where
  "server_Close ord connectionId onClientClose st =
     (let handler = (if onClientClose then Some connectionId else None)
      in case map_of (sv_sessions st) connectionId of
           None \<Rightarrow> (Returns (), st, [])
         | Some wsSession \<Rightarrow>
             (case map_of (sv_connections st) wsSession of
                None \<Rightarrow> (Returns (), st, [Ws_Close wsSession handler])
              | Some connection \<Rightarrow>
                  CloseConnection ord (cn_id connection) wsSession StompServerError.kUndefinedError
                    handler st))"

definition server_Stop :: "'w stomp_server \<Rightarrow> 'w stomp_server \<times> 'w server_action list" where
  "server_Stop st =
     (st\<lparr>sv_connections := [], sv_sessions := []\<rparr>,
      Ws_Stop # map (\<lambda>(wsSession, _). Ws_Close wsSession None) (sv_connections st))"

section \<open>Handlers\<close>

definition OnWsSessionConnect ::
  "bool \<Rightarrow> 'w \<Rightarrow> string \<Rightarrow> 'w stomp_server \<Rightarrow> 'w stomp_server \<times> 'w server_action list" where
  "OnWsSessionConnect failed wsSession newId st =
     (if failed then (st, [Ws_Close wsSession None])
      else
        (st\<lparr>sv_sessions := AList.update newId wsSession (sv_sessions st),
            sv_connections := AList.update wsSession \<lparr>cn_id = newId, cn_status = kPending\<rparr>
              (sv_connections st)\<rparr>, []))"

definition HandleStomp ::
  "header_order \<Rightarrow> 'w \<Rightarrow> Connection \<Rightarrow> StompFrame \<Rightarrow> 'w stomp_server \<Rightarrow>
   unit outcome \<times> 'w stomp_server \<times> 'w server_action list" where
  "HandleStomp ord wsSession connection frame st =
     (if GetHeaderValue frame kAcceptVersion \<noteq> kVersion then
        CloseConnection ord (cn_id connection) wsSession kInvalidHeaderValueAcceptVersion None st
      else if GetHeaderValue frame kHost \<noteq> sv_host st then
        CloseConnection ord (cn_id connection) wsSession kInvalidHeaderValueHost None st
      else if cn_status connection \<noteq> kPending then
        CloseConnection ord (cn_id connection) wsSession kClientCannotReconnect None st
      else
        let st' = st\<lparr>sv_connections := AList.update wsSession (connection\<lparr>cn_status := kConnected\<rparr>)
                      (sv_connections st)\<rparr>
        in (case StompFrame_make StompCommand.kConnected
                   (ord [(StompHeader.kVersion, ''1.2''), (kSession, cn_id connection)]) '''' of
              (Returns error, response) \<Rightarrow>
                if error \<noteq> StompError.kOk then (Returns (), st', [])
                else
                  (Returns (), st',
                   Ws_Send wsSession (frame_ToString response) None #
                   (if sv_onClientConnect st
                    then [Client_Connected StompServerError.kOk (cn_id connection)] else []))
            | (Fault x, _) \<Rightarrow> (Fault x, st', [])
            | (Diverges, _) \<Rightarrow> (Diverges, st', [])))"

definition HandleSend ::
  "header_order \<Rightarrow> 'w \<Rightarrow> Connection \<Rightarrow> StompFrame \<Rightarrow> 'w stomp_server \<Rightarrow>
   unit outcome \<times> 'w stomp_server \<times> 'w server_action list" where
  "HandleSend ord wsSession connection frame st =
     (if cn_status connection \<noteq> kConnected then
        CloseConnection ord (cn_id connection) wsSession StompServerError.kUndefinedError None st
      else
        (Returns (), st,
         if sv_onClientMessage st
         then [Client_Message StompServerError.kOk (cn_id connection)
                 (GetHeaderValue frame kDestination) (GetHeaderValue frame kId) (GetBody frame)]
         else []))"

definition OnWsSessionMessage ::
  "header_order \<Rightarrow> bool \<Rightarrow> 'w \<Rightarrow> string \<Rightarrow> 'w stomp_server \<Rightarrow>
   unit outcome \<times> 'w stomp_server \<times> 'w server_action list" where
  "OnWsSessionMessage ord failed wsSession msg st =
     (case map_of (sv_connections st) wsSession of
        None \<Rightarrow> (Returns (), st, [Ws_Close wsSession None])
      | Some connection \<Rightarrow>
          if failed then (Returns (), st, [])
          else
            (case StompFrame_parse msg of
               (Returns error, frame) \<Rightarrow>
                 if error \<noteq> StompError.kOk then
                   CloseConnection ord (cn_id connection) wsSession kCouldNotParseFrame None st
                 else
                   (case GetCommand frame of
                      StompCommand.kStomp \<Rightarrow> HandleStomp ord wsSession connection frame st
                    | StompCommand.kSend \<Rightarrow> HandleSend ord wsSession connection frame st
                    | _ \<Rightarrow> CloseConnection ord (cn_id connection) wsSession
                             StompServerError.kUnsupportedFrame None st)
             | (Fault x, _) \<Rightarrow> (Fault x, st, [])
             | (Diverges, _) \<Rightarrow> (Diverges, st, [])))"

definition OnWsSessionDisconnect ::
  "bool \<Rightarrow> 'w \<Rightarrow> 'w stomp_server \<Rightarrow> 'w stomp_server \<times> 'w server_action list" where
  "OnWsSessionDisconnect failed wsSession st =
     (case map_of (sv_connections st) wsSession of
        None \<Rightarrow> (st, [])
      | Some connection \<Rightarrow>
          (st\<lparr>sv_sessions := AList.delete (cn_id connection) (sv_sessions st),
              sv_connections := AList.delete wsSession (sv_connections st)\<rparr>,
           if cn_status connection = kConnected \<and> sv_onClientDisconnect st
           then [Client_Disconnected (if failed then kWebSocketSessionDisconnected
                                      else StompServerError.kOk) (cn_id connection)]
           else []))"

definition server_OnWsDisconnect :: "bool \<Rightarrow> 'w stomp_server \<Rightarrow> 'w server_action list" where
  "server_OnWsDisconnect failed st =
     (if sv_onDisconnect st
      then [Server_Disconnected (if failed then kWebSocketServerDisconnected else StompServerError.kOk)]
      else [])"

section \<open>The server as a state machine\<close>

datatype 'w server_event =
    Ev_Connect bool 'w string
  | Ev_Message bool 'w string
  | Ev_Disconnect bool 'w
  | Ev_Send string string string string bool string
  | Ev_Close string bool
  | Ev_Stop

text \<open>The state with the actions so far.\<close>

fun server_step ::
  "header_order \<Rightarrow> 'w server_event \<Rightarrow> 'w stomp_server \<times> 'w server_action list \<Rightarrow>
   'w stomp_server \<times> 'w server_action list" where
  "server_step ord (Ev_Connect failed w newId) (st, tr) =
     (let (st', acts) = OnWsSessionConnect failed w newId st in (st', tr @ acts))"
| "server_step ord (Ev_Message failed w msg) (st, tr) =
     (let (_, st', acts) = OnWsSessionMessage ord failed w msg st in (st', tr @ acts))"
| "server_step ord (Ev_Disconnect failed w) (st, tr) =
     (let (st', acts) = OnWsSessionDisconnect failed w st in (st', tr @ acts))"
| "server_step ord (Ev_Send newId cid dest content onSend rid) (st, tr) =
     (st, tr @ snd (server_Send ord newId cid dest content onSend rid st))"
| "server_step ord (Ev_Close cid onClose) (st, tr) =
     (let (_, st', acts) = server_Close ord cid onClose st in (st', tr @ acts))"
| "server_step ord Ev_Stop (st, tr) =
     (let (st', acts) = server_Stop st in (st', tr @ acts))"

text \<open>Whether the handler returned.\<close>

fun server_result :: "header_order \<Rightarrow> 'w server_event \<Rightarrow> 'w stomp_server \<Rightarrow> unit outcome" where
  "server_result ord (Ev_Message failed w msg) st = fst (OnWsSessionMessage ord failed w msg st)"
| "server_result ord _ st = Returns ()"

text \<open>The actions that are callbacks posted on the server's strand.\<close>

fun server_post :: "'w server_action \<Rightarrow> bool" where
  "server_post (Client_Connected e i) = True"
| "server_post (Client_Message e i d r m) = True"
| "server_post (Client_Disconnected e i) = True"
| "server_post (Server_Disconnected e) = True"
| "server_post _ = False"

text \<open>
  What the environment guarantees: a new session and a new ID were not there before, and an ID,
  the text of a UUID, can be the value of a header.
\<close>

fun server_allowed :: "'w server_event \<Rightarrow> 'w stomp_server \<times> 'w server_action list \<Rightarrow> bool" where
  "server_allowed (Ev_Connect failed w newId) (st, tr) \<longleftrightarrow>
     map_of (sv_connections st) w = None \<and> map_of (sv_sessions st) newId = None \<and> id_ok newId"
| "server_allowed _ _ \<longleftrightarrow> True"

end
