(* ===== verification/Stomp_Server_Laws.thy ===== *)
theory Stomp_Server_Laws
  imports Stomp_Server
begin

text \<open>
  The STOMP server's promises: its two maps stay inverse to each other, the user only ever hears
  of clients that have completed the STOMP handshake, the handshake and the messages do what the
  protocol asks, and what the server does when it disconnects a client itself.
\<close>

section \<open>The invariant\<close>

definition maps_agree :: "'w stomp_server \<Rightarrow> bool" where
  "maps_agree st \<longleftrightarrow>
     umap_ok (sv_connections st) \<and> umap_ok (sv_sessions st) \<and>
     (\<forall>w c. map_of (sv_connections st) w = Some c \<longrightarrow>
        map_of (sv_sessions st) (cn_id c) = Some w \<and> cn_status c \<in> {kPending, kConnected} \<and>
        id_ok (cn_id c)) \<and>
     (\<forall>i w. map_of (sv_sessions st) i = Some w \<longrightarrow>
        (\<exists>c. map_of (sv_connections st) w = Some c \<and> cn_id c = i))"

text \<open>The client an action tells the user about, other than by its connection.\<close>

fun tells_about :: "'w server_action \<Rightarrow> string option" where
  "tells_about (Client_Message e i d r m) = Some i"
| "tells_about (Client_Disconnected e i) = Some i"
| "tells_about _ = None"

definition announced :: "string \<Rightarrow> 'w server_action list \<Rightarrow> bool" where
  "announced i tr \<longleftrightarrow> Client_Connected StompServerError.kOk i \<in> set tr"

definition trace_ok :: "'w server_action list \<Rightarrow> bool" where
  "trace_ok = each_after (\<lambda>a tr. \<forall>i. tells_about a = Some i \<longrightarrow> announced i tr)"

text \<open>With a handler for connections, a connected client has been announced.\<close>

definition server_inv :: "'w stomp_server \<times> 'w server_action list \<Rightarrow> bool" where
  "server_inv s \<longleftrightarrow>
     maps_agree (fst s) \<and> sv_onClientConnect (fst s) \<and> trace_ok (snd s) \<and>
     (\<forall>w c. map_of (sv_connections (fst s)) w = Some c \<longrightarrow> cn_status c = kConnected \<longrightarrow>
        announced (cn_id c) (snd s))"

lemma announced_append [simp]: "announced i tr \<Longrightarrow> announced i (tr @ acts)"
  by (simp add: announced_def)

lemma trace_ok_append:
  assumes "trace_ok tr"
    and "\<And>a i. a \<in> set acts \<Longrightarrow> tells_about a = Some i \<Longrightarrow> announced i tr"
  shows "trace_ok (tr @ acts)"
  using assms unfolding trace_ok_def by (intro each_after_append) simp_all

text \<open>
  What an operation may do to the state: nothing, remove a session from both maps, or remove
  all of them. Each keeps the agreement.
\<close>

definition drop_session :: "string \<Rightarrow> 'w \<Rightarrow> 'w stomp_server \<Rightarrow> 'w stomp_server" where
  "drop_session i w st =
     st\<lparr>sv_sessions := AList.delete i (sv_sessions st),
        sv_connections := AList.delete w (sv_connections st)\<rparr>"

lemma maps_agree_session:
  "maps_agree st \<Longrightarrow> map_of (sv_sessions st) i = Some w \<Longrightarrow>
   \<exists>c. map_of (sv_connections st) w = Some c \<and> cn_id c = i"
  by (simp add: maps_agree_def)

lemma maps_agree_connection:
  "maps_agree st \<Longrightarrow> map_of (sv_connections st) w = Some c \<Longrightarrow>
   map_of (sv_sessions st) (cn_id c) = Some w \<and> cn_status c \<in> {kPending, kConnected} \<and>
     id_ok (cn_id c)"
  by (simp add: maps_agree_def)

lemma drop_session_agree:
  assumes m: "maps_agree st" and c: "map_of (sv_connections st) w = Some c"
  shows "maps_agree (drop_session (cn_id c) w st)"
  unfolding maps_agree_def
proof (intro conjI allI impI)
  show "umap_ok (sv_connections (drop_session (cn_id c) w st))"
    "umap_ok (sv_sessions (drop_session (cn_id c) w st))"
    using m by (simp_all add: maps_agree_def drop_session_def)
next
  fix w' c' assume a: "map_of (sv_connections (drop_session (cn_id c) w st)) w' = Some c'"
  then have w': "w' \<noteq> w" "map_of (sv_connections st) w' = Some c'"
    by (auto simp: drop_session_def delete_conv' split: if_splits)
  note mc = maps_agree_connection [OF m w'(2)]
  then show "cn_status c' \<in> {kPending, kConnected}" "id_ok (cn_id c')" by simp_all
  have "cn_id c' \<noteq> cn_id c" using mc maps_agree_connection [OF m c] w'(1) by auto
  then show "map_of (sv_sessions (drop_session (cn_id c) w st)) (cn_id c') = Some w'"
    using mc by (simp add: drop_session_def delete_conv')
next
  fix i w' assume a: "map_of (sv_sessions (drop_session (cn_id c) w st)) i = Some w'"
  then have i: "i \<noteq> cn_id c" "map_of (sv_sessions st) i = Some w'"
    by (auto simp: drop_session_def delete_conv' split: if_splits)
  then obtain c' where c': "map_of (sv_connections st) w' = Some c'" "cn_id c' = i"
    using maps_agree_session [OF m] by blast
  then have "w' \<noteq> w" using c i(1) by auto
  then show "\<exists>c'. map_of (sv_connections (drop_session (cn_id c) w st)) w' = Some c' \<and> cn_id c' = i"
    using c' by (simp add: drop_session_def delete_conv')
qed

lemma drop_session_inv:
  assumes "server_inv (st, tr)" and "map_of (sv_connections st) w = Some c"
    and "\<And>a. a \<in> set acts \<Longrightarrow> tells_about a = None"
  shows "server_inv (drop_session (cn_id c) w st, tr @ acts)"
proof -
  have "trace_ok (tr @ acts)"
    using assms by (intro trace_ok_append) (auto simp: server_inv_def)
  moreover have "maps_agree (drop_session (cn_id c) w st)"
    using assms by (intro drop_session_agree) (simp_all add: server_inv_def)
  ultimately show ?thesis
    using assms(1) by (auto simp: server_inv_def drop_session_def delete_conv' split: if_splits)
qed

lemma same_state_inv:
  "server_inv (st, tr) \<Longrightarrow>
   (\<And>a i. a \<in> set acts \<Longrightarrow> tells_about a = Some i \<Longrightarrow> announced i tr) \<Longrightarrow> server_inv (st, tr @ acts)"
  by (auto simp: server_inv_def intro: trace_ok_append)

lemma CloseConnection_drop:
  assumes "CloseConnection ord i w error onClose st = (res, st', acts)"
  shows "st' = drop_session i w st" and "a \<in> set acts \<Longrightarrow> tells_about a = None"
  using assms
  by (auto simp: CloseConnection_def drop_session_def Let_def split: if_splits prod.splits outcome.splits)

lemma CloseConnection_inv:
  assumes "server_inv (st, tr)" and "map_of (sv_connections st) w = Some c"
    and "CloseConnection ord (cn_id c) w error onClose st = (res, st', acts)"
  shows "server_inv (st', tr @ acts)"
  using drop_session_inv [OF assms(1,2)] CloseConnection_drop [OF assms(3)] by metis

lemma OnWsSessionConnect_inv:
  assumes inv: "server_inv (st, tr)" and new: "map_of (sv_connections st) w = None"
    "map_of (sv_sessions st) newId = None" "id_ok newId"
    and op: "OnWsSessionConnect failed w newId st = (st', acts)"
  shows "server_inv (st', tr @ acts)"
proof (cases failed)
  case True
  then have "st' = st" "acts = [Ws_Close w None]" using op by (auto simp: OnWsSessionConnect_def)
  then show ?thesis using same_state_inv [OF inv, of acts] by simp
next
  case False
  then have st': "st' = st\<lparr>sv_sessions := AList.update newId w (sv_sessions st),
      sv_connections := AList.update w \<lparr>cn_id = newId, cn_status = kPending\<rparr> (sv_connections st)\<rparr>"
    and acts: "acts = []" using op by (simp_all add: OnWsSessionConnect_def)
  have m: "maps_agree st" using inv by (simp add: server_inv_def)
  have "cn_id c \<noteq> newId" if "map_of (sv_connections st) w' = Some c" for w' c
    using maps_agree_connection [OF m that] new(2) by auto
  moreover have "w' \<noteq> w" if "map_of (sv_sessions st) i = Some w'" for i w'
    using maps_agree_session [OF m that] new(1) by auto
  ultimately have "maps_agree st'"
    using m new(3) unfolding st' by (auto simp: maps_agree_def update_conv')
  then show ?thesis
    using inv by (auto simp: server_inv_def acts st' update_conv' split: if_splits)
qed

abbreviation connect_client :: "'w \<Rightarrow> Connection \<Rightarrow> 'w stomp_server \<Rightarrow> 'w stomp_server" where
  "connect_client w c st \<equiv>
     st\<lparr>sv_connections := AList.update w (c\<lparr>cn_status := kConnected\<rparr>) (sv_connections st)\<rparr>"

lemma set_status_agree:
  assumes m: "maps_agree st" and c: "map_of (sv_connections st) w = Some c"
  shows "maps_agree (connect_client w c st)"
  unfolding maps_agree_def
proof (intro conjI allI impI)
  show "umap_ok (sv_connections (connect_client w c st))" "umap_ok (sv_sessions (connect_client w c st))"
    using m by (simp_all add: maps_agree_def)
next
  fix w' c' assume a: "map_of (sv_connections (connect_client w c st)) w' = Some c'"
  have "map_of (sv_sessions st) (cn_id c') = Some w' \<and> cn_status c' \<in> {kPending, kConnected} \<and>
      id_ok (cn_id c')"
  proof (cases "w' = w")
    case True
    then have "c' = c\<lparr>cn_status := kConnected\<rparr>" using a by (simp add: update_conv')
    then show ?thesis using maps_agree_connection [OF m c] True by simp
  next
    case False
    then have "map_of (sv_connections st) w' = Some c'" using a by (simp add: update_conv')
    then show ?thesis by (rule maps_agree_connection [OF m])
  qed
  then show "map_of (sv_sessions (connect_client w c st)) (cn_id c') = Some w'"
    "cn_status c' \<in> {kPending, kConnected}" "id_ok (cn_id c')" by simp_all
next
  fix i w' assume "map_of (sv_sessions (connect_client w c st)) i = Some w'"
  then obtain c' where c': "map_of (sv_connections st) w' = Some c'" "cn_id c' = i"
    using maps_agree_session [OF m, of i w'] by auto
  then show "\<exists>c'. map_of (sv_connections (connect_client w c st)) w' = Some c' \<and> cn_id c' = i"
    using c by (cases "w' = w") (simp_all add: update_conv')
qed

context header_layout
begin

lemma connected_frame:
  assumes "id_ok i"
  shows "\<exists>f. StompFrame_make StompCommand.kConnected
      (ord [(StompHeader.kVersion, ''1.2''), (kSession, i)]) '''' = (Returns StompError.kOk, f) \<and>
    GetCommand f = StompCommand.kConnected \<and> GetHeaderValue f StompHeader.kVersion = ''1.2'' \<and>
    GetHeaderValue f kSession = i \<and> StompFrame_parse (frame_ToString f) = (Returns StompError.kOk, f)"
  by (rule make_valid [where c = StompCommand.kConnected and body = "[]" and
        hs = "[(StompHeader.kVersion, ''1.2''), (kSession, i)]"])
    (simp_all add: umap_ok_def length_ok_def assms header_values)

lemma HandleStomp_cases:
  assumes m: "maps_agree st" and c: "map_of (sv_connections st) w = Some c"
    and op: "HandleStomp ord w c frame st = (res, st', acts)"
  obtains (closed) error where "error \<noteq> StompServerError.kUndefinedError"
      "CloseConnection ord (cn_id c) w error None st = (res, st', acts)"
      "\<not> (GetHeaderValue frame kAcceptVersion = ''1.2'' \<and> GetHeaderValue frame kHost = sv_host st \<and>
          cn_status c = kPending)"
  | (connected) f where "GetHeaderValue frame kAcceptVersion = ''1.2''"
      "GetHeaderValue frame kHost = sv_host st" "cn_status c = kPending"
      "res = Returns ()" "st' = connect_client w c st"
      "acts = Ws_Send w (frame_ToString f) None #
         (if sv_onClientConnect st then [Client_Connected StompServerError.kOk (cn_id c)] else [])"
      "GetCommand f = StompCommand.kConnected" "GetHeaderValue f StompHeader.kVersion = ''1.2''"
      "GetHeaderValue f kSession = cn_id c" "StompFrame_parse (frame_ToString f) = (Returns StompError.kOk, f)"
proof -
  obtain f where f: "StompFrame_make StompCommand.kConnected
      (ord [(StompHeader.kVersion, ''1.2''), (kSession, cn_id c)]) '''' = (Returns StompError.kOk, f)"
    "GetCommand f = StompCommand.kConnected" "GetHeaderValue f StompHeader.kVersion = ''1.2''"
    "GetHeaderValue f kSession = cn_id c" "StompFrame_parse (frame_ToString f) = (Returns StompError.kOk, f)"
    using connected_frame maps_agree_connection [OF m c] by blast
  show thesis
  proof (cases "GetHeaderValue frame kAcceptVersion = ''1.2'' \<and> GetHeaderValue frame kHost = sv_host st \<and>
      cn_status c = kPending")
    case True
    then show ?thesis
      using op f(1) by (intro connected [OF _ _ _ _ _ _ f(2-5)])
        (auto simp: HandleStomp_def kVersion_def)
  next
    case False
    then show ?thesis
      using op closed by (auto simp: HandleStomp_def kVersion_def split: if_splits)
  qed
qed

lemma HandleStomp_inv:
  assumes inv: "server_inv (st, tr)" and c: "map_of (sv_connections st) w = Some c"
    and op: "HandleStomp ord w c frame st = (res, st', acts)"
  shows "server_inv (st', tr @ acts)"
proof -
  have m: "maps_agree st" using inv by (simp add: server_inv_def)
  show ?thesis
    using m c op
  proof (cases rule: HandleStomp_cases)
    case (closed error)
    then show ?thesis by (intro CloseConnection_inv [OF inv c])
  next
    case (connected f)
    have acts: "acts = [Ws_Send w (frame_ToString f) None, Client_Connected StompServerError.kOk (cn_id c)]"
      using connected(6) inv by (simp add: server_inv_def)
    have "trace_ok (tr @ acts)"
      using inv by (intro trace_ok_append) (auto simp: server_inv_def acts)
    moreover have "announced (cn_id c) (tr @ acts)" by (simp add: announced_def acts)
    ultimately show ?thesis
      using set_status_agree [OF m c] inv
      by (auto simp: server_inv_def connected(5) update_conv' split: if_splits)
  qed
qed

lemma HandleSend_inv:
  assumes inv: "server_inv (st, tr)" and c: "map_of (sv_connections st) w = Some c"
    and op: "HandleSend ord w c frame st = (res, st', acts)"
  shows "server_inv (st', tr @ acts)"
proof (cases "cn_status c = kConnected")
  case False
  then show ?thesis
    using op by (intro CloseConnection_inv [OF inv c]) (simp add: HandleSend_def)
next
  case True
  then have an: "announced (cn_id c) tr" using inv c by (simp add: server_inv_def)
  have st': "st' = st" and acts: "acts = (if sv_onClientMessage st then
      [Client_Message StompServerError.kOk (cn_id c) (GetHeaderValue frame kDestination)
         (GetHeaderValue frame kId) (GetBody frame)] else [])"
    using op True by (auto simp: HandleSend_def)
  show ?thesis
    unfolding st' by (rule same_state_inv [OF inv]) (use an in \<open>auto simp: acts split: if_splits\<close>)
qed

lemma OnWsSessionMessage_cases:
  assumes op: "OnWsSessionMessage ord failed w msg st = (res, st', acts)"
  obtains (unknown) "map_of (sv_connections st) w = None" "st' = st" "acts = [Ws_Close w None]"
  | (nothing) c where "map_of (sv_connections st) w = Some c" "st' = st" "acts = []"
      "failed \<or> (\<forall>e. res \<noteq> Returns e)"
  | (close) c error where "map_of (sv_connections st) w = Some c" "\<not> failed"
      "error = kCouldNotParseFrame \<or> error = StompServerError.kUnsupportedFrame"
      "CloseConnection ord (cn_id c) w error None st = (res, st', acts)"
  | (stomp) c frame where "map_of (sv_connections st) w = Some c" "\<not> failed"
      "StompFrame_parse msg = (Returns StompError.kOk, frame)" "GetCommand frame = StompCommand.kStomp"
      "HandleStomp ord w c frame st = (res, st', acts)"
  | (send) c frame where "map_of (sv_connections st) w = Some c" "\<not> failed"
      "StompFrame_parse msg = (Returns StompError.kOk, frame)" "GetCommand frame = StompCommand.kSend"
      "HandleSend ord w c frame st = (res, st', acts)"
proof (cases "map_of (sv_connections st) w")
  case None
  then show ?thesis using op by (intro unknown) (auto simp: OnWsSessionMessage_def)
next
  case (Some c)
  show ?thesis
  proof (cases failed)
    case True
    then have e: "st' = st" "acts = []" using op Some by (auto simp: OnWsSessionMessage_def)
    show ?thesis by (rule nothing) (use Some True e in simp_all)
  next
    case nf: False
    obtain ec frame where p: "StompFrame_parse msg = (ec, frame)" by fastforce
    consider "ec = Returns StompError.kOk" | e where "ec = Returns e" "e \<noteq> StompError.kOk"
      | "\<forall>e. ec \<noteq> Returns e" by blast
    then show ?thesis
    proof cases
      case 1
      have "OnWsSessionMessage ord failed w msg st =
        (case GetCommand frame of
           StompCommand.kStomp \<Rightarrow> HandleStomp ord w c frame st
         | StompCommand.kSend \<Rightarrow> HandleSend ord w c frame st
         | _ \<Rightarrow> CloseConnection ord (cn_id c) w StompServerError.kUnsupportedFrame None st)"
        using Some nf p 1 by (simp add: OnWsSessionMessage_def)
      then consider "CloseConnection ord (cn_id c) w StompServerError.kUnsupportedFrame None st = (res, st', acts)"
        | "GetCommand frame = StompCommand.kStomp" "HandleStomp ord w c frame st = (res, st', acts)"
        | "GetCommand frame = StompCommand.kSend" "HandleSend ord w c frame st = (res, st', acts)"
        using op by (cases "GetCommand frame") simp_all
      then show ?thesis
        by cases (use Some nf p 1 in \<open>blast intro: close stomp send\<close>)+
    next
      case (2 e)
      then have "CloseConnection ord (cn_id c) w kCouldNotParseFrame None st = (res, st', acts)"
        using op Some nf p by (simp add: OnWsSessionMessage_def)
      then show ?thesis using Some nf by (blast intro: close)
    next
      case 3
      then have e: "st' = st" "acts = []" "\<forall>e. res \<noteq> Returns e"
        using op Some nf p by (cases ec; auto simp: OnWsSessionMessage_def)+
      show ?thesis by (rule nothing) (use Some e in simp_all)
    qed
  qed
qed

lemma OnWsSessionMessage_inv:
  assumes inv: "server_inv (st, tr)"
    and op: "OnWsSessionMessage ord failed w msg st = (res, st', acts)"
  shows "server_inv (st', tr @ acts)"
  using op
proof (cases rule: OnWsSessionMessage_cases)
  case unknown
  then show ?thesis using same_state_inv [OF inv, of "[Ws_Close w None]"] by simp
next
  case (nothing c)
  then show ?thesis using inv by simp
next
  case (close c error)
  then show ?thesis by (blast intro: CloseConnection_inv [OF inv])
next
  case (stomp c frame)
  then show ?thesis by (blast intro: HandleStomp_inv [OF inv])
next
  case (send c frame)
  then show ?thesis by (blast intro: HandleSend_inv [OF inv])
qed

lemma OnWsSessionDisconnect_inv:
  assumes inv: "server_inv (st, tr)" and op: "OnWsSessionDisconnect failed w st = (st', acts)"
  shows "server_inv (st', tr @ acts)"
proof (cases "map_of (sv_connections st) w")
  case None
  then show ?thesis using op inv by (simp add: OnWsSessionDisconnect_def)
next
  case (Some c)
  let ?acts = "if cn_status c = kConnected \<and> sv_onClientDisconnect st
    then [Client_Disconnected (if failed then kWebSocketSessionDisconnected else StompServerError.kOk) (cn_id c)]
    else []"
  have st': "st' = drop_session (cn_id c) w st" and acts: "acts = ?acts"
    using op Some by (simp_all add: OnWsSessionDisconnect_def drop_session_def)
  have an: "cn_status c = kConnected \<Longrightarrow> announced (cn_id c) tr"
    using inv Some by (simp add: server_inv_def)
  have "server_inv (st, tr @ acts)"
    by (rule same_state_inv [OF inv]) (use an in \<open>auto simp: acts split: if_splits\<close>)
  from drop_session_inv [OF this Some, of "[]"] show ?thesis by (simp add: st')
qed

lemma server_Send_acts:
  "a \<in> set (snd (server_Send ord newId cid dest content onSend rid st)) \<Longrightarrow> tells_about a = None"
  by (auto simp: server_Send_def Let_def split: option.splits if_splits prod.splits outcome.splits)

lemma server_Close_inv:
  assumes inv: "server_inv (st, tr)" and op: "server_Close ord cid onClose st = (res, st', acts)"
  shows "server_inv (st', tr @ acts)"
proof (cases "map_of (sv_sessions st) cid")
  case None
  then show ?thesis using op inv by (simp add: server_Close_def)
next
  case (Some w)
  then obtain c where c: "map_of (sv_connections st) w = Some c"
    using inv maps_agree_session by (fastforce simp: server_inv_def)
  then have "CloseConnection ord (cn_id c) w StompServerError.kUndefinedError
      (if onClose then Some cid else None) st = (res, st', acts)"
    using op Some by (simp add: server_Close_def)
  then show ?thesis by (rule CloseConnection_inv [OF inv c])
qed

lemma server_Stop_inv:
  assumes inv: "server_inv (st, tr)" and op: "server_Stop st = (st', acts)"
  shows "server_inv (st', tr @ acts)"
proof -
  have acts: "acts = Ws_Stop # map (\<lambda>(w, _). Ws_Close w None) (sv_connections st)"
    and st': "st' = st\<lparr>sv_connections := [], sv_sessions := []\<rparr>" using op by (simp_all add: server_Stop_def)
  have "trace_ok (tr @ acts)"
    by (rule trace_ok_append) (use inv in \<open>auto simp: acts server_inv_def\<close>)
  then show ?thesis using inv by (simp add: server_inv_def st' maps_agree_def)
qed

lemma server_step_inv:
  assumes inv: "server_inv s" and al: "server_allowed e s"
  shows "server_inv (server_step ord e s)"
proof -
  obtain st tr where s: "s = (st, tr)" by fastforce
  note i = inv [unfolded s]
  show ?thesis
  proof (cases e)
    case (Ev_Connect failed w newId)
    then show ?thesis
      using OnWsSessionConnect_inv [OF i] al by (auto simp: s split: prod.splits)
  next
    case (Ev_Message failed w msg)
    then show ?thesis using OnWsSessionMessage_inv [OF i] by (auto simp: s split: prod.splits)
  next
    case (Ev_Disconnect failed w)
    then show ?thesis using OnWsSessionDisconnect_inv [OF i] by (auto simp: s split: prod.splits)
  next
    case (Ev_Send newId cid dest content onSend rid)
    have "server_inv (st, tr @ snd (server_Send ord newId cid dest content onSend rid st))"
      by (rule same_state_inv [OF i]) (simp add: server_Send_acts)
    then show ?thesis by (simp add: s Ev_Send)
  next
    case (Ev_Close cid onClose)
    then show ?thesis using server_Close_inv [OF i] by (auto simp: s split: prod.splits)
  next
    case Ev_Stop
    then show ?thesis using server_Stop_inv [OF i] by (auto simp: s split: prod.splits)
  qed
qed

end

section \<open>The callbacks that are posted\<close>

text \<open>
  The callbacks that a step of the server posts: a client that is connected without an error, the
  message of a frame that was parsed, or a client that has gone.
\<close>

lemma closing_posts_nothing: "server_post a \<Longrightarrow> a \<notin> set (snd (snd (CloseConnection ord i w e h st)))"
  by (auto simp: CloseConnection_def Let_def split: prod.splits outcome.splits if_splits)

lemma message_posts:
  assumes "a \<in> set (snd (snd (OnWsSessionMessage ord failed w msg st)))" and "server_post a"
  shows "(\<exists>i. a = Client_Connected StompServerError.kOk i) \<or>
    (\<exists>i f. StompFrame_parse msg = (Returns StompError.kOk, f) \<and>
       a = Client_Message StompServerError.kOk i (GetHeaderValue f kDestination) (GetHeaderValue f kId) (GetBody f))"
proof -
  have none: "a \<notin> set (snd (snd (CloseConnection ord i w e h st)))" for i e h
    by (rule closing_posts_nothing [OF assms(2)])
  have stomp: "\<exists>i. a = Client_Connected StompServerError.kOk i"
    if "a \<in> set (snd (snd (HandleStomp ord w c f st)))" for c f
    using that assms(2)
    by (auto simp: none HandleStomp_def Let_def split: if_splits prod.splits outcome.splits)
  have send: "\<exists>i. a = Client_Message StompServerError.kOk i (GetHeaderValue f kDestination)
      (GetHeaderValue f kId) (GetBody f)"
    if "a \<in> set (snd (snd (HandleSend ord w c f st)))" for c f
    using that by (auto simp: none HandleSend_def split: if_splits)
  show ?thesis
    using assms stomp send
    by (auto simp: none OnWsSessionMessage_def split: option.splits if_splits prod.splits outcome.splits StompCommand.splits)
qed

lemma server_step_posts:
  assumes "a \<in> set (snd (server_step ord ev (st, [])))" and "server_post a"
  obtains (connected) i where "a = Client_Connected StompServerError.kOk i"
  | (message) i f msg where "StompFrame_parse msg = (Returns StompError.kOk, f)"
      "a = Client_Message StompServerError.kOk i (GetHeaderValue f kDestination) (GetHeaderValue f kId) (GetBody f)"
  | (disconnected) e i where "a = Client_Disconnected e i"
proof (cases ev)
  case (Ev_Message failed w m)
  then show ?thesis using assms message_posts [of a ord failed w m st] connected message by (auto split: prod.splits)
next
  case (Ev_Disconnect failed w)
  then show ?thesis
    using assms disconnected by (auto simp: OnWsSessionDisconnect_def split: option.splits if_splits)
next
  case (Ev_Send newId i d c h r)
  then show ?thesis
    using assms by (auto simp: server_Send_def Let_def split: option.splits if_splits prod.splits outcome.splits)
next
  case (Ev_Close i h)
  then show ?thesis
    using assms closing_posts_nothing [OF assms(2)]
    by (auto simp: server_Close_def Let_def split_beta split: option.splits)
qed (use assms in \<open>auto simp: OnWsSessionConnect_def server_Stop_def split: if_splits\<close>)

lemma server_connects_ok:
  assumes "Client_Connected e i \<in> set (snd (server_step ord ev (st, [])))"
  shows "e = StompServerError.kOk"
  by (rule server_step_posts [OF assms]) simp_all

end
