(* ===== verification/Stomp_Server_Props.thy ===== *)
theory Stomp_Server_Props
  imports Stomp_Server_Laws
begin

text \<open>
  The STOMP server's contract with its user and its clients, for every order in which the headers
  of a frame may be laid out: the promises of \<^verbatim>\<open>stomp-server.h\<close> over whole runs, and what one
  handshake, one message and one protocol error do.
\<close>

section \<open>A running server\<close>

text \<open>A server that has been started with a handler for connections.\<close>

definition started :: "string \<Rightarrow> bool \<Rightarrow> bool \<Rightarrow> bool \<Rightarrow> 'w stomp_server \<times> 'w server_action list" where
  "started host onMessage onClientDisconnect onDisconnect =
     (snd (server_Run True onMessage onClientDisconnect onDisconnect False (new_server host)), [])"

lemma started_inv: "server_inv (started host m d o')"
  by (simp add: started_def server_Run_def new_server_def server_inv_def maps_agree_def trace_ok_def)

text \<open>The server, with its layout of headers, host and handlers, is a machine that keeps the invariant.\<close>

locale stomp_service = header_layout +
  fixes host :: string and onMessage onClientDisconnect onDisconnect :: bool
begin

lemma step_keeps_inv: "server_inv s \<Longrightarrow> server_allowed e s \<Longrightarrow> server_inv (server_step ord e s)"
  by (rule server_step_inv)

end

sublocale stomp_service \<subseteq>
  machine: invariant_machine "started host onMessage onClientDisconnect onDisconnect" "server_step ord"
    server_allowed server_inv
  by unfold_locales (auto intro: started_inv step_keeps_inv)

context stomp_service
begin

lemma every_run:
  assumes "all_allowed (server_step ord) server_allowed es
      (started host onMessage onClientDisconnect onDisconnect)"
    and "run_all (server_step ord) es (started host onMessage onClientDisconnect onDisconnect) = (st, tr)"
  shows "maps_agree st \<and> trace_ok tr"
  using machine.run_from_init [OF assms(1)] by (simp add: assms(2) server_inv_def)

end

interpretation any_host: stomp_service "\<lambda>hs. hs" host onMessage onClientDisconnect onDisconnect
  for host onMessage onClientDisconnect onDisconnect
  by unfold_locales

text \<open>C17: over any sequence of connections, messages, disconnections, sends, closes and stops, with
  any result of the WebSocket layer, the server's two maps stay inverse to each other, and every
  message and disconnection that the user is told of is of a client whose STOMP connection was
  announced before. What is assumed of the environment is that a new session and a new ID are not
  in the maps.\<close>

theorem server_announces_first:
  assumes "\<And>hs. mset (ord hs) = mset hs"
    and "all_allowed (server_step ord) server_allowed es (started host onMessage onClientDisconnect onDisconnect)"
    and "run_all (server_step ord) es (started host onMessage onClientDisconnect onDisconnect) = (st, tr)"
  shows "maps_agree st \<and>
    (\<forall>n < length tr. \<forall>i. tells_about (tr ! n) = Some i \<longrightarrow>
       Client_Connected StompServerError.kOk i \<in> set (take n tr))"
proof -
  have "stomp_service ord" by unfold_locales (rule assms(1))
  from stomp_service.every_run [OF this assms(2,3)] show ?thesis
    by (simp add: trace_ok_def announced_def each_after_def)
qed

text \<open>A client that connects, speaks and leaves.\<close>

definition example_stomp :: string where
  "example_stomp = frame_text StompCommand.kStomp [(kAcceptVersion, ''1.2''), (kHost, ''h'')] [] []"

definition example_send :: string where
  "example_send = frame_text StompCommand.kSend [(kDestination, ''/d''), (kId, ''7'')] ''hi'' []"

definition example_events :: "nat server_event list" where
  "example_events =
     [Ev_Connect False 0 ''i'', Ev_Message False 0 example_stomp, Ev_Message False 0 example_send,
      Ev_Disconnect False 0]"

definition example_trace :: "nat server_action list" where
  "example_trace =
     [Ws_Send 0 (frame_text StompCommand.kConnected [(kSession, ''i''), (StompHeader.kVersion, ''1.2'')] [] []) None,
      Client_Connected StompServerError.kOk ''i'',
      Client_Message StompServerError.kOk ''i'' ''/d'' ''7'' ''hi'',
      Client_Disconnected StompServerError.kOk ''i'']"

lemma example_run:
  "run_all (server_step rev) example_events (started ''h'' True True True) =
     (fst (started ''h'' True True True), example_trace)"
  by code_simp

lemma allowed_others [simp]:
  "server_allowed (Ev_Message failed w msg) s" "server_allowed (Ev_Disconnect failed w) s"
  by (cases s; simp)+

lemma example_allowed:
  "all_allowed (server_step rev) server_allowed example_events (started ''h'' m d o')"
  by (simp add: example_events_def started_def server_Run_def new_server_def id_ok_def newLine_def)

lemma server_announces_first_witness:
  "maps_agree (fst (started ''h'' True True True) :: nat stomp_server) \<and>
   Client_Connected StompServerError.kOk ''i'' \<in> set (take 2 example_trace)"
proof -
  have "mset (rev hs) = mset hs" for hs :: Headers by simp
  note p = server_announces_first [OF this example_allowed example_run]
  have "2 < length example_trace" "tells_about (example_trace ! 2) = Some ''i''"
    by (simp_all add: example_trace_def)
  with p show ?thesis by blast
qed

section \<open>Frames the server sends\<close>

lemma server_error_ok: "nullChar \<notin> set (server_error_to_string e)"
  by (cases e) (simp_all add: server_error_to_string_def gStompServerErrorStrings_def nullChar_def)

definition error_frame_of :: "StompServerError \<Rightarrow> string \<Rightarrow> bool" where
  "error_frame_of e text \<longleftrightarrow>
     (\<exists>f. StompFrame_parse text = (Returns StompError.kOk, f) \<and> GetCommand f = StompCommand.kError \<and>
        GetBody f = server_error_to_string e)"

context header_layout
begin

lemma MakeErrorFrame_result:
  "\<exists>f. MakeErrorFrame ord e = (Returns StompError.kOk, f) \<and> error_frame_of e (frame_ToString f)"
  by (rule make_valid [where c = StompCommand.kError and body = "server_error_to_string e" and
        hs = "[(kContentType, ''text/plain''), (StompHeader.kVersion, kVersion)]"])
    (auto simp: umap_ok_def length_ok_def header_values server_error_ok kVersion_def MakeErrorFrame_def
      error_frame_of_def)

lemma CloseConnection_error:
  assumes "error \<noteq> StompServerError.kUndefinedError"
  shows "\<exists>text. CloseConnection ord i w error onClose st =
      (Returns (), drop_session i w st, [Ws_Send w text None, Ws_Close w onClose]) \<and>
    error_frame_of StompServerError.kUnsupportedFrame text"
proof -
  obtain f where "MakeErrorFrame ord StompServerError.kUnsupportedFrame = (Returns StompError.kOk, f)"
    "error_frame_of StompServerError.kUnsupportedFrame (frame_ToString f)"
    using MakeErrorFrame_result by blast
  then show ?thesis using assms by (auto simp: CloseConnection_def drop_session_def Let_def)
qed

lemma handshake:
  assumes m: "maps_agree st" and c: "map_of (sv_connections st) w = Some c"
    and p: "StompFrame_parse msg = (Returns StompError.kOk, frame)"
    and k: "GetCommand frame = StompCommand.kStomp"
  shows "\<exists>text.
    (if GetHeaderValue frame kAcceptVersion = ''1.2'' \<and> GetHeaderValue frame kHost = sv_host st \<and>
        cn_status c = kPending
     then OnWsSessionMessage ord False w msg st =
            (Returns (), connect_client w c st,
             Ws_Send w text None #
             (if sv_onClientConnect st then [Client_Connected StompServerError.kOk (cn_id c)] else [])) \<and>
          (\<exists>f. StompFrame_parse text = (Returns StompError.kOk, f) \<and>
             GetCommand f = StompCommand.kConnected \<and> GetHeaderValue f kSession = cn_id c)
     else OnWsSessionMessage ord False w msg st =
            (Returns (), drop_session (cn_id c) w st, [Ws_Send w text None, Ws_Close w None]) \<and>
          error_frame_of StompServerError.kUnsupportedFrame text)"
proof -
  obtain res st' acts where op: "HandleStomp ord w c frame st = (res, st', acts)" by (metis prod_cases3)
  have msg: "OnWsSessionMessage ord False w msg st = (res, st', acts)"
    using c p k op by (simp add: OnWsSessionMessage_def)
  show ?thesis
    using m c op
  proof (cases rule: HandleStomp_cases)
    case (closed error)
    then show ?thesis using CloseConnection_error [OF closed(1)] msg by (metis prod.inject)
  next
    case (connected f)
    then show ?thesis using msg by (intro exI [of _ "frame_ToString f"]) simp
  qed
qed

end

section \<open>Handshake, messages and protocol errors\<close>

text \<open>C19: a STOMP frame for a known session: with the server's version and host, on a connection that
  is still pending, the client is connected, answered with a CONNECTED frame that carries its
  session ID, and announced; in every other case the session leaves both maps, and the client
  gets the error frame and is closed.\<close>

theorem server_handshake:
  assumes "\<And>hs. mset (ord hs) = mset hs" and "maps_agree st"
    and "map_of (sv_connections st) w = Some c"
    and "StompFrame_parse msg = (Returns StompError.kOk, frame)"
    and "GetCommand frame = StompCommand.kStomp"
  shows "\<exists>text.
    (if GetHeaderValue frame kAcceptVersion = ''1.2'' \<and> GetHeaderValue frame kHost = sv_host st \<and>
        cn_status c = kPending
     then OnWsSessionMessage ord False w msg st =
            (Returns (), connect_client w c st,
             Ws_Send w text None #
             (if sv_onClientConnect st then [Client_Connected StompServerError.kOk (cn_id c)] else [])) \<and>
          (\<exists>f. StompFrame_parse text = (Returns StompError.kOk, f) \<and>
             GetCommand f = StompCommand.kConnected \<and> GetHeaderValue f kSession = cn_id c)
     else OnWsSessionMessage ord False w msg st =
            (Returns (), drop_session (cn_id c) w st, [Ws_Send w text None, Ws_Close w None]) \<and>
          error_frame_of StompServerError.kUnsupportedFrame text)"
proof -
  have "header_layout ord" by unfold_locales (rule assms(1))
  then show ?thesis using assms(2-5) by (rule header_layout.handshake)
qed

definition example_pending :: "nat stomp_server" where
  "example_pending = fst (server_step rev (Ev_Connect False 0 ''i'') (started ''h'' True True True))"

definition example_connected :: "nat stomp_server" where
  "example_connected = connect_client 0 \<lparr>cn_id = ''i'', cn_status = kPending\<rparr> example_pending"

lemma example_pending_agree: "maps_agree example_pending"
  by (simp add: maps_agree_def example_pending_def started_def server_Run_def new_server_def
      OnWsSessionConnect_def umap_ok_def id_ok_def newLine_def)

lemma example_connections:
  "map_of (sv_connections example_pending) 0 = Some \<lparr>cn_id = ''i'', cn_status = kPending\<rparr>"
  "map_of (sv_connections example_connected) 0 = Some \<lparr>cn_id = ''i'', cn_status = kConnected\<rparr>"
  "map_of (sv_sessions example_connected) ''i'' = Some 0"
  by (simp_all add: example_connected_def example_pending_def started_def server_Run_def new_server_def
      OnWsSessionConnect_def)

lemma example_stomp_parse:
  "StompFrame_parse example_stomp = (Returns StompError.kOk, snd (StompFrame_parse example_stomp))"
  "GetCommand (snd (StompFrame_parse example_stomp)) = StompCommand.kStomp"
  "GetHeaderValue (snd (StompFrame_parse example_stomp)) kAcceptVersion = ''1.2''"
  "GetHeaderValue (snd (StompFrame_parse example_stomp)) kHost = ''h''"
  "sv_host example_pending = ''h''" "sv_onClientConnect example_pending"
  by code_simp+

lemma rev_order: "mset (rev hs) = mset (hs :: Headers)"
  by simp

lemma server_handshake_witness:
  "\<exists>reply. OnWsSessionMessage rev False 0 example_stomp example_pending =
     (Returns (), example_connected,
      [Ws_Send 0 reply None, Client_Connected StompServerError.kOk ''i''])"
  using server_handshake [OF rev_order example_pending_agree example_connections(1) example_stomp_parse(1,2)]
  unfolding example_stomp_parse(3-5) Connection.simps example_connected_def
  by (auto simp: example_stomp_parse(6))

text \<open>A message to a connected client reaches it as written: \<^verbatim>\<open>Send\<close> returns the request ID, and
  what the client's parser reads from the text sent is a SEND frame with the destination, the
  request ID and the content, whatever octets the content has.\<close>

theorem server_Send_delivers:
  assumes "\<And>hs. mset (ord hs) = mset hs"
    and "map_of (sv_sessions st) cid = Some w" and "map_of (sv_connections st) w = Some c"
    and "cn_status c = kConnected" and "id_ok rid" and "id_ok destination"
    and "length content < 2 ^ 64"
  shows "\<exists>text f. server_Send ord newId cid destination content onSend rid st =
      (Returns rid, [Ws_Send w text (if onSend then Some rid else None)]) \<and>
    StompFrame_parse text = (Returns StompError.kOk, f) \<and> GetCommand f = StompCommand.kSend \<and>
    GetHeaderValue f kDestination = destination \<and> GetHeaderValue f kId = rid \<and> GetBody f = content"
proof -
  have "header_layout ord" by unfold_locales (rule assms(1))
  from header_layout.send_frame [OF this assms(5-7)] obtain f where
    "StompFrame_make StompCommand.kSend
      (ord [(kId, rid), (kDestination, destination), (kContentType, ''application/json''),
            (kContentLength, to_dec (length content))]) content = (Returns StompError.kOk, f)"
    "StompFrame_parse (frame_ToString f) = (Returns StompError.kOk, f)"
    "GetCommand f = StompCommand.kSend" "GetHeaderValue f kDestination = destination"
    "GetHeaderValue f kId = rid" "GetBody f = content" by blast
  moreover have "rid \<noteq> []" using assms(5) by (simp add: id_ok_def)
  ultimately show ?thesis
    using assms(2-4) by (intro exI [of _ "frame_ToString f"] exI [of _ f]) (simp add: server_Send_def Let_def)
qed

lemma server_Send_delivers_witness:
  "\<exists>reply f. server_Send rev '''' ''i'' ''/d'' [CHR 0x00] True ''7'' example_connected =
     (Returns ''7'', [Ws_Send 0 reply (Some ''7'')]) \<and>
   StompFrame_parse reply = (Returns StompError.kOk, f) \<and> GetBody f = [CHR 0x00]"
proof -
  have "cn_status \<lparr>cn_id = ''i'', cn_status = kConnected\<rparr> = kConnected" by simp
  moreover have "id_ok ''7''" "id_ok ''/d''" by (simp_all add: id_ok_def newLine_def)
  moreover have "length [CHR 0x00] < (2::nat) ^ 64" by simp
  ultimately have "\<exists>text f. server_Send rev '''' ''i'' ''/d'' [CHR 0x00] True ''7'' example_connected =
      (Returns ''7'', [Ws_Send 0 text (if True then Some ''7'' else None)]) \<and>
    StompFrame_parse text = (Returns StompError.kOk, f) \<and> GetCommand f = StompCommand.kSend \<and>
    GetHeaderValue f kDestination = ''/d'' \<and> GetHeaderValue f kId = ''7'' \<and> GetBody f = [CHR 0x00]"
    by (rule server_Send_delivers [OF rev_order example_connections(3,2)])
  then show ?thesis unfolding if_True by blast
qed

text \<open>C34: a connected client that sends text the parser rejects is disconnected by the server, and
  the user is not told: neither then nor when the WebSocket session ends. The error frame the client
  gets says that the frame was not supported.\<close>

theorem protocol_error_unreported:
  assumes "\<And>hs. mset (ord hs) = mset hs" and "map_of (sv_connections st) w = Some c"
    and "StompFrame_parse msg = (Returns e, frame)" and "e \<noteq> StompError.kOk"
  shows "\<exists>text st'. OnWsSessionMessage ord False w msg st =
      (Returns (), st', [Ws_Send w text None, Ws_Close w None]) \<and>
    error_frame_of StompServerError.kUnsupportedFrame text \<and>
    (\<forall>failed. OnWsSessionDisconnect failed w st' = (st', []))"
proof -
  have l: "header_layout ord" by unfold_locales (rule assms(1))
  have "OnWsSessionMessage ord False w msg st =
      CloseConnection ord (cn_id c) w kCouldNotParseFrame None st"
    using assms(2-4) by (simp add: OnWsSessionMessage_def)
  moreover have "\<exists>reply. CloseConnection ord (cn_id c) w kCouldNotParseFrame None st =
      (Returns (), drop_session (cn_id c) w st, [Ws_Send w reply None, Ws_Close w None]) \<and>
    error_frame_of StompServerError.kUnsupportedFrame reply"
    by (rule header_layout.CloseConnection_error [OF l]) simp
  moreover have "OnWsSessionDisconnect failed w (drop_session (cn_id c) w st) =
      (drop_session (cn_id c) w st, [])" for failed
    by (simp add: OnWsSessionDisconnect_def drop_session_def delete_conv')
  ultimately show ?thesis by metis
qed

lemma protocol_error_unreported_witness:
  "\<exists>reply st'. OnWsSessionMessage rev False 0 ''hello'' example_connected =
     (Returns (), st', [Ws_Send 0 reply None, Ws_Close 0 None]) \<and>
   OnWsSessionDisconnect False 0 st' = (st', [])"
proof -
  have p: "StompFrame_parse ''hello'' =
      (Returns kParsingMissingEolAfterCommand, snd (StompFrame_parse ''hello''))"
    by code_simp
  have "kParsingMissingEolAfterCommand \<noteq> StompError.kOk" by simp
  from protocol_error_unreported [OF rev_order example_connections(2) p this] show ?thesis by blast
qed

end
