(* ===== verification/Stomp_Client.thy ===== *)
theory Stomp_Client
  imports Stomp_Messages
begin

text \<open>
  The STOMP client, \<^verbatim>\<open>inc/network-monitor/stomp-client.h\<close>: its subscriptions, and one definition
  per operation and per handler of the WebSocket client's callbacks. The WebSocket client is
  outside: what is asked of it, and the user callbacks that are posted, are actions, in order. A
  send carries the completion handler it was given, whose call is an operation of its own.
\<close>

section \<open>State\<close>

datatype StompClientError =
    kOk
  | kUndefinedError
  | kCouldNotCloseWebSocketConnection
  | kCouldNotConnectToWebSocketServer
  | kCouldNotParseMessageAsStompFrame
  | kCouldNotSendMessage
  | kCouldNotSendStompFrame
  | kCouldNotSendSubscribeFrame
  | kUnexpectedCouldNotCreateValidFrame
  | kUnexpectedMessageContentType
  | kUnexpectedSubscriptionMismatch
  | kWebSocketServerDisconnected

definition gStompClientErrorStrings :: "(StompClientError \<times> string) list" where
  "gStompClientErrorStrings =
     [(StompClientError.kOk, ''Ok''),
      (StompClientError.kUndefinedError, ''UndefinedError''),
      (kCouldNotCloseWebSocketConnection, ''CouldNotCloseWebSocketConnection''),
      (kCouldNotConnectToWebSocketServer, ''CouldNotConnectToWebSocketServer''),
      (kCouldNotParseMessageAsStompFrame, ''CouldNotParseMessageAsStompFrame''),
      (StompClientError.kCouldNotSendMessage, ''CouldNotSendMessage''),
      (kCouldNotSendStompFrame, ''CouldNotSendStompFrame''),
      (kCouldNotSendSubscribeFrame, ''CouldNotSendSubscribeFrame''),
      (kUnexpectedCouldNotCreateValidFrame, ''UnexpectedCouldNotCreateValidFrame''),
      (kUnexpectedMessageContentType, ''UnexpectedMessageContentType''),
      (kUnexpectedSubscriptionMismatch, ''UnexpectedSubscriptionMismatch''),
      (kWebSocketServerDisconnected, ''WebSocketServerDisconnected'')]"

definition client_error_to_string :: "StompClientError \<Rightarrow> string" where
  "client_error_to_string e =
     (case map_of gStompClientErrorStrings e of None \<Rightarrow> ''UndefinedError'' | Some s \<Rightarrow> s)"

text \<open>A handler is there or not; the handlers of a subscription are called by its ID.\<close>

record Subscription =
  sub_destination :: string
  sub_onSubscribe :: bool
  sub_onMessage :: bool

record stomp_client =
  cl_url :: string
  cl_username :: string
  cl_password :: string
  cl_onConnect :: bool
  cl_onMessage :: bool
  cl_onDisconnect :: bool
  cl_subscriptions :: "(string, Subscription) umap"

text \<open>The completion handler of a send.\<close>

datatype on_sent =
    Sent_Stomp
  | Sent_Subscribe string Subscription
  | Sent_Message string
  | Sent_Nothing

datatype client_action =
    Wc_Connect
  | Wc_Send string on_sent
  | Wc_Close bool
  | On_Connect StompClientError
  | On_Message StompClientError string string
  | On_Disconnect StompClientError
  | On_Subscribed string StompClientError string
  | On_Subscription_Message string StompClientError string
  | On_Closed StompClientError
  | On_Sent StompClientError string

definition new_client :: "string \<Rightarrow> stomp_client" where
  "new_client url =
     \<lparr>cl_url = url, cl_username = [], cl_password = [], cl_onConnect = False, cl_onMessage = False,
      cl_onDisconnect = False, cl_subscriptions = []\<rparr>"

section \<open>Operations\<close>

definition client_Connect ::
  "string \<Rightarrow> string \<Rightarrow> bool \<Rightarrow> bool \<Rightarrow> bool \<Rightarrow> stomp_client \<Rightarrow> stomp_client \<times> client_action list" where
  "client_Connect username password onConnect onMessage onDisconnect cl =
     (cl\<lparr>cl_username := username, cl_password := password, cl_onConnect := onConnect,
         cl_onMessage := onMessage, cl_onDisconnect := onDisconnect\<rparr>, [Wc_Connect])"

definition client_Close :: "bool \<Rightarrow> stomp_client \<Rightarrow> stomp_client \<times> client_action list" where
  "client_Close onClose cl = (cl\<lparr>cl_subscriptions := []\<rparr>, [Wc_Close onClose])"

text \<open>\<^verbatim>\<open>Subscribe\<close> and \<^verbatim>\<open>Send\<close>; \<open>newId\<close> is the ID generated. The client is not changed.\<close>

definition client_Subscribe ::
  "header_order \<Rightarrow> string \<Rightarrow> string \<Rightarrow> bool \<Rightarrow> bool \<Rightarrow> string outcome \<times> client_action list" where
  "client_Subscribe ord newId destination onSubscribe onMessage =
     (let subscription = \<lparr>sub_destination = destination, sub_onSubscribe = onSubscribe,
                          sub_onMessage = onMessage\<rparr>
      in case StompFrame_make StompCommand.kSubscribe
                (ord [(kId, newId), (kDestination, destination), (StompHeader.kAck, ''auto''),
                      (StompHeader.kReceipt, newId)]) '''' of
           (Returns error, frame) \<Rightarrow>
             if error \<noteq> StompError.kOk then (Returns '''', [])
             else (Returns newId, [Wc_Send (frame_ToString frame) (Sent_Subscribe newId subscription)])
         | (Fault x, _) \<Rightarrow> (Fault x, [])
         | (Diverges, _) \<Rightarrow> (Diverges, []))"

definition client_Send ::
  "header_order \<Rightarrow> string \<Rightarrow> string \<Rightarrow> string \<Rightarrow> bool \<Rightarrow> string outcome \<times> client_action list" where
  "client_Send ord newId destination messageContent onSend =
     (case StompFrame_make StompCommand.kSend
             (ord [(kId, newId), (kDestination, destination), (kContentType, ''application/json''),
                   (kContentLength, to_dec (length messageContent))]) messageContent of
        (Returns error, frame) \<Rightarrow>
          if error \<noteq> StompError.kOk then (Returns '''', [])
          else (Returns newId, [Wc_Send (frame_ToString frame)
                                  (if onSend then Sent_Message newId else Sent_Nothing)])
      | (Fault x, _) \<Rightarrow> (Fault x, [])
      | (Diverges, _) \<Rightarrow> (Diverges, []))"

section \<open>Handlers\<close>

text \<open>A callback that is posted only if the user has given it.\<close>

definition notify :: "bool \<Rightarrow> client_action \<Rightarrow> client_action list" where
  "notify there a = (if there then [a] else [])"

definition client_OnWsConnect ::
  "header_order \<Rightarrow> bool \<Rightarrow> stomp_client \<Rightarrow> unit outcome \<times> client_action list" where
  "client_OnWsConnect ord failed cl =
     (if failed then (Returns (), notify (cl_onConnect cl) (On_Connect kCouldNotConnectToWebSocketServer))
      else
        (case StompFrame_make StompCommand.kStomp
                (ord [(kAcceptVersion, ''1.2''), (kHost, cl_url cl), (kLogin, cl_username cl),
                      (kPasscode, cl_password cl)]) '''' of
           (Returns error, frame) \<Rightarrow>
             if error \<noteq> StompError.kOk
             then (Returns (), notify (cl_onConnect cl) (On_Connect kUnexpectedCouldNotCreateValidFrame))
             else (Returns (), [Wc_Send (frame_ToString frame) Sent_Stomp])
         | (Fault x, _) \<Rightarrow> (Fault x, [])
         | (Diverges, _) \<Rightarrow> (Diverges, [])))"

definition OnWsSendStomp :: "bool \<Rightarrow> stomp_client \<Rightarrow> client_action list" where
  "OnWsSendStomp failed cl =
     (if failed then notify (cl_onConnect cl) (On_Connect kCouldNotSendStompFrame) else [])"

definition OnWsSendSubscribe ::
  "bool \<Rightarrow> string \<Rightarrow> Subscription \<Rightarrow> stomp_client \<Rightarrow> stomp_client \<times> client_action list" where
  "OnWsSendSubscribe failed subscriptionId subscription cl =
     (if \<not> failed
      then (cl\<lparr>cl_subscriptions := umap_emplace subscriptionId subscription (cl_subscriptions cl)\<rparr>, [])
      else (cl, notify (sub_onSubscribe subscription)
                  (On_Subscribed subscriptionId kCouldNotSendSubscribeFrame '''')))"

definition client_OnSend :: "bool \<Rightarrow> string \<Rightarrow> client_action list" where
  "client_OnSend failed requestId =
     [On_Sent (if failed then StompClientError.kCouldNotSendMessage else StompClientError.kOk) requestId]"

definition HandleConnected :: "StompFrame \<Rightarrow> stomp_client \<Rightarrow> client_action list" where
  "HandleConnected frame cl = notify (cl_onConnect cl) (On_Connect StompClientError.kOk)"

definition HandleError :: "StompFrame \<Rightarrow> stomp_client \<Rightarrow> client_action list" where
  "HandleError frame cl = []"

definition HandleSubscriptionMessage :: "StompFrame \<Rightarrow> stomp_client \<Rightarrow> client_action list" where
  "HandleSubscriptionMessage frame cl =
     (let subscriptionId = GetHeaderValue frame kSubscription
      in case map_of (cl_subscriptions cl) subscriptionId of
           None \<Rightarrow> []
         | Some subscription \<Rightarrow>
             if GetHeaderValue frame kDestination \<noteq> sub_destination subscription
             then notify (sub_onMessage subscription)
                    (On_Subscription_Message subscriptionId kUnexpectedSubscriptionMismatch '''')
             else notify (sub_onMessage subscription)
                    (On_Subscription_Message subscriptionId StompClientError.kOk (GetBody frame)))"

definition HandleSubscriptionReceipt :: "StompFrame \<Rightarrow> stomp_client \<Rightarrow> client_action list" where
  "HandleSubscriptionReceipt frame cl =
     (let subscriptionId = GetHeaderValue frame kReceiptId
      in case map_of (cl_subscriptions cl) subscriptionId of
           None \<Rightarrow> []
         | Some subscription \<Rightarrow>
             notify (sub_onSubscribe subscription)
               (On_Subscribed subscriptionId StompClientError.kOk subscriptionId))"

definition HandleMessage :: "StompFrame \<Rightarrow> stomp_client \<Rightarrow> client_action list" where
  "HandleMessage frame cl =
     notify (cl_onMessage cl)
       (On_Message StompClientError.kOk (GetHeaderValue frame kDestination) (GetBody frame))"

text \<open>The error code of the WebSocket layer is not looked at.\<close>

definition client_OnWsMessage ::
  "bool \<Rightarrow> string \<Rightarrow> stomp_client \<Rightarrow> unit outcome \<times> client_action list" where
  "client_OnWsMessage failed msg cl =
     (case StompFrame_parse msg of
        (Returns error, frame) \<Rightarrow>
          if error \<noteq> StompError.kOk
          then (Returns (), notify (cl_onConnect cl) (On_Connect kCouldNotParseMessageAsStompFrame))
          else
            (Returns (),
             (case GetCommand frame of
                StompCommand.kConnected \<Rightarrow> HandleConnected frame cl
              | StompCommand.kError \<Rightarrow> HandleError frame cl
              | StompCommand.kMessage \<Rightarrow> HandleSubscriptionMessage frame cl
              | StompCommand.kReceipt \<Rightarrow> HandleSubscriptionReceipt frame cl
              | StompCommand.kSend \<Rightarrow> HandleMessage frame cl
              | _ \<Rightarrow> []))
      | (Fault x, _) \<Rightarrow> (Fault x, [])
      | (Diverges, _) \<Rightarrow> (Diverges, []))"

definition client_OnWsDisconnect :: "bool \<Rightarrow> stomp_client \<Rightarrow> client_action list" where
  "client_OnWsDisconnect failed cl =
     notify (cl_onDisconnect cl)
       (On_Disconnect (if failed then StompClientError.kWebSocketServerDisconnected else StompClientError.kOk))"

definition OnWsClose :: "bool \<Rightarrow> bool \<Rightarrow> client_action list" where
  "OnWsClose failed onClose =
     notify onClose
       (On_Closed (if failed then kCouldNotCloseWebSocketConnection else StompClientError.kOk))"

section \<open>The client as a state machine\<close>

datatype client_event =
    Cl_Connect string string bool bool bool
  | Cl_Close bool
  | Cl_Subscribe string string bool bool
  | Cl_Send string string string bool
  | Cl_WsConnected bool
  | Cl_Sent bool on_sent
  | Cl_WsMessage bool string
  | Cl_WsDisconnected bool
  | Cl_WsClosed bool bool

text \<open>The completion handler of a send, called with the result of the write.\<close>

fun complete_send :: "bool \<Rightarrow> on_sent \<Rightarrow> stomp_client \<Rightarrow> stomp_client \<times> client_action list" where
  "complete_send failed Sent_Stomp cl = (cl, OnWsSendStomp failed cl)"
| "complete_send failed (Sent_Subscribe i sub) cl = OnWsSendSubscribe failed i sub cl"
| "complete_send failed (Sent_Message i) cl = (cl, client_OnSend failed i)"
| "complete_send failed Sent_Nothing cl = (cl, [])"

fun client_effect ::
  "header_order \<Rightarrow> client_event \<Rightarrow> stomp_client \<Rightarrow> stomp_client \<times> client_action list" where
  "client_effect ord (Cl_Connect u p c m d) cl = client_Connect u p c m d cl"
| "client_effect ord (Cl_Close h) cl = client_Close h cl"
| "client_effect ord (Cl_Subscribe i dest s m) cl = (cl, snd (client_Subscribe ord i dest s m))"
| "client_effect ord (Cl_Send i dest content h) cl = (cl, snd (client_Send ord i dest content h))"
| "client_effect ord (Cl_WsConnected failed) cl = (cl, snd (client_OnWsConnect ord failed cl))"
| "client_effect ord (Cl_Sent failed h) cl = complete_send failed h cl"
| "client_effect ord (Cl_WsMessage failed msg) cl = (cl, snd (client_OnWsMessage failed msg cl))"
| "client_effect ord (Cl_WsDisconnected failed) cl = (cl, client_OnWsDisconnect failed cl)"
| "client_effect ord (Cl_WsClosed failed h) cl = (cl, OnWsClose failed h)"

text \<open>Whether the handler returned.\<close>

fun client_result :: "header_order \<Rightarrow> client_event \<Rightarrow> stomp_client \<Rightarrow> unit outcome" where
  "client_result ord (Cl_WsConnected failed) cl = fst (client_OnWsConnect ord failed cl)"
| "client_result ord (Cl_WsMessage failed msg) cl = fst (client_OnWsMessage failed msg cl)"
| "client_result ord _ cl = Returns ()"

text \<open>The actions that are callbacks posted on the client's strand.\<close>

fun client_post :: "client_action \<Rightarrow> bool" where
  "client_post (On_Connect e) = True"
| "client_post (On_Message e d m) = True"
| "client_post (On_Disconnect e) = True"
| "client_post (On_Subscribed i e x) = True"
| "client_post (On_Subscription_Message i e m) = True"
| "client_post (On_Closed e) = True"
| "client_post _ = False"

definition client_step ::
  "header_order \<Rightarrow> client_event \<Rightarrow> stomp_client \<times> client_action list \<Rightarrow>
   stomp_client \<times> client_action list" where
  "client_step ord e s =
     (let (cl', acts) = client_effect ord e (fst s) in (cl', snd s @ acts))"

text \<open>
  What the environment guarantees: a completion handler is called for a send that was made, and an
  ID and a destination can be the value of a header.
\<close>

fun sent_with :: "on_sent \<Rightarrow> client_action \<Rightarrow> bool" where
  "sent_with h (Wc_Send msg h') \<longleftrightarrow> h' = h"
| "sent_with h _ \<longleftrightarrow> False"

lemma sent_with_iff: "sent_with h a \<longleftrightarrow> (\<exists>msg. a = Wc_Send msg h)"
  by (cases a) auto

fun client_allowed :: "client_event \<Rightarrow> stomp_client \<times> client_action list \<Rightarrow> bool" where
  "client_allowed (Cl_Sent failed h) s \<longleftrightarrow>
     list_ex (sent_with h) (snd s)"
| "client_allowed (Cl_Subscribe i dest onSubscribe onMessage) s \<longleftrightarrow> id_ok i \<and> newLine \<notin> set dest"
| "client_allowed _ s \<longleftrightarrow> True"

end
