(* ===== verification/Stomp_Client_Laws.thy ===== *)
theory Stomp_Client_Laws
  imports Stomp_Client
begin

text \<open>
  The STOMP client's promises: the frames it sends are what the protocol asks, the user of a
  subscription only hears of a subscription that was requested, and what each frame of the server
  does.
\<close>

section \<open>The frames of the client\<close>

definition subscribe_frame :: "string \<Rightarrow> string \<Rightarrow> StompFrame \<Rightarrow> bool" where
  "subscribe_frame i dest f \<longleftrightarrow>
     GetCommand f = StompCommand.kSubscribe \<and> GetHeaderValue f kId = i \<and>
     GetHeaderValue f kDestination = dest \<and> GetHeaderValue f StompHeader.kReceipt = i"

definition login_frame :: "stomp_client \<Rightarrow> StompFrame \<Rightarrow> bool" where
  "login_frame cl f \<longleftrightarrow>
     GetCommand f = StompCommand.kStomp \<and> GetHeaderValue f kAcceptVersion = ''1.2'' \<and>
     GetHeaderValue f kHost = cl_url cl \<and> GetHeaderValue f kLogin = cl_username cl \<and>
     GetHeaderValue f kPasscode = cl_password cl"

context header_layout
begin

lemma client_Subscribe_frame:
  assumes "id_ok i" and "id_ok dest"
  shows "\<exists>f. client_Subscribe ord i dest onSubscribe onMessage =
      (Returns i, [Wc_Send (frame_ToString f) (Sent_Subscribe i
         \<lparr>sub_destination = dest, sub_onSubscribe = onSubscribe, sub_onMessage = onMessage\<rparr>)]) \<and>
    StompFrame_parse (frame_ToString f) = (Returns StompError.kOk, f) \<and> subscribe_frame i dest f"
  by (rule make_valid [where c = StompCommand.kSubscribe and body = "[]" and
        hs = "[(kId, i), (kDestination, dest), (StompHeader.kAck, ''auto''), (StompHeader.kReceipt, i)]"])
    (fastforce simp: umap_ok_def length_ok_def assms header_values client_Subscribe_def subscribe_frame_def)+

lemma client_login_frame:
  assumes "id_ok (cl_url cl)" and "id_ok (cl_username cl)" and "id_ok (cl_password cl)"
  shows "\<exists>f. client_OnWsConnect ord False cl = (Returns (), [Wc_Send (frame_ToString f) Sent_Stomp]) \<and>
    StompFrame_parse (frame_ToString f) = (Returns StompError.kOk, f) \<and> login_frame cl f"
  by (rule make_valid [where c = StompCommand.kStomp and body = "[]" and
        hs = "[(kAcceptVersion, ''1.2''), (kHost, cl_url cl), (kLogin, cl_username cl),
          (kPasscode, cl_password cl)]"])
    (fastforce simp: umap_ok_def length_ok_def assms header_values client_OnWsConnect_def login_frame_def)+

lemma client_Send_frame:
  assumes "id_ok i" and "id_ok dest" and "length content < 2 ^ 64"
  shows "\<exists>f. client_Send ord i dest content onSend =
      (Returns i, [Wc_Send (frame_ToString f) (if onSend then Sent_Message i else Sent_Nothing)]) \<and>
    StompFrame_parse (frame_ToString f) = (Returns StompError.kOk, f) \<and>
    GetCommand f = StompCommand.kSend \<and> GetHeaderValue f kDestination = dest \<and>
    GetHeaderValue f kId = i \<and> GetBody f = content"
proof -
  obtain f where mk: "StompFrame_make StompCommand.kSend
      (ord [(kId, i), (kDestination, dest), (kContentType, ''application/json''),
            (kContentLength, to_dec (length content))]) content = (Returns StompError.kOk, f)"
    and f: "StompFrame_parse (frame_ToString f) = (Returns StompError.kOk, f)"
      "GetCommand f = StompCommand.kSend" "GetHeaderValue f kDestination = dest"
      "GetHeaderValue f kId = i" "GetBody f = content"
    using send_frame [OF assms] by blast
  show ?thesis
    by (intro exI [of _ f]) (use mk f in \<open>simp add: client_Send_def\<close>)
qed

end

section \<open>The invariant\<close>

text \<open>
  The requests for a subscription that were sent, and what an action tells the user of a
  subscription: the handler it calls.
\<close>

definition requested :: "string \<Rightarrow> Subscription \<Rightarrow> client_action list \<Rightarrow> bool" where
  "requested i s tr \<longleftrightarrow>
     (\<exists>msg f. Wc_Send msg (Sent_Subscribe i s) \<in> set tr \<and>
        StompFrame_parse msg = (Returns StompError.kOk, f) \<and> subscribe_frame i (sub_destination s) f)"

fun hears :: "client_action \<Rightarrow> (string \<times> (Subscription \<Rightarrow> bool)) option" where
  "hears (On_Subscribed i e j) = Some (i, sub_onSubscribe)"
| "hears (On_Subscription_Message i e m) = Some (i, sub_onMessage)"
| "hears _ = None"

fun sends_subscribe :: "client_action \<Rightarrow> bool" where
  "sends_subscribe (Wc_Send msg (Sent_Subscribe i s)) = True"
| "sends_subscribe _ = False"

definition heard_ok :: "client_action list \<Rightarrow> bool" where
  "heard_ok = each_after (\<lambda>a tr. \<forall>i h. hears a = Some (i, h) \<longrightarrow> (\<exists>s. requested i s tr \<and> h s))"

definition client_inv :: "stomp_client \<times> client_action list \<Rightarrow> bool" where
  "client_inv s \<longleftrightarrow>
     umap_ok (cl_subscriptions (fst s)) \<and> heard_ok (snd s) \<and>
     (\<forall>i sub. map_of (cl_subscriptions (fst s)) i = Some sub \<longrightarrow> requested i sub (snd s)) \<and>
     (\<forall>msg i sub. Wc_Send msg (Sent_Subscribe i sub) \<in> set (snd s) \<longrightarrow> requested i sub (snd s))"

lemma requested_append [simp]: "requested i s tr \<Longrightarrow> requested i s (tr @ acts)"
  by (auto simp: requested_def)

lemma heard_ok_append:
  assumes "heard_ok tr"
    and "\<And>a i h. a \<in> set acts \<Longrightarrow> hears a = Some (i, h) \<Longrightarrow> \<exists>s. requested i s tr \<and> h s"
  shows "heard_ok (tr @ acts)"
  using assms unfolding heard_ok_def by (intro each_after_append) (blast, blast, metis requested_append)

text \<open>
  An operation keeps the invariant if its subscriptions were there or requested, what it tells was
  requested, and what it requests is a SUBSCRIBE frame.
\<close>

lemma client_inv_step:
  assumes inv: "client_inv (cl, tr)" and u: "umap_ok (cl_subscriptions cl')"
    and subs: "\<And>i s. map_of (cl_subscriptions cl') i = Some s \<Longrightarrow>
      map_of (cl_subscriptions cl) i = Some s \<or> requested i s tr"
    and tells: "\<And>a i h. a \<in> set acts \<Longrightarrow> hears a = Some (i, h) \<Longrightarrow> \<exists>s. requested i s tr \<and> h s"
    and req: "\<And>msg i s. Wc_Send msg (Sent_Subscribe i s) \<in> set acts \<Longrightarrow> requested i s acts"
  shows "client_inv (cl', tr @ acts)"
proof -
  have "heard_ok (tr @ acts)" using inv tells by (intro heard_ok_append) (auto simp: client_inv_def)
  moreover have "requested i s (tr @ acts)" if "Wc_Send msg (Sent_Subscribe i s) \<in> set (tr @ acts)" for msg i s
    using that inv req by (fastforce simp: client_inv_def requested_def)
  moreover have "requested i s (tr @ acts)" if "map_of (cl_subscriptions cl') i = Some s" for i s
    using subs [OF that] inv by (auto simp: client_inv_def)
  ultimately show ?thesis using u by (simp add: client_inv_def)
qed

lemma quiet_acts_inv:
  assumes "client_inv (cl, tr)" and "cl_subscriptions cl' = cl_subscriptions cl"
    and "\<And>a. a \<in> set acts \<Longrightarrow> hears a = None \<and> \<not> sends_subscribe a"
  shows "client_inv (cl', tr @ acts)"
  using assms by (intro client_inv_step) (fastforce simp: client_inv_def)+

lemma OnWsMessage_hears:
  assumes inv: "client_inv (cl, tr)" and a: "a \<in> set (snd (client_OnWsMessage failed msg cl))"
  shows "\<not> sends_subscribe a \<and> (hears a = Some (i, h) \<longrightarrow> (\<exists>s. requested i s tr \<and> h s))"
proof -
  have r: "requested i s tr" if "map_of (cl_subscriptions cl) i = Some s" for i s
    using inv that by (simp add: client_inv_def)
  show ?thesis
    using a
    by (auto dest!: r [OF sym] simp: client_OnWsMessage_def notify_def HandleConnected_def HandleError_def
        HandleSubscriptionMessage_def HandleSubscriptionReceipt_def HandleMessage_def Let_def
        split: prod.splits outcome.splits StompCommand.splits option.splits if_splits)
qed

lemma client_Subscribe_acts:
  assumes ord: "header_layout ord" and i: "id_ok i" and dest: "newLine \<notin> set dest"
  shows "snd (client_Subscribe ord i dest s m) = [] \<or>
    (\<exists>msg sub. snd (client_Subscribe ord i dest s m) = [Wc_Send msg (Sent_Subscribe i sub)] \<and>
       requested i sub (snd (client_Subscribe ord i dest s m)))"
proof (cases "dest = []")
  case True
  let ?hs = "ord [(kId, i), (kDestination, []), (StompHeader.kAck, ''auto''), (StompHeader.kReceipt, i)]"
  have set: "set ?hs = {(kId, i), (kDestination, []), (StompHeader.kAck, ''auto''), (StompHeader.kReceipt, i)}"
    by (simp add: header_layout.ord_set [OF ord])
  have "fst (StompFrame_make StompCommand.kSubscribe ?hs []) = Returns kParsingEmptyHeaderValue"
  proof (rule make_empty_value)
    show "StompHeader.kInvalid \<notin> set (map fst ?hs)" unfolding set_map set by simp
    show "\<forall>hv \<in> set ?hs. newLine \<notin> set (snd hv)"
      unfolding set using i auto_ok by (simp add: id_ok_def)
    show "[] \<in> set (map snd ?hs)" unfolding set_map set by simp
  qed simp
  then show ?thesis
    by (auto simp: client_Subscribe_def Let_def True split: prod.splits)
next
  case False
  then show ?thesis
    using header_layout.client_Subscribe_frame [OF ord i, of dest s m] dest
    by (fastforce simp: id_ok_def requested_def)
qed

lemma client_step_inv:
  assumes ord: "header_layout ord" and inv: "client_inv s" and al: "client_allowed e s"
  shows "client_inv (client_step ord e s)"
proof -
  obtain cl tr where s: "s = (cl, tr)" by fastforce
  obtain cl' acts where eff: "client_effect ord e cl = (cl', acts)" by fastforce
  note i = inv [unfolded s]
  have "client_inv (cl', tr @ acts)"
  proof (cases e)
    case (Cl_Connect u p c m d)
    then show ?thesis using eff by (intro quiet_acts_inv [OF i]) (auto simp: client_Connect_def)
  next
    case (Cl_Close h)
    then show ?thesis
      using eff by (intro client_inv_step [OF i]) (auto simp: client_Close_def)
  next
    case (Cl_Subscribe j dest on om)
    then have e: "cl' = cl" "acts = snd (client_Subscribe ord j dest on om)" "id_ok j" "newLine \<notin> set dest"
      using eff al by auto
    have "client_inv (cl, tr @ acts)"
      using client_Subscribe_acts [OF ord e(3,4), of on om] unfolding e(2) [symmetric]
      by (intro client_inv_step [OF i]) (use i in \<open>auto simp: client_inv_def\<close>)
    then show ?thesis by (simp add: e(1))
  next
    case (Cl_Send j dest content h)
    then show ?thesis
      using eff by (intro quiet_acts_inv [OF i])
        (auto simp: client_Send_def split: prod.splits outcome.splits if_splits)
  next
    case (Cl_WsConnected failed)
    then show ?thesis
      using eff by (intro quiet_acts_inv [OF i])
        (auto simp: client_OnWsConnect_def notify_def split: prod.splits outcome.splits if_splits)
  next
    case (Cl_Sent failed h)
    then obtain msg where msg: "Wc_Send msg h \<in> set tr"
      using al by (auto simp: s list_ex_iff sent_with_iff)
    show ?thesis
    proof (cases h)
      case (Sent_Subscribe j sub)
      then have r: "requested j sub tr" using i msg by (auto simp: client_inv_def)
      show ?thesis
        using eff r i unfolding Cl_Sent Sent_Subscribe
        by (intro client_inv_step [OF i])
          (auto simp: OnWsSendSubscribe_def notify_def client_inv_def map_of_emplace split: if_splits)
    qed (use eff in \<open>intro quiet_acts_inv [OF i];
        auto simp: Cl_Sent OnWsSendStomp_def client_OnSend_def notify_def\<close>)+
  next
    case (Cl_WsMessage failed msg)
    then have e: "cl' = cl" "acts = snd (client_OnWsMessage failed msg cl)" using eff by auto
    show ?thesis
      unfolding e
      by (intro client_inv_step [OF i]) (use i OnWsMessage_hears [OF i] in \<open>fastforce simp: client_inv_def\<close>)+
  next
    case (Cl_WsDisconnected failed)
    then show ?thesis
      using eff by (intro quiet_acts_inv [OF i]) (auto simp: client_OnWsDisconnect_def notify_def)
  next
    case (Cl_WsClosed failed h)
    then show ?thesis
      using eff by (intro quiet_acts_inv [OF i]) (auto simp: OnWsClose_def notify_def split: if_splits)
  qed
  then show ?thesis using eff by (simp add: client_step_def s)
qed

section \<open>The client as an invariant machine\<close>

locale stomp_user = header_layout +
  fixes url :: string

sublocale stomp_user \<subseteq>
  machine: invariant_machine "(new_client url, [])" "client_step ord" client_allowed client_inv
  by unfold_locales
    (simp add: client_inv_def new_client_def heard_ok_def, rule client_step_inv [OF header_layout_axioms])

context stomp_user
begin

lemma heard_in_order:
  assumes "all_allowed (client_step ord) client_allowed es (new_client url, [])"
    and "run_all (client_step ord) es (new_client url, []) = (cl, tr)"
  shows "heard_ok tr"
  using machine.run_from_init [OF assms(1)] by (simp add: assms(2) client_inv_def)

end

interpretation any_url: stomp_user rev url for url
  by unfold_locales

section \<open>A client that subscribes\<close>

definition example_receipt :: string where
  "example_receipt = frame_text StompCommand.kReceipt [(kReceiptId, ''s'')] [] []"

definition example_message :: string where
  "example_message =
     frame_text StompCommand.kMessage [(kSubscription, ''s''), (kMessageId, ''1''), (kDestination, ''/t'')] ''hi'' []"

definition example_subscription :: Subscription where
  "example_subscription = \<lparr>sub_destination = ''/t'', sub_onSubscribe = True, sub_onMessage = True\<rparr>"

definition client_example :: "client_event list" where
  "client_example =
     [Cl_Connect ''u'' ''p'' True True True, Cl_WsConnected False, Cl_Subscribe ''s'' ''/t'' True True,
      Cl_Sent False (Sent_Subscribe ''s'' example_subscription), Cl_WsMessage False example_receipt,
      Cl_WsMessage False example_message]"

definition client_example_trace :: "client_action list" where
  "client_example_trace =
     [Wc_Connect,
      Wc_Send (make_plain StompCommand.kStomp
        [(kPasscode, ''p''), (kLogin, ''u''), (kHost, ''h''), (kAcceptVersion, ''1.2'')] []) Sent_Stomp,
      Wc_Send (make_plain StompCommand.kSubscribe
        [(StompHeader.kReceipt, ''s''), (StompHeader.kAck, ''auto''), (kDestination, ''/t''), (kId, ''s'')] [])
        (Sent_Subscribe ''s'' example_subscription),
      On_Subscribed ''s'' StompClientError.kOk ''s'',
      On_Subscription_Message ''s'' StompClientError.kOk ''hi'']"

definition client_example_end :: stomp_client where
  "client_example_end =
     \<lparr>cl_url = ''h'', cl_username = ''u'', cl_password = ''p'', cl_onConnect = True, cl_onMessage = True,
      cl_onDisconnect = True, cl_subscriptions = [(''s'', example_subscription)]\<rparr>"

lemma client_example_run:
  "run_all (client_step rev) client_example (new_client ''h'', []) = (client_example_end, client_example_trace)"
  by code_simp

lemma client_example_allowed:
  "all_allowed (client_step rev) client_allowed client_example (new_client ''h'', [])"
  by code_simp

lemma rev_layout: "mset (rev hs) = mset (hs :: Headers)"
  by simp

text \<open>C21: over any sequence of calls, frames and results of the WebSocket layer, whatever the server
  sends, the handlers of a subscription are only called after a SUBSCRIBE frame for this
  subscription, with its destination and a request for a receipt, was sent; and only handlers that
  the user gave.\<close>

theorem client_hears_of_requested:
  assumes "\<And>hs. mset (ord hs) = mset hs"
    and "all_allowed (client_step ord) client_allowed es (new_client url, [])"
    and "run_all (client_step ord) es (new_client url, []) = (cl, tr)"
    and "n < length tr" and "hears (tr ! n) = Some (i, given)"
  shows "\<exists>msg s f. Wc_Send msg (Sent_Subscribe i s) \<in> set (take n tr) \<and> given s \<and>
    StompFrame_parse msg = (Returns StompError.kOk, f) \<and> subscribe_frame i (sub_destination s) f"
proof -
  have "stomp_user ord" by unfold_locales (rule assms(1))
  from stomp_user.heard_in_order [OF this assms(2,3)] show ?thesis
    using assms(4,5) each_afterD by (fastforce simp: heard_ok_def requested_def)
qed

lemma client_hears_of_requested_witness:
  "\<exists>msg s f. Wc_Send msg (Sent_Subscribe ''s'' s) \<in> set (take 4 client_example_trace) \<and> sub_onMessage s \<and>
    StompFrame_parse msg = (Returns StompError.kOk, f) \<and> subscribe_frame ''s'' (sub_destination s) f"
proof -
  have "4 < length client_example_trace" "hears (client_example_trace ! 4) = Some (''s'', sub_onMessage)"
    by (simp_all add: client_example_trace_def)
  then show ?thesis
    by (rule client_hears_of_requested [OF rev_layout client_example_allowed client_example_run])
qed



text \<open>A user without a name or a password, or a client without a host, cannot log in: no STOMP
  frame is sent and the user is told that no valid frame could be made.\<close>

theorem empty_credentials:
  assumes "\<And>hs. mset (ord hs) = mset hs" and "cl_onConnect cl"
    and "[] \<in> {cl_url cl, cl_username cl, cl_password cl}"
    and "newLine \<notin> set (cl_url cl)" "newLine \<notin> set (cl_username cl)" "newLine \<notin> set (cl_password cl)"
  shows "client_OnWsConnect ord False cl = (Returns (), [On_Connect kUnexpectedCouldNotCreateValidFrame])"
proof -
  have l: "header_layout ord" by unfold_locales (rule assms(1))
  let ?hs = "ord [(kAcceptVersion, ''1.2''), (kHost, cl_url cl), (kLogin, cl_username cl),
    (kPasscode, cl_password cl)]"
  have set: "set ?hs = {(kAcceptVersion, ''1.2''), (kHost, cl_url cl), (kLogin, cl_username cl),
    (kPasscode, cl_password cl)}"
    by (simp add: header_layout.ord_set [OF l])
  have "fst (StompFrame_make StompCommand.kStomp ?hs []) = Returns kParsingEmptyHeaderValue"
  proof (rule make_empty_value)
    show "StompHeader.kInvalid \<notin> set (map fst ?hs)" unfolding set_map set by simp
    show "\<forall>hv \<in> set ?hs. newLine \<notin> set (snd hv)" unfolding set using assms(4-6) version_ok by simp
    show "[] \<in> set (map snd ?hs)" unfolding set_map set using assms(3) by auto
  qed simp
  then show ?thesis
    using assms(2) by (auto simp: client_OnWsConnect_def notify_def split: prod.splits)
qed

lemma empty_credentials_witness:
  "client_OnWsConnect rev False ((new_client ''h'')\<lparr>cl_onConnect := True\<rparr>) =
     (Returns (), [On_Connect kUnexpectedCouldNotCreateValidFrame])"
  by (rule empty_credentials [OF rev_layout]) (simp_all add: new_client_def newLine_def)

end
