(* ===== verification/Stomp_Conversation.thy ===== *)
theory Stomp_Conversation
  imports Stomp_Server_Props Stomp_Client_Laws
begin

text \<open>
  The client and the server together: what one sends is given to the other. Each side may lay out
  its headers in its own order.
\<close>

section \<open>Log in\<close>

text \<open>C25: a client that knows the server's host logs in: the server, for which its session is pending,
  reads the client's STOMP frame, connects and announces it, and the client reads from the answer
  that it is connected.\<close>

theorem login_accepted:
  assumes "\<And>hs. mset (ord hs) = mset hs" and "\<And>hs. mset (ord' hs) = mset hs"
    and "maps_agree st" and "map_of (sv_connections st) w = Some c" and "cn_status c = kPending"
    and "cl_url cl = sv_host st" and "id_ok (cl_url cl)" and "id_ok (cl_username cl)"
    and "id_ok (cl_password cl)"
  shows "\<exists>login answer. client_OnWsConnect ord False cl = (Returns (), [Wc_Send login Sent_Stomp]) \<and>
    OnWsSessionMessage ord' False w login st =
      (Returns (), connect_client w c st,
       Ws_Send w answer None #
       (if sv_onClientConnect st then [Client_Connected StompServerError.kOk (cn_id c)] else [])) \<and>
    client_OnWsMessage False answer cl = (Returns (), notify (cl_onConnect cl) (On_Connect StompClientError.kOk))"
proof -
  have l: "header_layout ord" and l': "header_layout ord'" by (unfold_locales, rule assms)+
  obtain f where f: "client_OnWsConnect ord False cl = (Returns (), [Wc_Send (frame_ToString f) Sent_Stomp])"
    "StompFrame_parse (frame_ToString f) = (Returns StompError.kOk, f)" "login_frame cl f"
    using header_layout.client_login_frame [OF l assms(7-9)] by blast
  have k: "GetCommand f = StompCommand.kStomp" "GetHeaderValue f kAcceptVersion = ''1.2'' \<and>
      GetHeaderValue f kHost = sv_host st \<and> cn_status c = kPending"
    using f(3) assms(5,6) by (simp_all add: login_frame_def)
  obtain answer g where s: "OnWsSessionMessage ord' False w (frame_ToString f) st =
      (Returns (), connect_client w c st, Ws_Send w answer None #
       (if sv_onClientConnect st then [Client_Connected StompServerError.kOk (cn_id c)] else []))"
    and g: "StompFrame_parse answer = (Returns StompError.kOk, g)" "GetCommand g = StompCommand.kConnected"
    using header_layout.handshake [OF l' assms(3,4) f(2) k(1)] unfolding if_P [OF k(2)] by blast
  have "client_OnWsMessage False answer cl = (Returns (), notify (cl_onConnect cl) (On_Connect StompClientError.kOk))"
    using g by (simp add: client_OnWsMessage_def HandleConnected_def)
  with f(1) s show ?thesis by blast
qed


section \<open>Requests and replies\<close>

text \<open>C26: a request of a connected client reaches the user of the server with its destination, ID and
  content; and a reply under the same ID reaches the user of the client with its destination and
  content.\<close>

theorem request_and_reply:
  assumes "\<And>hs. mset (ord hs) = mset hs" and "\<And>hs. mset (ord' hs) = mset hs"
    and "map_of (sv_connections st) w = Some c" and "map_of (sv_sessions st) (cn_id c) = Some w"
    and "cn_status c = ConnectionStatus.kConnected" and "sv_onClientMessage st" and "cl_onMessage cl"
    and "id_ok i" and "id_ok dest" and "id_ok dest'"
    and "length content < 2 ^ 64" and "length content' < 2 ^ 64"
  shows "\<exists>request reply.
    client_Send ord i dest content False = (Returns i, [Wc_Send request Sent_Nothing]) \<and>
    OnWsSessionMessage ord' False w request st =
      (Returns (), st, [Client_Message StompServerError.kOk (cn_id c) dest i content]) \<and>
    server_Send ord' newId (cn_id c) dest' content' False i st = (Returns i, [Ws_Send w reply None]) \<and>
    client_OnWsMessage False reply cl = (Returns (), [On_Message StompClientError.kOk dest' content'])"
proof -
  have l: "header_layout ord" and l': "header_layout ord'" by (unfold_locales, rule assms)+
  obtain f where f: "client_Send ord i dest content False = (Returns i, [Wc_Send (frame_ToString f) Sent_Nothing])"
    "StompFrame_parse (frame_ToString f) = (Returns StompError.kOk, f)" "GetCommand f = StompCommand.kSend"
    "GetHeaderValue f kDestination = dest" "GetHeaderValue f kId = i" "GetBody f = content"
    using header_layout.client_Send_frame [OF l assms(8,9,11), of False] by auto
  have s: "OnWsSessionMessage ord' False w (frame_ToString f) st =
      (Returns (), st, [Client_Message StompServerError.kOk (cn_id c) dest i content])"
    using assms(3,5,6) f(2-6) by (simp add: OnWsSessionMessage_def HandleSend_def)
  obtain g where g: "StompFrame_make StompCommand.kSend
      (ord' [(kId, i), (kDestination, dest'), (kContentType, ''application/json''),
            (kContentLength, to_dec (length content'))]) content' = (Returns StompError.kOk, g)"
    "StompFrame_parse (frame_ToString g) = (Returns StompError.kOk, g)" "GetCommand g = StompCommand.kSend"
    "GetHeaderValue g kDestination = dest'" "GetBody g = content'"
    using header_layout.send_frame [OF l' assms(8,10,12)] by blast
  have "i \<noteq> []" using assms(8) by (simp add: id_ok_def)
  then have r: "server_Send ord' newId (cn_id c) dest' content' False i st =
      (Returns i, [Ws_Send w (frame_ToString g) None])"
    using assms(3-5) g(1) by (simp add: server_Send_def Let_def)
  have "client_OnWsMessage False (frame_ToString g) cl =
      (Returns (), [On_Message StompClientError.kOk dest' content'])"
    using assms(7) g(2-5) by (simp add: client_OnWsMessage_def HandleMessage_def notify_def)
  with f(1) s r show ?thesis by blast
qed

section \<open>One conversation\<close>

definition example_user :: stomp_client where
  "example_user = fst (client_Connect ''u'' ''p'' True True True (new_client ''h''))"

lemma example_hosts:
  "cl_url example_user = sv_host example_pending" "id_ok (cl_url example_user)"
  "id_ok (cl_username example_user)" "id_ok (cl_password example_user)" "cl_onConnect example_user"
  by (simp_all add: example_user_def client_Connect_def new_client_def example_pending_def started_def
      server_Run_def new_server_def OnWsSessionConnect_def id_ok_def newLine_def)

lemma login_accepted_witness:
  "\<exists>login answer. client_OnWsConnect rev False example_user = (Returns (), [Wc_Send login Sent_Stomp]) \<and>
    fst (snd (OnWsSessionMessage (\<lambda>hs. hs) False 0 login example_pending)) = example_connected \<and>
    client_OnWsMessage False answer example_user =
      (Returns (), notify (cl_onConnect example_user) (On_Connect StompClientError.kOk))"
proof -
  have id: "mset hs = mset hs" for hs :: Headers ..
  have "cn_status \<lparr>cn_id = ''i'', cn_status = kPending\<rparr> = kPending" by simp
  from login_accepted [OF rev_order id example_pending_agree example_connections(1) this example_hosts(1-4)]
  show ?thesis by (fastforce simp: example_connected_def)
qed


lemma request_and_reply_witness:
  "\<exists>request reply.
    client_Send rev ''7'' ''/q'' ''hi'' False = (Returns ''7'', [Wc_Send request Sent_Nothing]) \<and>
    OnWsSessionMessage rev False 0 request example_connected =
      (Returns (), example_connected, [Client_Message StompServerError.kOk ''i'' ''/q'' ''7'' ''hi'']) \<and>
    server_Send rev [] ''i'' ''/q'' [CHR 0x00] False ''7'' example_connected = (Returns ''7'', [Ws_Send 0 reply None]) \<and>
    client_OnWsMessage False reply example_user =
      (Returns (), [On_Message StompClientError.kOk ''/q'' [CHR 0x00]])"
proof -
  let ?c = "\<lparr>cn_id = ''i'', cn_status = ConnectionStatus.kConnected\<rparr>"
  have c: "map_of (sv_sessions example_connected) (cn_id ?c) = Some 0" "cn_status ?c = ConnectionStatus.kConnected"
    using example_connections(3) by simp_all
  have h: "sv_onClientMessage example_connected" "cl_onMessage example_user"
    by (simp_all add: example_connected_def example_pending_def started_def server_Run_def
        OnWsSessionConnect_def example_user_def client_Connect_def)
  have i: "id_ok ''7''" "id_ok ''/q''" by (simp_all add: id_ok_def newLine_def)
  have n: "length ''hi'' < (2::nat) ^ 64" "length [CHR 0x00] < (2::nat) ^ 64" by simp_all
  from request_and_reply [OF rev_order rev_order example_connections(2) c h i i(2) n, of "[]"]
  show ?thesis by simp
qed

end
