(* ===== verification/Transport_Network.thy ===== *)
theory Transport_Network
  imports Tube_Prelude
begin

text \<open>
  The transport network of \<^verbatim>\<open>inc/network-monitor/transport-network.h\<close> and
  \<^verbatim>\<open>src/transport-network.cpp\<close>: the public value types, the internal graph as an explicit
  store, and one definition per operation of the class \<^verbatim>\<open>TransportNetwork\<close> that is not
  path finding (that is in \<open>Shortest_Path\<close> and \<open>Quiet_Route\<close>).

  The code's internal objects are shared through \<^verbatim>\<open>std::shared_ptr\<close> and compared by
  address, so the store keeps one list per class of object and a pointer is an index into it;
  allocation appends. A \<^verbatim>\<open>shared_ptr\<close> never dangles, and the code never frees an object
  while another one points to it: indices stay valid.
\<close>

section \<open>Public data types\<close>

type_synonym Id = string

record Station =
  st_id :: Id
  st_name :: string

record Route =
  rt_id :: Id
  rt_direction :: string
  rt_lineId :: Id
  rt_startStationId :: Id
  rt_endStationId :: Id
  rt_stops :: "Id list"

record Line =
  ln_id :: Id
  ln_name :: string
  ln_routes :: "Route list"

text \<open>\<^verbatim>\<open>Station::operator==\<close>, \<^verbatim>\<open>Route::operator==\<close>, \<^verbatim>\<open>Line::operator==\<close>.\<close>

definition station_eq :: "Station \<Rightarrow> Station \<Rightarrow> bool" where
  "station_eq a b \<longleftrightarrow> st_id a = st_id b"

definition route_eq :: "Route \<Rightarrow> Route \<Rightarrow> bool" where
  "route_eq a b \<longleftrightarrow> rt_id a = rt_id b"

definition line_eq :: "Line \<Rightarrow> Line \<Rightarrow> bool" where
  "line_eq a b \<longleftrightarrow> ln_id a = ln_id b"

datatype EventType = In | Out

text \<open>The timestamp is a \<^verbatim>\<open>boost::posix_time::ptime\<close>, a type of a library: \<open>'pt\<close>.\<close>

record 'pt PassengerEvent =
  ev_stationId :: Id
  ev_type :: EventType
  ev_timestamp :: 'pt

record Step =
  sp_startStationId :: Id
  sp_endStationId :: Id
  sp_lineId :: Id
  sp_routeId :: Id
  sp_travelTime :: u32

record TravelRoute =
  tr_startStationId :: Id
  tr_endStationId :: Id
  tr_totalTravelTime :: u32
  tr_steps :: "Step list"

text \<open>
  \<^verbatim>\<open>TravelRoute::Step::operator==\<close> and \<^verbatim>\<open>TravelRoute::operator==\<close> compare every
  field: they are equality of the records.
\<close>

definition step_eq :: "Step \<Rightarrow> Step \<Rightarrow> bool" where
  "step_eq a b \<longleftrightarrow>
     sp_travelTime a = sp_travelTime b \<and> sp_startStationId a = sp_startStationId b \<and>
     sp_endStationId a = sp_endStationId b \<and> sp_lineId a = sp_lineId b \<and>
     sp_routeId a = sp_routeId b"

definition travel_route_eq :: "TravelRoute \<Rightarrow> TravelRoute \<Rightarrow> bool" where
  "travel_route_eq a b \<longleftrightarrow>
     tr_totalTravelTime a = tr_totalTravelTime b \<and>
     tr_startStationId a = tr_startStationId b \<and> tr_endStationId a = tr_endStationId b \<and>
     list_all2 step_eq (tr_steps a) (tr_steps b)"

text \<open>The value of \<^verbatim>\<open>TravelRoute {}\<close>.\<close>

definition empty_travel_route :: TravelRoute where
  "empty_travel_route =
     \<lparr>tr_startStationId = '''', tr_endStationId = '''', tr_totalTravelTime = 0, tr_steps = []\<rparr>"

section \<open>The store\<close>

type_synonym node_ref = nat
type_synonym edge_ref = nat
type_synonym route_ref = nat
type_synonym line_ref = nat

text \<open>\<^verbatim>\<open>passengerCount\<close> is a \<^verbatim>\<open>long long\<close>: an integer whose overflow is undefined.\<close>

record GraphNode =
  gn_id :: Id
  gn_name :: string
  gn_passengerCount :: int
  gn_edges :: "edge_ref list"

record GraphEdge =
  ge_route :: route_ref
  ge_nextStop :: node_ref
  ge_travelTime :: u32

record RouteInternal =
  ri_id :: Id
  ri_line :: line_ref
  ri_stops :: "node_ref list"

record LineInternal =
  li_id :: Id
  li_name :: string
  li_routes :: "(Id, route_ref) umap"

record network =
  nodes :: "GraphNode list"
  edges :: "GraphEdge list"
  routes :: "RouteInternal list"
  lines :: "LineInternal list"
  station_map :: "(Id, node_ref) umap"
  line_map :: "(Id, line_ref) umap"

definition empty_network :: network where
  "empty_network =
     \<lparr>nodes = [], edges = [], routes = [], lines = [], station_map = [], line_map = []\<rparr>"

abbreviation node_edges :: "network \<Rightarrow> node_ref \<Rightarrow> edge_ref list" where
  "node_edges net n \<equiv> gn_edges (nodes net ! n)"

abbreviation next_stop :: "network \<Rightarrow> edge_ref \<Rightarrow> node_ref" where
  "next_stop net e \<equiv> ge_nextStop (edges net ! e)"

abbreviation edge_route :: "network \<Rightarrow> edge_ref \<Rightarrow> route_ref" where
  "edge_route net e \<equiv> ge_route (edges net ! e)"

abbreviation edge_time :: "network \<Rightarrow> edge_ref \<Rightarrow> u32" where
  "edge_time net e \<equiv> ge_travelTime (edges net ! e)"

section \<open>Lookup\<close>

definition GetStation :: "network \<Rightarrow> Id \<Rightarrow> node_ref option" where
  "GetStation net stationId = map_of (station_map net) stationId"

definition GetLine :: "network \<Rightarrow> Id \<Rightarrow> line_ref option" where
  "GetLine net lineId = map_of (line_map net) lineId"

definition GetRoute :: "network \<Rightarrow> Id \<Rightarrow> Id \<Rightarrow> route_ref option" where
  "GetRoute net lineId routeId =
     (case GetLine net lineId of
        None \<Rightarrow> None
      | Some l \<Rightarrow> map_of (li_routes (lines net ! l)) routeId)"

definition FindEdgeForRoute :: "network \<Rightarrow> node_ref \<Rightarrow> route_ref \<Rightarrow> edge_ref option" where
  "FindEdgeForRoute net n r = List.find (\<lambda>e. edge_route net e = r) (node_edges net n)"

section \<open>Construction of the network\<close>

definition AddStation :: "Station \<Rightarrow> network \<Rightarrow> bool \<times> network" where
  "AddStation station net =
     (if GetStation net (st_id station) \<noteq> None then (False, net)
      else
        let node = \<lparr>gn_id = st_id station, gn_name = st_name station,
                    gn_passengerCount = 0, gn_edges = []\<rparr>
        in (True, net\<lparr>nodes := nodes net @ [node],
                      station_map := umap_emplace (st_id station) (length (nodes net)) (station_map net)\<rparr>))"

text \<open>One turn of the loop that walks the stops: allocate an edge, append it to this stop.\<close>

definition add_edge :: "route_ref \<Rightarrow> node_ref \<times> node_ref \<Rightarrow> network \<Rightarrow> network" where
  "add_edge r hop net =
     (let thisStop = fst hop; nextStop = snd hop; e = length (edges net);
          node = nodes net ! thisStop
      in net\<lparr>edges := edges net @ [\<lparr>ge_route = r, ge_nextStop = nextStop, ge_travelTime = 0\<rparr>],
             nodes := (nodes net)[thisStop := node\<lparr>gn_edges := gn_edges node @ [e]\<rparr>]\<rparr>)"

text \<open>
  A route with no stops makes the loop bound \<^verbatim>\<open>stops.size() - 1\<close> wrap around and the
  first turn read \<^verbatim>\<open>stops[0]\<close> out of range.
\<close>

definition AddRouteToLine :: "Route \<Rightarrow> line_ref \<Rightarrow> network \<Rightarrow> bool outcome \<times> network" where
  "AddRouteToLine route l net =
     (if map_of (li_routes (lines net ! l)) (rt_id route) \<noteq> None then (Returns False, net)
      else case those (map (GetStation net) (rt_stops route)) of
        None \<Rightarrow> (Returns False, net)
      | Some stops \<Rightarrow>
          if stops = [] then (Fault Undefined_Behaviour, net)
          else
            let r = length (routes net);
                net1 = net\<lparr>routes := routes net @
                             [\<lparr>ri_id = rt_id route, ri_line = l, ri_stops = stops\<rparr>]\<rparr>;
                net2 = fold (add_edge r) (hops stops) net1;
                li = lines net2 ! l
            in (Returns True,
                net2\<lparr>lines := (lines net2)[l := li\<lparr>li_routes :=
                        AList.update (rt_id route) r (li_routes li)\<rparr>]\<rparr>))"

text \<open>The loop over \<^verbatim>\<open>line.routes\<close>; it stops at the first route that cannot be added.\<close>

fun add_routes :: "line_ref \<Rightarrow> Route list \<Rightarrow> network \<Rightarrow> bool outcome \<times> network" where
  "add_routes l [] net = (Returns True, net)"
| "add_routes l (route # rest) net =
     (case AddRouteToLine route l net of
        (Returns True, net') \<Rightarrow> add_routes l rest net'
      | (res, net') \<Rightarrow> (res, net'))"

definition AddLine :: "Line \<Rightarrow> network \<Rightarrow> bool outcome \<times> network" where
  "AddLine line net =
     (if GetLine net (ln_id line) \<noteq> None then (Returns False, net)
      else
        let l = length (lines net);
            net1 = net\<lparr>lines := lines net @
                         [\<lparr>li_id = ln_id line, li_name = ln_name line, li_routes = []\<rparr>]\<rparr>
        in case add_routes l (ln_routes line) net1 of
             (Returns True, net2) \<Rightarrow>
               (Returns True, net2\<lparr>line_map := umap_emplace (ln_id line) l (line_map net2)\<rparr>)
           | (res, net2) \<Rightarrow> (res, net2))"

section \<open>Passenger counts\<close>

definition llong_min :: int where "llong_min = - (2 ^ 63)"
definition llong_max :: int where "llong_max = 2 ^ 63 - 1"

definition set_count :: "node_ref \<Rightarrow> int \<Rightarrow> network \<Rightarrow> network" where
  "set_count n c net =
     net\<lparr>nodes := (nodes net)[n := (nodes net ! n)\<lparr>gn_passengerCount := c\<rparr>]\<rparr>"

definition RecordPassengerEvent ::
  "'pt PassengerEvent \<Rightarrow> network \<Rightarrow> bool outcome \<times> network" where
  "RecordPassengerEvent event net =
     (case GetStation net (ev_stationId event) of
        None \<Rightarrow> (Returns False, net)
      | Some n \<Rightarrow>
          let count = gn_passengerCount (nodes net ! n)
          in case ev_type event of
               In \<Rightarrow> (if count = llong_max then (Fault Undefined_Behaviour, net)
                      else (Returns True, set_count n (count + 1) net))
             | Out \<Rightarrow> (if count = llong_min then (Fault Undefined_Behaviour, net)
                       else (Returns True, set_count n (count - 1) net)))"

definition GetPassengerCount :: "network \<Rightarrow> Id \<Rightarrow> int outcome" where
  "GetPassengerCount net station =
     (case GetStation net station of
        None \<Rightarrow> Fault (Runtime_Error (''Could not find station in the network: '' @ station))
      | Some n \<Rightarrow> Returns (gn_passengerCount (nodes net ! n)))"

section \<open>Routes serving a station\<close>

text \<open>The routes the nested loop over \<^verbatim>\<open>lines_\<close> and \<^verbatim>\<open>line->routes\<close> visits, in order.\<close>

definition all_routes :: "network \<Rightarrow> route_ref list" where
  "all_routes net =
     concat (map (\<lambda>(_, l). map snd (li_routes (lines net ! l))) (line_map net))"

definition GetRoutesServingStation :: "network \<Rightarrow> Id \<Rightarrow> Id list outcome" where
  "GetRoutesServingStation net station =
     (case GetStation net station of
        None \<Rightarrow> Returns []
      | Some n \<Rightarrow>
          if list_ex (\<lambda>r. ri_stops (routes net ! r) = []) (all_routes net)
          then Fault Undefined_Behaviour
          else Returns
            (map (\<lambda>e. ri_id (routes net ! edge_route net e)) (node_edges net n) @
             map (\<lambda>r. ri_id (routes net ! r))
               (filter (\<lambda>r. last (ri_stops (routes net ! r)) = n) (all_routes net))))"

section \<open>Travel times\<close>

definition set_edge_time :: "u32 \<Rightarrow> edge_ref \<Rightarrow> network \<Rightarrow> network" where
  "set_edge_time t e net =
     net\<lparr>edges := (edges net)[e := (edges net ! e)\<lparr>ge_travelTime := t\<rparr>]\<rparr>"

text \<open>The lambda \<^verbatim>\<open>setTravelTime(from, to)\<close>, with \<^verbatim>\<open>foundAnyEdge\<close> threaded through.\<close>

fun set_times :: "u32 \<Rightarrow> node_ref \<Rightarrow> edge_ref list \<Rightarrow> bool \<times> network \<Rightarrow> bool \<times> network" where
  "set_times t to [] (found, net) = (found, net)"
| "set_times t to (e # es) (found, net) =
     (if next_stop net e = to then set_times t to es (True, set_edge_time t e net)
      else set_times t to es (found, net))"

definition SetTravelTime :: "Id \<Rightarrow> Id \<Rightarrow> u32 \<Rightarrow> network \<Rightarrow> bool \<times> network" where
  "SetTravelTime stationA stationB t net =
     (case (GetStation net stationA, GetStation net stationB) of
        (Some a, Some b) \<Rightarrow>
          let (found1, net1) = set_times t b (node_edges net a) (False, net)
          in set_times t a (node_edges net1 b) (found1, net1)
      | _ \<Rightarrow> (False, net))"

definition find_edge_to :: "network \<Rightarrow> node_ref \<Rightarrow> node_ref \<Rightarrow> edge_ref option" where
  "find_edge_to net from to = List.find (\<lambda>e. next_stop net e = to) (node_edges net from)"

definition GetTravelTime :: "network \<Rightarrow> Id \<Rightarrow> Id \<Rightarrow> u32" where
  "GetTravelTime net stationA stationB =
     (case (GetStation net stationA, GetStation net stationB) of
        (Some a, Some b) \<Rightarrow>
          (case find_edge_to net a b of
             Some e \<Rightarrow> edge_time net e
           | None \<Rightarrow>
               (case find_edge_to net b a of
                  Some e \<Rightarrow> edge_time net e
                | None \<Rightarrow> 0))
      | _ \<Rightarrow> 0)"

text \<open>The walk along a route's stops in the overload that takes a line and a route.\<close>

fun walk_stops ::
  "network \<Rightarrow> route_ref \<Rightarrow> node_ref \<Rightarrow> node_ref \<Rightarrow> node_ref list \<Rightarrow> bool \<Rightarrow> u32 \<Rightarrow> u32" where
  "walk_stops net r a b [] foundA time = 0"
| "walk_stops net r a b (stop # rest) foundA time =
     (let foundA' = (foundA \<or> stop = a)
      in if stop = b then time
         else if foundA' then
           (case FindEdgeForRoute net stop r of
              None \<Rightarrow> 0
            | Some e \<Rightarrow> walk_stops net r a b rest foundA' (time + edge_time net e))
         else walk_stops net r a b rest foundA' time)"

definition GetTravelTimeOnRoute :: "network \<Rightarrow> Id \<Rightarrow> Id \<Rightarrow> Id \<Rightarrow> Id \<Rightarrow> u32" where
  "GetTravelTimeOnRoute net line route stationA stationB =
     (case GetRoute net line route of
        None \<Rightarrow> 0
      | Some r \<Rightarrow>
          (case (GetStation net stationA, GetStation net stationB) of
             (Some a, Some b) \<Rightarrow> walk_stops net r a b (ri_stops (routes net ! r)) False 0
           | _ \<Rightarrow> 0))"

end
