(* ===== verification/Network_Invariant.thy ===== *)
theory Network_Invariant
  imports Transport_Network
begin

text \<open>
  The well-formedness invariant of the network's store, and that every operation that changes
  the network keeps it: \<open>AddStation\<close>, \<open>AddLine\<close> (also when it fails half way),
  \<open>RecordPassengerEvent\<close> and \<open>SetTravelTime\<close>. The functional behaviour of these
  operations and of the queries is stated over the invariant.
\<close>

section \<open>The invariant\<close>

text \<open>The edge object \<open>e\<close> is in the edge list of the node \<open>n\<close>.\<close>

definition edge_at :: "network \<Rightarrow> node_ref \<Rightarrow> edge_ref \<Rightarrow> bool" where
  "edge_at net n e \<longleftrightarrow> n < length (nodes net) \<and> e \<in> set (node_edges net n)"

text \<open>Stations: the map and the nodes agree, so two nodes never have the same ID.\<close>

definition wf_stations :: "network \<Rightarrow> bool" where
  "wf_stations net \<longleftrightarrow> umap_ok (station_map net) \<and>
     (\<forall>sid n. GetStation net sid = Some n \<longleftrightarrow>
        n < length (nodes net) \<and> gn_id (nodes net ! n) = sid)"

text \<open>
  Edges: each belongs to one node, appears there once, points to a node, and its two ends are
  consecutive stops of its route.
\<close>

definition wf_edge :: "network \<Rightarrow> node_ref \<Rightarrow> edge_ref \<Rightarrow> bool" where
  "wf_edge net n e \<longleftrightarrow>
     e < length (edges net) \<and> next_stop net e < length (nodes net) \<and>
     edge_route net e < length (routes net) \<and>
     (n, next_stop net e) \<in> set (hops (ri_stops (routes net ! edge_route net e)))"

definition wf_edges :: "network \<Rightarrow> bool" where
  "wf_edges net \<longleftrightarrow>
     (\<forall>n e. edge_at net n e \<longrightarrow> wf_edge net n e) \<and>
     (\<forall>n m e. edge_at net n e \<longrightarrow> edge_at net m e \<longrightarrow> n = m) \<and>
     (\<forall>n < length (nodes net). distinct (node_edges net n))"

text \<open>Routes: at least one stop, and an edge of the route for each pair of consecutive stops.\<close>

definition has_edges_for :: "network \<Rightarrow> route_ref \<Rightarrow> bool" where
  "has_edges_for net r \<longleftrightarrow>
     (\<forall>a b. (a, b) \<in> set (hops (ri_stops (routes net ! r))) \<longrightarrow>
        (\<exists>e. edge_at net a e \<and> edge_route net e = r \<and> next_stop net e = b))"

definition wf_route :: "network \<Rightarrow> route_ref \<Rightarrow> bool" where
  "wf_route net r \<longleftrightarrow>
     ri_stops (routes net ! r) \<noteq> [] \<and>
     set (ri_stops (routes net ! r)) \<subseteq> {..<length (nodes net)} \<and>
     ri_line (routes net ! r) < length (lines net)"

definition wf_routes :: "network \<Rightarrow> bool" where
  "wf_routes net \<longleftrightarrow> (\<forall>r < length (routes net). wf_route net r \<and> has_edges_for net r)"

text \<open>Lines: the routes of a line are filed under their IDs and point back to the line.\<close>

definition wf_line :: "network \<Rightarrow> line_ref \<Rightarrow> bool" where
  "wf_line net l \<longleftrightarrow> umap_ok (li_routes (lines net ! l)) \<and>
     (\<forall>rid r. map_of (li_routes (lines net ! l)) rid = Some r \<longrightarrow>
        r < length (routes net) \<and> ri_id (routes net ! r) = rid \<and> ri_line (routes net ! r) = l)"

definition wf_lines :: "network \<Rightarrow> bool" where
  "wf_lines net \<longleftrightarrow> (\<forall>l < length (lines net). wf_line net l)"

definition wf_line_map :: "network \<Rightarrow> bool" where
  "wf_line_map net \<longleftrightarrow> umap_ok (line_map net) \<and>
     (\<forall>lid l. GetLine net lid = Some l \<longrightarrow> l < length (lines net) \<and> li_id (lines net ! l) = lid)"

definition wf_network :: "network \<Rightarrow> bool" where
  "wf_network net \<longleftrightarrow>
     wf_stations net \<and> wf_edges net \<and> wf_routes net \<and> wf_lines net \<and> wf_line_map net"

lemmas wf_defs = wf_stations_def wf_edges_def wf_edge_def wf_routes_def wf_route_def
  has_edges_for_def wf_lines_def wf_line_def wf_line_map_def

lemma wf_empty_network: "wf_network empty_network"
  by (simp add: wf_network_def wf_defs empty_network_def edge_at_def GetStation_def GetLine_def)

lemma wf_GetStation:
  "wf_network net \<Longrightarrow>
   GetStation net sid = Some n \<longleftrightarrow> n < length (nodes net) \<and> gn_id (nodes net ! n) = sid"
  by (simp add: wf_network_def wf_stations_def)

lemma GetStation_same:
  "wf_network net \<Longrightarrow> GetStation net s = Some a \<Longrightarrow> GetStation net s' = Some b \<Longrightarrow> a = b \<longleftrightarrow> s = s'"
  using wf_GetStation [of net s] wf_GetStation [of net s'] by (metis option.inject)

lemma wf_edge_at:
  "wf_network net \<Longrightarrow> edge_at net n e \<Longrightarrow> wf_edge net n e"
  by (simp add: wf_network_def wf_edges_def)

lemma wf_edge_owner:
  "wf_network net \<Longrightarrow> edge_at net n e \<Longrightarrow> edge_at net m e \<Longrightarrow> n = m"
  unfolding wf_network_def wf_edges_def by blast

lemma wf_routeD:
  "wf_network net \<Longrightarrow> r < length (routes net) \<Longrightarrow> wf_route net r \<and> has_edges_for net r"
  by (simp add: wf_network_def wf_routes_def)

lemma wf_lineD: "wf_network net \<Longrightarrow> l < length (lines net) \<Longrightarrow> wf_line net l"
  by (simp add: wf_network_def wf_lines_def)

lemma wf_GetLine:
  "wf_network net \<Longrightarrow> GetLine net lid = Some l \<Longrightarrow> l < length (lines net) \<and> li_id (lines net ! l) = lid"
  by (simp add: wf_network_def wf_line_map_def)

lemma wf_GetRoute:
  assumes "wf_network net" and "GetRoute net lid rid = Some r"
  shows "r < length (routes net)" and "ri_id (routes net ! r) = rid"
proof -
  from assms(2) obtain l where l: "GetLine net lid = Some l"
    and r: "map_of (li_routes (lines net ! l)) rid = Some r"
    by (auto simp: GetRoute_def split: option.splits)
  have "wf_line net l"
    using wf_GetLine [OF assms(1) l] wf_lineD [OF assms(1)] by blast
  with r show "r < length (routes net)" and "ri_id (routes net ! r) = rid"
    by (auto simp: wf_line_def)
qed

lemma wf_all_routes:
  assumes wf: "wf_network net" and r: "r \<in> set (all_routes net)"
  shows "r < length (routes net)"
proof -
  from r obtain lid l rid where l: "(lid, l) \<in> set (line_map net)"
    and r': "(rid, r) \<in> set (li_routes (lines net ! l))"
    by (auto simp: all_routes_def)
  have lm: "umap_ok (line_map net)" using wf by (simp add: wf_network_def wf_line_map_def)
  have "l < length (lines net)"
    using wf_GetLine [OF wf] l by (auto simp: GetLine_def umap_in_iff [OF lm])
  then have "wf_line net l" by (rule wf_lineD [OF wf])
  then show ?thesis using r' by (auto simp: wf_line_def umap_in_iff)
qed

section \<open>Adding a station\<close>

lemma AddStation_nodes:
  "AddStation s net = (True, net') \<Longrightarrow>
   nodes net' = nodes net @ [\<lparr>gn_id = st_id s, gn_name = st_name s,
                              gn_passengerCount = 0, gn_edges = []\<rparr>] \<and>
   edges net' = edges net \<and> routes net' = routes net \<and> lines net' = lines net \<and>
   line_map net' = line_map net"
  by (auto simp: AddStation_def Let_def split: if_splits)

lemma AddStation_lookup:
  "AddStation s net = (True, net') \<Longrightarrow>
   GetStation net (st_id s) = None \<and>
   GetStation net' = (GetStation net)(st_id s \<mapsto> length (nodes net))"
  by (auto simp: AddStation_def Let_def GetStation_def umap_simps fun_eq_iff split: if_splits)

lemma AddStation_edge_at:
  "AddStation s net = (True, net') \<Longrightarrow> edge_at net' n e \<longleftrightarrow> edge_at net n e"
  by (drule AddStation_nodes) (auto simp: edge_at_def nth_append less_Suc_eq)

lemma AddStation_wf:
  assumes wf: "wf_network net" and add: "AddStation s net = (ok, net')"
  shows "wf_network net'"
proof (cases ok)
  case False
  with add have "net' = net" by (auto simp: AddStation_def Let_def split: if_splits)
  with wf show ?thesis by simp
next
  case True
  with add have add': "AddStation s net = (True, net')" by simp
  note nd = AddStation_nodes [OF add'] and lk = AddStation_lookup [OF add']
    and ea = AddStation_edge_at [OF add']
  have "umap_ok (station_map net')"
    using wf add' by (auto simp: AddStation_def Let_def wf_network_def wf_stations_def
        umap_simps split: if_splits)
  moreover have "GetStation net' sid = Some n \<longleftrightarrow>
      n < length (nodes net') \<and> gn_id (nodes net' ! n) = sid" for sid n
    using wf_GetStation [OF wf, of sid n] wf_GetStation [OF wf, of "st_id s"] lk nd
    by (auto simp: nth_append less_Suc_eq)
  ultimately have "wf_stations net'" by (simp add: wf_stations_def)
  moreover have "wf_edges net'"
    using wf nd ea by (auto simp: wf_network_def wf_edges_def wf_edge_def nth_append less_Suc_eq)
  moreover have "wf_routes net'"
    using wf nd ea by (fastforce simp: wf_network_def wf_routes_def wf_route_def has_edges_for_def)
  moreover have "wf_lines net'" and "wf_line_map net'"
    using wf nd by (simp_all add: wf_network_def wf_lines_def wf_line_def wf_line_map_def GetLine_def)
  ultimately show ?thesis by (simp add: wf_network_def)
qed

section \<open>Adding a line\<close>

text \<open>The loop that adds the edges of a route.\<close>

lemma add_edge_frame [simp]:
  "routes (add_edge r h net) = routes net"
  "lines (add_edge r h net) = lines net"
  "station_map (add_edge r h net) = station_map net"
  "line_map (add_edge r h net) = line_map net"
  "length (nodes (add_edge r h net)) = length (nodes net)"
  "edges (add_edge r h net) =
     edges net @ [\<lparr>ge_route = r, ge_nextStop = snd h, ge_travelTime = 0\<rparr>]"
  by (simp_all add: add_edge_def Let_def)

lemma add_edge_node [simp]:
  "gn_id (nodes (add_edge r h net) ! n) = gn_id (nodes net ! n)"
  "gn_passengerCount (nodes (add_edge r h net) ! n) = gn_passengerCount (nodes net ! n)"
  by (simp_all add: add_edge_def Let_def field_of_update [where f = gn_id]
      field_of_update [where f = gn_passengerCount])

lemma add_edge_edge_at:
  "fst h < length (nodes net) \<Longrightarrow>
   edge_at (add_edge r h net) n e \<longleftrightarrow>
     edge_at net n e \<or> (e = length (edges net) \<and> n = fst h)"
  by (auto simp: add_edge_def Let_def edge_at_def nth_list_update split: if_splits)

lemma fold_add_edge_frame [simp]:
  "routes (fold (add_edge r) hs net) = routes net"
  "lines (fold (add_edge r) hs net) = lines net"
  "station_map (fold (add_edge r) hs net) = station_map net"
  "line_map (fold (add_edge r) hs net) = line_map net"
  "length (nodes (fold (add_edge r) hs net)) = length (nodes net)"
  "edges (fold (add_edge r) hs net) =
     edges net @ map (\<lambda>h. \<lparr>ge_route = r, ge_nextStop = snd h, ge_travelTime = 0\<rparr>) hs"
  "gn_id (nodes (fold (add_edge r) hs net) ! n) = gn_id (nodes net ! n)"
  "gn_passengerCount (nodes (fold (add_edge r) hs net) ! n) = gn_passengerCount (nodes net ! n)"
  by (induction hs arbitrary: net) simp_all

lemma fold_add_edge_edge_at:
  "fst ` set hs \<subseteq> {..<length (nodes net)} \<Longrightarrow>
   edge_at (fold (add_edge r) hs net) n e \<longleftrightarrow>
     edge_at net n e \<or> (\<exists>i < length hs. e = length (edges net) + i \<and> n = fst (hs ! i))"
proof (induction hs arbitrary: net)
  case Nil
  then show ?case by simp
next
  case (Cons h hs)
  have "edge_at (fold (add_edge r) hs (add_edge r h net)) n e \<longleftrightarrow>
      edge_at (add_edge r h net) n e \<or>
      (\<exists>i < length hs. e = Suc (length (edges net)) + i \<and> n = fst (hs ! i))"
    using Cons by simp
  also have "\<dots> \<longleftrightarrow> edge_at net n e \<or>
      (\<exists>i < Suc (length hs). e = length (edges net) + i \<and> n = fst ((h # hs) ! i))"
    using Cons.prems by (auto simp: add_edge_edge_at Ex_less_Suc2)
  finally show ?case by simp
qed

lemma fold_add_edge_distinct:
  assumes "fst ` set hs \<subseteq> {..<length (nodes net)}" and "n < length (nodes net)"
    and "\<And>n e. edge_at net n e \<Longrightarrow> e < length (edges net)" and "distinct (node_edges net n)"
  shows "distinct (node_edges (fold (add_edge r) hs net) n)"
  using assms
proof (induction hs arbitrary: net)
  case Nil
  then show ?case by simp
next
  case (Cons h hs)
  have "length (edges net) \<notin> set (node_edges net n)"
    using Cons.prems(2,3) by (force simp: edge_at_def)
  then have d: "distinct (node_edges (add_edge r h net) n)"
    using Cons.prems by (simp add: add_edge_def Let_def nth_list_update)
  have "e < length (edges (add_edge r h net))" if "edge_at (add_edge r h net) m e" for m e
    using that Cons.prems(1,3) by (fastforce simp: add_edge_edge_at)
  then show ?case
    using Cons.prems d by (simp add: Cons.IH)
qed

text \<open>What a successful \<open>AddRouteToLine\<close> does, in terms of the loop.\<close>

lemma AddRouteToLine_cases:
  obtains (unchanged) "snd (AddRouteToLine rt l net) = net"
      and "fst (AddRouteToLine rt l net) \<noteq> Returns True"
  | (added) stops where "map (GetStation net) (rt_stops rt) = map Some stops" and "stops \<noteq> []"
      and "map_of (li_routes (lines net ! l)) (rt_id rt) = None"
      and "fst (AddRouteToLine rt l net) = Returns True"
      and "snd (AddRouteToLine rt l net) =
        (fold (add_edge (length (routes net))) (hops stops)
           (net\<lparr>routes := routes net @ [\<lparr>ri_id = rt_id rt, ri_line = l, ri_stops = stops\<rparr>]\<rparr>))
        \<lparr>lines := (lines net)[l := (lines net ! l)\<lparr>li_routes :=
           AList.update (rt_id rt) (length (routes net)) (li_routes (lines net ! l))\<rparr>]\<rparr>"
  by (fastforce simp: AddRouteToLine_def Let_def those_Some_iff split: if_splits option.splits)

lemma edge_at_cong:
  "nodes net = nodes net' \<Longrightarrow> edge_at net n e \<longleftrightarrow> edge_at net' n e"
  by (simp add: edge_at_def)

text \<open>A network to which a route has been added, with its edges.\<close>

definition route_laid :: "network \<Rightarrow> line_ref \<Rightarrow> Id \<Rightarrow> node_ref list \<Rightarrow> network \<Rightarrow> bool" where
  "route_laid net l rid stops net' \<longleftrightarrow>
     length (nodes net') = length (nodes net) \<and> (\<forall>n. gn_id (nodes net' ! n) = gn_id (nodes net ! n)) \<and>
     routes net' = routes net @ [\<lparr>ri_id = rid, ri_line = l, ri_stops = stops\<rparr>] \<and>
     edges net' = edges net @ map (\<lambda>h. \<lparr>ge_route = length (routes net), ge_nextStop = snd h, ge_travelTime = 0\<rparr>)
       (hops stops) \<and>
     station_map net' = station_map net \<and> line_map net' = line_map net \<and>
     lines net' = (lines net)[l := (lines net ! l)\<lparr>li_routes :=
       AList.update rid (length (routes net)) (li_routes (lines net ! l))\<rparr>] \<and>
     (\<forall>n e. edge_at net' n e \<longleftrightarrow> edge_at net n e \<or>
       (\<exists>i < length (hops stops). e = length (edges net) + i \<and> n = fst (hops stops ! i))) \<and>
     (\<forall>n < length (nodes net'). distinct (node_edges net' n))"

lemma wf_edge_bound: "wf_network net \<Longrightarrow> edge_at net n e \<Longrightarrow> e < length (edges net)"
  using wf_edge_at by (simp add: wf_edge_def)

lemma AddRouteToLine_laid:
  assumes wf: "wf_network net" and stops: "set stops \<subseteq> {..<length (nodes net)}"
    and net1: "net1 = net\<lparr>routes := routes net @ [\<lparr>ri_id = rid, ri_line = l, ri_stops = stops\<rparr>]\<rparr>"
    and net2: "net2 = fold (add_edge (length (routes net))) (hops stops) net1"
    and net3: "net3 = net2\<lparr>lines := (lines net)[l := (lines net ! l)\<lparr>li_routes :=
           AList.update rid (length (routes net)) (li_routes (lines net ! l))\<rparr>]\<rparr>"
  shows "route_laid net l rid stops net3"
proof -
  have hs: "fst ` set (hops stops) \<subseteq> {..<length (nodes net1)}"
    using stops by (auto simp: net1 dest!: hops_subset)
  have "edge_at net3 n e \<longleftrightarrow> edge_at net n e \<or>
      (\<exists>i < length (hops stops). e = length (edges net) + i \<and> n = fst (hops stops ! i))" for n e
  proof -
    have "edge_at net3 n e \<longleftrightarrow> edge_at net2 n e" by (rule edge_at_cong) (simp add: net3)
    also have "\<dots> \<longleftrightarrow> edge_at net1 n e \<or>
        (\<exists>i < length (hops stops). e = length (edges net1) + i \<and> n = fst (hops stops ! i))"
      unfolding net2 by (rule fold_add_edge_edge_at [OF hs])
    also have "edge_at net1 n e \<longleftrightarrow> edge_at net n e" by (rule edge_at_cong) (simp add: net1)
    finally show ?thesis by (simp add: net1)
  qed
  moreover have "distinct (node_edges net3 n)" if "n < length (nodes net3)" for n
  proof -
    have "distinct (node_edges net2 n)"
      unfolding net2
      using wf hs that wf_edge_bound [OF wf] by (intro fold_add_edge_distinct)
        (auto simp: net3 net2 net1 edge_at_def wf_network_def wf_edges_def)
    then show ?thesis by (simp add: net3)
  qed
  ultimately show ?thesis by (simp add: route_laid_def net3 net2 net1)
qed

lemma route_laid_edges:
  assumes wf: "wf_network net" and laid: "route_laid net l rid stops net'"
    and stops: "set stops \<subseteq> {..<length (nodes net)}"
  shows "wf_edges net'"
proof -
  note fr = laid [unfolded route_laid_def]
  have wf': "wf_edge net' n e" if at: "edge_at net' n e" for n e
  proof (cases "edge_at net n e")
    case True
    then show ?thesis using wf_edge_at [OF wf True] fr by (auto simp: wf_edge_def nth_append)
  next
    case False
    then obtain i where i: "i < length (hops stops)" "e = length (edges net) + i" "n = fst (hops stops ! i)"
      using at fr by blast
    have "(fst (hops stops ! i), snd (hops stops ! i)) \<in> set (hops stops)" using i by simp
    then have "snd (hops stops ! i) < length (nodes net)" using stops by (blast dest: hops_subset)
    with i show ?thesis using fr by (simp add: wf_edge_def nth_append)
  qed
  have "n = m" if "edge_at net' n e" "edge_at net' m e" for n m e
  proof (cases "e < length (edges net)")
    case True
    with that fr have "edge_at net n e" and "edge_at net m e" by simp_all
    then show ?thesis by (rule wf_edge_owner [OF wf])
  next
    case False
    then have "\<not> edge_at net n e" and "\<not> edge_at net m e" using wf_edge_bound [OF wf] by blast+
    with that fr show ?thesis by auto
  qed
  then show ?thesis using wf' fr unfolding wf_edges_def by blast
qed

lemma route_laid_routes:
  assumes wf: "wf_network net" and laid: "route_laid net l rid stops net'" and l: "l < length (lines net)"
    and stops: "set stops \<subseteq> {..<length (nodes net)}" and ne: "stops \<noteq> []"
  shows "wf_routes net'"
  unfolding wf_routes_def
proof (intro allI impI)
  let ?r = "length (routes net)"
  note fr = laid [unfolded route_laid_def]
  fix r assume "r < length (routes net')"
  then consider (old) "r < ?r" | (new) "r = ?r" using fr by force
  then show "wf_route net' r \<and> has_edges_for net' r"
  proof cases
    case old
    have "wf_route net r" and "has_edges_for net r" using wf_routeD [OF wf old] by simp_all
    with old show ?thesis
      by (fastforce simp: wf_route_def has_edges_for_def fr nth_append dest: wf_edge_bound [OF wf])
  next
    case new
    have "\<exists>e. edge_at net' a e \<and> edge_route net' e = ?r \<and> next_stop net' e = b"
      if "(a, b) \<in> set (hops stops)" for a b
    proof -
      from that obtain i where i: "i < length (hops stops)" "hops stops ! i = (a, b)"
        by (auto simp: in_set_conv_nth)
      then show ?thesis by (intro exI [of _ "length (edges net) + i"]) (auto simp: fr nth_append)
    qed
    with new l ne stops show ?thesis by (auto simp: wf_route_def has_edges_for_def fr)
  qed
qed

lemma route_laid_lines:
  assumes wf: "wf_network net" and laid: "route_laid net l rid stops net'"
    and new: "map_of (li_routes (lines net ! l)) rid = None"
  shows "wf_lines net' \<and> wf_line_map net'"
proof
  note fr = laid [unfolded route_laid_def]
  have ln: "lines net' = (lines net)[l := (lines net ! l)\<lparr>li_routes :=
      AList.update rid (length (routes net)) (li_routes (lines net ! l))\<rparr>]" using fr by simp
  show "wf_lines net'"
    unfolding wf_lines_def
  proof (intro allI impI)
    fix k assume k: "k < length (lines net')"
    then have "wf_line net k" using wf_lineD [OF wf] by (simp add: ln)
    then show "wf_line net' k"
      using k fr by (cases "k = l")
        (auto simp: wf_line_def ln update_conv' nth_append intro: less_SucI split: if_splits)
  qed
  have "li_id (lines net' ! k) = li_id (lines net ! k)" for k
    unfolding ln by (rule field_of_update) simp
  then show "wf_line_map net'"
    using wf fr by (simp add: wf_network_def wf_line_map_def GetLine_def)
qed

lemma AddRouteToLine_wf_added:
  assumes wf: "wf_network net" and l: "l < length (lines net)"
    and st: "map (GetStation net) (rt_stops rt) = map Some stops" and ne: "stops \<noteq> []"
    and new: "map_of (li_routes (lines net ! l)) (rt_id rt) = None"
    and net1: "net1 = net\<lparr>routes := routes net @ [\<lparr>ri_id = rt_id rt, ri_line = l, ri_stops = stops\<rparr>]\<rparr>"
    and net2: "net2 = fold (add_edge (length (routes net))) (hops stops) net1"
    and net3: "net3 = net2\<lparr>lines := (lines net)[l := (lines net ! l)\<lparr>li_routes :=
           AList.update (rt_id rt) (length (routes net)) (li_routes (lines net ! l))\<rparr>]\<rparr>"
  shows "wf_network net3"
proof -
  have stops: "set stops \<subseteq> {..<length (nodes net)}"
    using map_Some_lookup [OF st] wf_GetStation [OF wf] by blast
  note laid = AddRouteToLine_laid [OF wf stops net1 net2 net3]
  have "wf_stations net3"
    using wf laid by (simp add: wf_network_def wf_stations_def GetStation_def route_laid_def)
  then show ?thesis
    using route_laid_edges [OF wf laid stops] route_laid_routes [OF wf laid l stops ne]
      route_laid_lines [OF wf laid new] by (simp add: wf_network_def)
qed

lemma AddRouteToLine_wf:
  assumes wf: "wf_network net" and l: "l < length (lines net)"
    and add: "AddRouteToLine rt l net = (res, net')"
  shows "wf_network net' \<and> length (lines net') = length (lines net) \<and>
    line_map net' = line_map net \<and> station_map net' = station_map net \<and>
    li_id (lines net' ! l) = li_id (lines net ! l)"
proof (rule AddRouteToLine_cases [of rt l net])
  assume "snd (AddRouteToLine rt l net) = net"
  with wf add show ?thesis by simp
next
  fix stops
  assume a: "map (GetStation net) (rt_stops rt) = map Some stops" "stops \<noteq> []"
    "map_of (li_routes (lines net ! l)) (rt_id rt) = None"
    and eq: "snd (AddRouteToLine rt l net) =
        (fold (add_edge (length (routes net))) (hops stops)
           (net\<lparr>routes := routes net @ [\<lparr>ri_id = rt_id rt, ri_line = l, ri_stops = stops\<rparr>]\<rparr>))
        \<lparr>lines := (lines net)[l := (lines net ! l)\<lparr>li_routes :=
           AList.update (rt_id rt) (length (routes net)) (li_routes (lines net ! l))\<rparr>]\<rparr>"
  have "wf_network (snd (AddRouteToLine rt l net))"
    unfolding eq by (rule AddRouteToLine_wf_added [OF wf l a refl refl refl])
  then show ?thesis using add eq l by simp
qed

lemma add_routes_wf:
  "wf_network net \<Longrightarrow> l < length (lines net) \<Longrightarrow> add_routes l rts net = (res, net') \<Longrightarrow>
   wf_network net' \<and> length (lines net') = length (lines net) \<and> line_map net' = line_map net \<and>
   station_map net' = station_map net \<and> li_id (lines net' ! l) = li_id (lines net ! l)"
proof (induction rts arbitrary: net)
  case Nil
  then show ?case by simp
next
  case (Cons rt rts)
  obtain res1 net1 where r1: "AddRouteToLine rt l net = (res1, net1)"
    by (cases "AddRouteToLine rt l net")
  note w1 = AddRouteToLine_wf [OF Cons.prems(1,2) r1]
  show ?case
  proof (cases "res1 = Returns True")
    case True
    then show ?thesis using Cons.IH [of net1] Cons.prems w1 r1 by simp
  next
    case False
    then have "net' = net1"
      using Cons.prems(3) r1 by (auto split: outcome.splits bool.splits)
    then show ?thesis using w1 by simp
  qed
qed

lemma wf_new_line:
  assumes wf: "wf_network net"
  shows "wf_network (net\<lparr>lines := lines net @ [\<lparr>li_id = i, li_name = m, li_routes = []\<rparr>]\<rparr>)"
    (is "wf_network ?net1")
proof -
  have ea: "edge_at ?net1 n e \<longleftrightarrow> edge_at net n e" for n e by (simp add: edge_at_def)
  have st: "GetStation ?net1 = GetStation net" and ln: "GetLine ?net1 = GetLine net"
    by (simp_all add: fun_eq_iff GetStation_def GetLine_def)
  have "wf_stations ?net1" and "wf_edges ?net1"
    using wf by (simp_all add: wf_network_def wf_stations_def wf_edges_def wf_edge_def ea st)
  moreover have "wf_routes ?net1" and "wf_line_map ?net1"
    using wf by (fastforce simp: wf_network_def wf_routes_def wf_route_def has_edges_for_def
        wf_line_map_def ea ln nth_append)+
  moreover have "wf_lines ?net1"
    using wf by (auto simp: wf_network_def wf_lines_def wf_line_def nth_append less_Suc_eq)
  ultimately show ?thesis by (simp add: wf_network_def)
qed

lemma wf_file_line:
  assumes wf: "wf_network net" and l: "l < length (lines net)" and id: "li_id (lines net ! l) = lid"
  shows "wf_network (net\<lparr>line_map := umap_emplace lid l (line_map net)\<rparr>)"
    (is "wf_network ?net'")
proof -
  have ea: "edge_at ?net' n e \<longleftrightarrow> edge_at net n e" for n e by (simp add: edge_at_def)
  have st: "GetStation ?net' = GetStation net" by (simp add: fun_eq_iff GetStation_def)
  have "wf_stations ?net'" and "wf_edges ?net'" and "wf_routes ?net'" and "wf_lines ?net'"
    using wf by (simp_all add: wf_network_def wf_stations_def wf_edges_def wf_edge_def
        wf_routes_def wf_route_def has_edges_for_def wf_lines_def wf_line_def ea st)
  moreover have "wf_line_map ?net'"
    using wf l id by (auto simp: wf_network_def wf_line_map_def GetLine_def umap_simps
        split: if_splits)
  ultimately show ?thesis by (simp add: wf_network_def)
qed

lemma AddLine_wf:
  assumes wf: "wf_network net" and add: "AddLine line net = (res, net')"
  shows "wf_network net'"
proof (cases "GetLine net (ln_id line) = None")
  case False
  with wf add show ?thesis by (simp add: AddLine_def)
next
  case True
  let ?l = "length (lines net)"
  let ?net1 = "net\<lparr>lines := lines net @ [\<lparr>li_id = ln_id line, li_name = ln_name line, li_routes = []\<rparr>]\<rparr>"
  obtain res2 net2 where r2: "add_routes ?l (ln_routes line) ?net1 = (res2, net2)"
    by (cases "add_routes ?l (ln_routes line) ?net1")
  have w2: "wf_network net2" "?l < length (lines net2)" "li_id (lines net2 ! ?l) = ln_id line"
    using add_routes_wf [OF wf_new_line [OF wf] _ r2] by simp_all
  show ?thesis
  proof (cases "res2 = Returns True")
    case False
    then have "net' = net2"
      using add True r2 by (auto simp: AddLine_def Let_def split: outcome.splits bool.splits)
    with w2 show ?thesis by simp
  next
    case ok: True
    then have "net' = net2\<lparr>line_map := umap_emplace (ln_id line) ?l (line_map net2)\<rparr>"
      using add True r2 by (auto simp: AddLine_def Let_def)
    then show ?thesis using wf_file_line [OF w2] by simp
  qed
qed

section \<open>Passenger events and travel times\<close>

text \<open>
  Both change one field of one object that the invariant does not mention, so everything the
  invariant reads is the same before and after.
\<close>

definition same_shape :: "network \<Rightarrow> network \<Rightarrow> bool" where
  "same_shape net net' \<longleftrightarrow>
     map gn_id (nodes net') = map gn_id (nodes net) \<and>
     map gn_edges (nodes net') = map gn_edges (nodes net) \<and>
     map ge_route (edges net') = map ge_route (edges net) \<and>
     map ge_nextStop (edges net') = map ge_nextStop (edges net) \<and>
     routes net' = routes net \<and> lines net' = lines net \<and>
     station_map net' = station_map net \<and> line_map net' = line_map net"

lemma same_shape_refl [simp]: "same_shape net net"
  by (simp add: same_shape_def)

lemma same_shape_trans: "same_shape a b \<Longrightarrow> same_shape b c \<Longrightarrow> same_shape a c"
  by (simp add: same_shape_def)

lemma same_shapeD:
  assumes "same_shape net net'"
  shows "length (nodes net') = length (nodes net)"
    and "length (edges net') = length (edges net)"
    and "n < length (nodes net) \<Longrightarrow> gn_id (nodes net' ! n) = gn_id (nodes net ! n)"
    and "n < length (nodes net) \<Longrightarrow> node_edges net' n = node_edges net n"
    and "e < length (edges net) \<Longrightarrow> edge_route net' e = edge_route net e"
    and "e < length (edges net) \<Longrightarrow> next_stop net' e = next_stop net e"
    and "GetStation net' = GetStation net" and "GetLine net' = GetLine net"
    and "routes net' = routes net" and "lines net' = lines net"
proof -
  have m: "map f xs = map f ys \<Longrightarrow> i < length ys \<Longrightarrow> f (xs ! i) = f (ys ! i)"
    for f :: "'a \<Rightarrow> 'b" and xs ys i
    by (metis length_map nth_map)
  show len: "length (nodes net') = length (nodes net)" "length (edges net') = length (edges net)"
    using assms unfolding same_shape_def by (metis length_map)+
  show "n < length (nodes net) \<Longrightarrow> gn_id (nodes net' ! n) = gn_id (nodes net ! n)"
    and "n < length (nodes net) \<Longrightarrow> node_edges net' n = node_edges net n"
    and "e < length (edges net) \<Longrightarrow> edge_route net' e = edge_route net e"
    and "e < length (edges net) \<Longrightarrow> next_stop net' e = next_stop net e"
    using assms unfolding same_shape_def by (metis m)+
  show "GetStation net' = GetStation net" "GetLine net' = GetLine net"
    "routes net' = routes net" "lines net' = lines net"
    using assms by (simp_all add: same_shape_def GetStation_def GetLine_def fun_eq_iff)
qed

lemma same_shape_edge_at:
  "same_shape net net' \<Longrightarrow> edge_at net' n e \<longleftrightarrow> edge_at net n e"
  by (auto simp: edge_at_def same_shapeD)

lemma same_shape_wf:
  assumes s: "same_shape net net'" and wf: "wf_network net"
  shows "wf_network net'"
proof -
  note sd = same_shapeD [OF s] same_shape_edge_at [OF s]
  have lt: "edge_at net n e \<Longrightarrow> e < length (edges net)" for n e
    using wf_edge_at [OF wf] by (simp add: wf_edge_def)
  have "wf_stations net'"
    using wf s by (auto simp: wf_network_def wf_stations_def sd same_shape_def)
  moreover have "wf_edges net'"
    using wf by (auto simp: wf_network_def wf_edges_def wf_edge_def sd lt)
  moreover have "wf_routes net'"
    using wf by (fastforce simp: wf_network_def wf_routes_def wf_route_def has_edges_for_def sd
        dest: lt)
  moreover have "wf_lines net'" and "wf_line_map net'"
    using wf s by (simp_all add: wf_network_def wf_lines_def wf_line_def wf_line_map_def sd
        same_shape_def)
  ultimately show ?thesis by (simp add: wf_network_def)
qed

lemma map_update_same: "f y = f (xs ! i) \<Longrightarrow> map f (xs[i := y]) = map f xs"
  by (cases "i < length xs") (simp_all add: map_update list_update_same_conv list_update_beyond)

lemma set_count_shape: "same_shape net (set_count n c net)"
  by (simp add: same_shape_def set_count_def map_update_same)

lemma set_edge_time_shape: "same_shape net (set_edge_time t e net)"
  by (simp add: same_shape_def set_edge_time_def map_update_same)

lemma set_times_shape: "same_shape net (snd (set_times t to es (found, net)))"
proof (induction es arbitrary: found net)
  case Nil
  then show ?case by simp
next
  case (Cons e es)
  then show ?case
    by (auto intro: same_shape_trans [OF set_edge_time_shape])
qed

lemma RecordPassengerEvent_shape:
  "RecordPassengerEvent ev net = (res, net') \<Longrightarrow> same_shape net net'"
  by (auto simp: RecordPassengerEvent_def Let_def set_count_shape
      split: option.splits EventType.splits if_splits)

lemma set_times_shape': "set_times t to es (found, net) = (found', net') \<Longrightarrow> same_shape net net'"
  using set_times_shape [of net t to es found] by simp

lemma SetTravelTime_shape:
  "SetTravelTime a b t net = (res, net') \<Longrightarrow> same_shape net net'"
  by (auto simp: SetTravelTime_def split: option.splits prod.splits
      dest!: set_times_shape' intro: same_shape_trans)

end
