(* ===== verification/Network_Machine.thy ===== *)
theory Network_Machine
  imports Network_Invariant
begin

text \<open>
  The public operations that change a \<^verbatim>\<open>TransportNetwork\<close> as one state machine: any
  sequence of them, successful or not, leads from the empty network to a well-formed one. The
  theory ends with a small network, built by these operations, on which the properties are
  instantiated.
\<close>

section \<open>Any sequence of operations\<close>

datatype 'pt net_op =
    Op_AddStation Station
  | Op_AddLine Line
  | Op_Record "'pt PassengerEvent"
  | Op_SetTime Id Id u32

fun net_step :: "'pt net_op \<Rightarrow> network \<Rightarrow> network" where
  "net_step (Op_AddStation s) net = snd (AddStation s net)"
| "net_step (Op_AddLine l) net = snd (AddLine l net)"
| "net_step (Op_Record ev) net = snd (RecordPassengerEvent ev net)"
| "net_step (Op_SetTime a b t) net = snd (SetTravelTime a b t net)"

lemma net_step_wf: "wf_network net \<Longrightarrow> wf_network (net_step op net)"
  by (cases op)
    (auto intro: AddStation_wf AddLine_wf same_shape_wf [OF RecordPassengerEvent_shape]
      same_shape_wf [OF SetTravelTime_shape] simp: prod_eq_iff)

interpretation net_machine: invariant_machine empty_network net_step "\<lambda>_ _. True" wf_network
  by unfold_locales (auto simp: wf_empty_network net_step_wf)

lemma all_allowed_True [simp]: "all_allowed step (\<lambda>_ _. True) es s"
  by (induction es arbitrary: s) auto

lemma wf_run: "wf_network (run_all net_step ops empty_network)"
  by (rule net_machine.run_from_init) simp

text \<open>C11: whatever operations are called on a network, in whatever order and with whatever
  arguments, also when they fail, the internal graph stays well formed: no two stations share an
  ID, every edge leaves exactly one station and joins consecutive stops of its route, every
  consecutive pair of stops of a route has its edge, and lines and routes are filed under their IDs.\<close>

theorem network_always_wf: "wf_network (run_all net_step ops empty_network)"
  by (rule wf_run)

section \<open>A small network\<close>

text \<open>
  Two lines from A to C: the fast one by the crowded B, the slow one by the quiet D.
\<close>

definition example_ops :: "unit net_op list" where
  "example_ops =
     map (\<lambda>s. Op_AddStation \<lparr>st_id = s, st_name = s\<rparr>) [''A'', ''B'', ''C'', ''D''] @
     [Op_AddLine \<lparr>ln_id = ''L1'', ln_name = ''Fast'', ln_routes =
        [\<lparr>rt_id = ''R1'', rt_direction = ''out'', rt_lineId = ''L1'', rt_startStationId = ''A'',
          rt_endStationId = ''C'', rt_stops = [''A'', ''B'', ''C'']\<rparr>]\<rparr>,
      Op_AddLine \<lparr>ln_id = ''L2'', ln_name = ''Quiet'', ln_routes =
        [\<lparr>rt_id = ''R2'', rt_direction = ''out'', rt_lineId = ''L2'', rt_startStationId = ''A'',
          rt_endStationId = ''C'', rt_stops = [''A'', ''D'', ''C'']\<rparr>]\<rparr>,
      Op_SetTime ''A'' ''B'' 10, Op_SetTime ''B'' ''C'' 10, Op_SetTime ''A'' ''D'' 11,
      Op_SetTime ''D'' ''C'' 10] @
     map (\<lambda>_. Op_Record \<lparr>ev_stationId = ''B'', ev_type = In, ev_timestamp = ()\<rparr>) [1 .. 3 :: int]"

definition example_net :: network where
  "example_net =
     \<lparr>nodes =
        [\<lparr>gn_id = ''A'', gn_name = ''A'', gn_passengerCount = 0, gn_edges = [0, 2]\<rparr>,
         \<lparr>gn_id = ''B'', gn_name = ''B'', gn_passengerCount = 3, gn_edges = [1]\<rparr>,
         \<lparr>gn_id = ''C'', gn_name = ''C'', gn_passengerCount = 0, gn_edges = []\<rparr>,
         \<lparr>gn_id = ''D'', gn_name = ''D'', gn_passengerCount = 0, gn_edges = [3]\<rparr>],
      edges =
        [\<lparr>ge_route = 0, ge_nextStop = 1, ge_travelTime = 10\<rparr>,
         \<lparr>ge_route = 0, ge_nextStop = 2, ge_travelTime = 10\<rparr>,
         \<lparr>ge_route = 1, ge_nextStop = 3, ge_travelTime = 11\<rparr>,
         \<lparr>ge_route = 1, ge_nextStop = 2, ge_travelTime = 10\<rparr>],
      routes =
        [\<lparr>ri_id = ''R1'', ri_line = 0, ri_stops = [0, 1, 2]\<rparr>,
         \<lparr>ri_id = ''R2'', ri_line = 1, ri_stops = [0, 3, 2]\<rparr>],
      lines =
        [\<lparr>li_id = ''L1'', li_name = ''Fast'', li_routes = [(''R1'', 0)]\<rparr>,
         \<lparr>li_id = ''L2'', li_name = ''Quiet'', li_routes = [(''R2'', 1)]\<rparr>],
      station_map = [(''A'', 0), (''B'', 1), (''C'', 2), (''D'', 3)],
      line_map = [(''L1'', 0), (''L2'', 1)]\<rparr>"

lemma example_net_built: "run_all net_step example_ops empty_network = example_net"
  by code_simp

lemma example_net_wf: "wf_network example_net"
  unfolding example_net_built [symmetric] by (rule wf_run)

lemma example_edge_at:
  "edge_at example_net n e \<longleftrightarrow>
     n = 0 \<and> (e = 0 \<or> e = 2) \<or> n = 1 \<and> e = 1 \<or> n = 3 \<and> e = 3"
  by (auto simp: edge_at_def example_net_def less_Suc_eq numeral_eq_Suc)

lemma example_edges [simp]:
  "ge_route (edges example_net ! 0) = 0" "ge_route (edges example_net ! Suc 0) = 0"
  "ge_route (edges example_net ! 2) = 1" "ge_route (edges example_net ! 3) = 1"
  "ge_nextStop (edges example_net ! 0) = 1" "ge_nextStop (edges example_net ! Suc 0) = 2"
  "ge_nextStop (edges example_net ! 2) = 3" "ge_nextStop (edges example_net ! 3) = 2"
  by (simp_all add: example_net_def)

lemma example_stations [simp]:
  "GetStation example_net ''A'' = Some 0" "GetStation example_net ''B'' = Some 1"
  "GetStation example_net ''C'' = Some 2" "GetStation example_net ''D'' = Some 3"
  by (simp_all add: example_net_def GetStation_def)

lemma example_lines [simp]:
  "GetLine example_net ''L3'' = None"
  "GetRoute example_net ''L1'' ''R1'' = Some 0" "GetRoute example_net ''L2'' ''R2'' = Some 1"
  by (simp_all add: example_net_def GetLine_def GetRoute_def)

end
