(* ===== verification/Shortest_Path.thy ===== *)
theory Shortest_Path
  imports Network_Machine
begin

text \<open>
  The internal \<^verbatim>\<open>TransportNetwork::GetFastestTravelRoute\<close> (Dijkstra's algorithm over stops
  and the edges that reach them, with a penalty for changing route, a warm start and a set of
  excluded stops), as written: the priority queue may hold several entries for a stop, an entry
  is never removed when the stop is improved, and station B is never expanded.
\<close>

section \<open>Data\<close>

record PathStop =
  ps_node :: node_ref
  ps_edge :: "edge_ref option"

text \<open>\<^verbatim>\<open>PathStop::operator==\<close> compares the two pointers: it is equality of the records.\<close>

definition path_stop_eq :: "PathStop \<Rightarrow> PathStop \<Rightarrow> bool" where
  "path_stop_eq a b \<longleftrightarrow> ps_node a = ps_node b \<and> ps_edge a = ps_edge b"

lemma path_stop_eq_iff: "path_stop_eq a b \<longleftrightarrow> a = b"
  by (cases a; cases b) (simp add: path_stop_eq_def)

type_synonym PathStopDist = "PathStop \<times> u32"
type_synonym Path = "PathStopDist list"

text \<open>The comparators: both order by the distance, larger distances first.\<close>

definition PathStopDistCmp :: "PathStopDist \<Rightarrow> PathStopDist \<Rightarrow> bool" where
  "PathStopDistCmp a b \<longleftrightarrow> snd a > snd b"

definition PathCmp :: "Path \<Rightarrow> Path \<Rightarrow> bool" where
  "PathCmp a b \<longleftrightarrow> snd (last a) > snd (last b)"

text \<open>
  \<^verbatim>\<open>std::priority_queue\<close> and \<^verbatim>\<open>std::sort\<close>. A queue is the list of its elements in the
  order in which they will be popped: \<open>hd\<close> is \<^verbatim>\<open>top()\<close>, \<open>tl\<close> is \<^verbatim>\<open>pop()\<close>. C++ does
  not say in which order equal elements come out, so the operations that place elements are a
  parameter of the search, and the laws below are all that is known of them.
\<close>

record stl =
  push_stop :: "PathStopDist \<Rightarrow> PathStopDist list \<Rightarrow> PathStopDist list"
  push_path :: "Path \<Rightarrow> Path list \<Rightarrow> Path list"
  sort_stops :: "PathStopDist list \<Rightarrow> PathStopDist list"

text \<open>No element comes out before another that the comparator puts ahead of it.\<close>

definition in_pop_order :: "('a \<Rightarrow> 'a \<Rightarrow> bool) \<Rightarrow> 'a list \<Rightarrow> bool" where
  "in_pop_order cmp q \<longleftrightarrow> sorted_wrt (\<lambda>a b. \<not> cmp a b) q"

locale stl_laws =
  fixes lib :: stl
  assumes push_stop_mset: "mset (push_stop lib x q) = add_mset x (mset q)"
    and push_stop_order:
      "in_pop_order PathStopDistCmp q \<Longrightarrow> in_pop_order PathStopDistCmp (push_stop lib x q)"
    and push_path_mset: "mset (push_path lib p r) = add_mset p (mset r)"
    and push_path_order: "in_pop_order PathCmp r \<Longrightarrow> in_pop_order PathCmp (push_path lib p r)"
    and sort_stops_mset: "mset (sort_stops lib q) = mset q"
    and sort_stops_order: "sorted_wrt (\<lambda>a b. \<not> PathStopDistCmp b a) (sort_stops lib q)"
begin

lemma push_stop_set [simp]: "set (push_stop lib x q) = insert x (set q)"
  using push_stop_mset [of x q] by (metis set_mset_add_mset_insert set_mset_mset)

lemma push_stop_length [simp]: "length (push_stop lib x q) = Suc (length q)"
  using push_stop_mset [of x q] by (metis size_add_mset size_mset)

lemma push_path_set [simp]: "set (push_path lib p r) = insert p (set r)"
  using push_path_mset [of p r] by (metis set_mset_add_mset_insert set_mset_mset)

lemma push_path_length [simp]: "length (push_path lib p r) = Suc (length r)"
  using push_path_mset [of p r] by (metis size_add_mset size_mset)

lemma sort_stops_set [simp]: "set (sort_stops lib q) = set q"
  using sort_stops_mset [of q] by (metis set_mset_mset)

text \<open>After sorting, the last element has the least distance.\<close>

lemma sort_stops_last:
  assumes "q \<noteq> []"
  shows "last (sort_stops lib q) \<in> set q"
    and "x \<in> set q \<Longrightarrow> snd (last (sort_stops lib q)) \<le> snd x"
proof -
  have ne: "sort_stops lib q \<noteq> []" using assms sort_stops_set [of q] by fastforce
  then show "last (sort_stops lib q) \<in> set q" using last_in_set sort_stops_set by blast
  assume x: "x \<in> set q"
  obtain ys where ys: "sort_stops lib q = ys @ [last (sort_stops lib q)]"
    using ne by (metis append_butlast_last_id)
  then have "sorted_wrt (\<lambda>a b. \<not> PathStopDistCmp b a) (ys @ [last (sort_stops lib q)])"
    using sort_stops_order [of q] by simp
  moreover have "x \<in> set (ys @ [last (sort_stops lib q)])" using x ys by (metis sort_stops_set)
  ultimately show "snd (last (sort_stops lib q)) \<le> snd x"
    by (auto simp: sorted_wrt_append PathStopDistCmp_def)
qed

end

text \<open>One library that obeys the laws: insertion ahead of equal elements, and a stable sort.\<close>

definition ref_stl :: stl where
  "ref_stl = \<lparr>push_stop = insort_key snd, push_path = insort_key (\<lambda>p. snd (last p)),
     sort_stops = (\<lambda>q. rev (sort_key snd q))\<rparr>"

lemma in_pop_order_sorted:
  "in_pop_order PathStopDistCmp q \<longleftrightarrow> sorted (map snd q)"
  "in_pop_order PathCmp r \<longleftrightarrow> sorted (map (\<lambda>p. snd (last p)) r)"
  by (simp_all add: in_pop_order_def PathStopDistCmp_def PathCmp_def not_less sorted_map)

interpretation ref_lib: stl_laws ref_stl
proof
  show "sorted_wrt (\<lambda>a b. \<not> PathStopDistCmp b a) (sort_stops ref_stl q)" for q
    using sorted_sort_key [of snd q]
    by (simp add: ref_stl_def PathStopDistCmp_def not_less sorted_wrt_rev sorted_map)
qed (simp_all add: ref_stl_def in_pop_order_sorted sorted_insort_key)

section \<open>The search\<close>

record dijkstra =
  distFromA :: "(PathStop, u32) umap"
  previousStop :: "(PathStop, PathStop) umap"
  nodesToVisit :: "PathStopDist list"

definition neighbor_of :: "network \<Rightarrow> edge_ref \<Rightarrow> PathStop" where
  "neighbor_of net e = \<lparr>ps_node = next_stop net e, ps_edge = Some e\<rparr>"

text \<open>The distance of a neighbor, with a penalty of 5 for a change of route; it may wrap.\<close>

definition neighbor_dist :: "network \<Rightarrow> PathStop \<Rightarrow> u32 \<Rightarrow> edge_ref \<Rightarrow> u32" where
  "neighbor_dist net currStop currDist e =
     (let d = currDist + edge_time net e
      in case ps_edge currStop of
           None \<Rightarrow> d
         | Some e' \<Rightarrow> (if edge_route net e' \<noteq> edge_route net e then d + 5 else d))"

definition record_neighbor ::
  "stl \<Rightarrow> PathStop \<Rightarrow> PathStop \<Rightarrow> u32 \<Rightarrow> dijkstra \<Rightarrow> dijkstra" where
  "record_neighbor lib currStop neighbor d st =
     st\<lparr>distFromA := AList.update neighbor d (distFromA st),
        previousStop := AList.update neighbor currStop (previousStop st),
        nodesToVisit := push_stop lib (neighbor, d) (nodesToVisit st)\<rparr>"

text \<open>One turn of the loop over the edges of the current station.\<close>

definition explore ::
  "stl \<Rightarrow> network \<Rightarrow> PathStop set \<Rightarrow> PathStop \<Rightarrow> u32 \<Rightarrow> edge_ref \<Rightarrow> dijkstra \<Rightarrow> dijkstra" where
  "explore lib net excludedStops currStop currDist e st =
     (let neighbor = neighbor_of net e
      in if neighbor \<in> excludedStops then st
         else
           let d = neighbor_dist net currStop currDist e
           in case map_of (distFromA st) neighbor of
                None \<Rightarrow> record_neighbor lib currStop neighbor d st
              | Some old \<Rightarrow> (if d < old then record_neighbor lib currStop neighbor d st else st))"

text \<open>One turn of the main loop.\<close>

definition visit ::
  "stl \<Rightarrow> network \<Rightarrow> node_ref \<Rightarrow> PathStop set \<Rightarrow> dijkstra \<Rightarrow> dijkstra" where
  "visit lib net stationB excludedStops st =
     (case nodesToVisit st of
        [] \<Rightarrow> st
      | (currStop, currDist) # rest \<Rightarrow>
          let st' = st\<lparr>nodesToVisit := rest\<rparr>
          in if ps_node currStop = stationB then st'
             else fold (explore lib net excludedStops currStop currDist)
                    (node_edges net (ps_node currStop)) st')"

definition dijkstra_init :: "stl \<Rightarrow> PathStopDist \<Rightarrow> dijkstra" where
  "dijkstra_init lib stopA =
     \<lparr>distFromA = [stopA], previousStop = [], nodesToVisit = push_stop lib stopA []\<rparr>"

definition dijkstra_loop ::
  "stl \<Rightarrow> network \<Rightarrow> node_ref \<Rightarrow> PathStop set \<Rightarrow> dijkstra \<Rightarrow> dijkstra option" where
  "dijkstra_loop lib net stationB excludedStops =
     while_option (\<lambda>st. nodesToVisit st \<noteq> []) (visit lib net stationB excludedStops)"

text \<open>The loop that assembles the path from B back to station A; \<^verbatim>\<open>at\<close> throws on a missing key.\<close>

partial_function (option) walk_back ::
  "(PathStop, u32) umap \<Rightarrow> (PathStop, PathStop) umap \<Rightarrow> node_ref \<Rightarrow> PathStop \<Rightarrow> Path \<Rightarrow>
   Path outcome option" where
  "walk_back dist prev stationA stop path =
     (if ps_node stop = stationA then Some (Returns (rev path))
      else case map_of prev stop of
        None \<Rightarrow> Some (Fault Out_Of_Range)
      | Some stop' \<Rightarrow>
          (case map_of dist stop' of
             None \<Rightarrow> Some (Fault Out_Of_Range)
           | Some d \<Rightarrow> walk_back dist prev stationA stop' (path @ [(stop', d)])))"

declare walk_back.simps [code]

definition shortest_path ::
  "stl \<Rightarrow> network \<Rightarrow> PathStopDist \<Rightarrow> node_ref \<Rightarrow> PathStop set \<Rightarrow> Path outcome" where
  "shortest_path lib net stopA stationB excludedStops =
     (let stationA = ps_node (fst stopA)
      in if stationA = stationB then Returns [(\<lparr>ps_node = stationA, ps_edge = None\<rparr>, 0)]
         else bindO (from_option
                (dijkstra_loop lib net stationB excludedStops (dijkstra_init lib stopA)))
           (\<lambda>st.
              let pathsToB = filter (\<lambda>p. ps_node (fst p) = stationB) (distFromA st)
              in if pathsToB = [] then Returns []
                 else
                   let fastest = last (sort_stops lib pathsToB)
                   in bindO (from_option (walk_back (distFromA st) (previousStop st) stationA
                               (fst fastest) [fastest]))
                        (\<lambda>res. res)))"

section \<open>Specification: journeys and their cost\<close>

definition transfer_cost :: "network \<Rightarrow> PathStop \<Rightarrow> edge_ref \<Rightarrow> nat" where
  "transfer_cost net s e =
     (case ps_edge s of
        None \<Rightarrow> 0
      | Some e' \<Rightarrow> (if edge_route net e' \<noteq> edge_route net e then 5 else 0))"

definition step_cost :: "network \<Rightarrow> PathStop \<Rightarrow> edge_ref \<Rightarrow> nat" where
  "step_cost net s e = unat (edge_time net e) + transfer_cost net s e"

text \<open>
  \<open>journey net X s d t c\<close>: from the stop \<open>s\<close>, reached at time \<open>d\<close>, the stop \<open>t\<close> can be
  reached at time \<open>c\<close> along edges whose stops are not excluded.
\<close>

inductive journey :: "network \<Rightarrow> PathStop set \<Rightarrow> PathStop \<Rightarrow> nat \<Rightarrow> PathStop \<Rightarrow> nat \<Rightarrow> bool"
  for net X s d where
  start: "journey net X s d s d"
| hop: "journey net X s d t c \<Longrightarrow> edge_at net (ps_node t) e \<Longrightarrow> neighbor_of net e \<notin> X \<Longrightarrow>
    journey net X s d (neighbor_of net e) (c + step_cost net t e)"

text \<open>
  A path whose consecutive stops are linked by edges, whose distances add up and which reaches
  station B with its last stop and not before.
\<close>

definition hop_ok :: "network \<Rightarrow> PathStop set \<Rightarrow> PathStopDist \<Rightarrow> PathStopDist \<Rightarrow> bool" where
  "hop_ok net X x y \<longleftrightarrow>
     (\<exists>e. edge_at net (ps_node (fst x)) e \<and> fst y = neighbor_of net e \<and> fst y \<notin> X \<and>
        unat (snd y) = unat (snd x) + step_cost net (fst x) e)"

definition valid_path ::
  "network \<Rightarrow> PathStop set \<Rightarrow> PathStopDist \<Rightarrow> node_ref \<Rightarrow> Path \<Rightarrow> bool" where
  "valid_path net X stopA stationB p \<longleftrightarrow>
     p \<noteq> [] \<and> hd p = stopA \<and> ps_node (fst (last p)) = stationB \<and>
     (\<forall>x \<in> set (butlast p). ps_node (fst x) \<noteq> stationB) \<and>
     (\<forall>(x, y) \<in> set (hops p). hop_ok net X x y)"

text \<open>No distance can wrap: every step costs at most \<open>max_step\<close>.\<close>

definition max_step :: "network \<Rightarrow> nat" where
  "max_step net = fold max (map (\<lambda>e. unat (ge_travelTime e)) (edges net)) 0 + 5"

definition no_overflow :: "network \<Rightarrow> nat \<Rightarrow> bool" where
  "no_overflow net d \<longleftrightarrow> d + (length (edges net) + 1) * max_step net < 2 ^ 32"

end
