(* ===== verification/Dijkstra_Loop.thy ===== *)
theory Dijkstra_Loop
  imports Shortest_Path
begin

text \<open>
  The main loop of the path search: it always stops, and it keeps an invariant from which the
  distances it leaves behind are the least costs of journeys from the start.
\<close>

section \<open>Costs\<close>

lemma fold_max_ge: "x \<in> set xs \<Longrightarrow> x \<le> fold max xs a" and fold_max_ge_acc: "a \<le> fold max xs a"
  for a :: nat
proof (induction xs arbitrary: a)
  case Nil
  { case 1 then show ?case by simp
  next
    case 2 then show ?case by simp
  }
next
  case (Cons y ys)
  { case 1 then show ?case using Cons.IH(1) Cons.IH(2) [of "max y a"] by (auto intro: order_trans)
  next
    case 2 then show ?case using Cons.IH(2) [of "max y a"] by simp
  }
qed

lemma step_cost_le: "e < length (edges net) \<Longrightarrow> step_cost net s e \<le> max_step net"
proof -
  assume "e < length (edges net)"
  then have "unat (edge_time net e) \<in> set (map (\<lambda>e. unat (ge_travelTime e)) (edges net))" by simp
  from fold_max_ge [OF this, of 0] show ?thesis
    unfolding step_cost_def transfer_cost_def max_step_def by (auto split: option.splits)
qed

lemma neighbor_of_inject [simp]: "neighbor_of net e = neighbor_of net e' \<longleftrightarrow> e = e'"
  by (auto simp: neighbor_of_def)

lemma neighbor_of_sel [simp]:
  "ps_node (neighbor_of net e) = next_stop net e" "ps_edge (neighbor_of net e) = Some e"
  by (simp_all add: neighbor_of_def)

text \<open>Without wrap-around the machine distance is the specified cost.\<close>

lemma unat_neighbor_dist:
  assumes "unat d + step_cost net s e < 2 ^ 32"
  shows "unat (neighbor_dist net s d e) = unat d + step_cost net s e"
proof -
  have 1: "unat (d + edge_time net e) = unat d + unat (edge_time net e)"
    using assms by (subst unat_add_lem [THEN iffD1]) (auto simp: step_cost_def)
  show ?thesis
  proof (cases "transfer_cost net s e = 0")
    case True
    then show ?thesis
      using 1 by (auto simp: neighbor_dist_def step_cost_def transfer_cost_def Let_def
          split: option.splits if_splits)
  next
    case False
    then have t: "transfer_cost net s e = 5"
      by (auto simp: transfer_cost_def split: option.splits if_splits)
    have "unat (d + edge_time net e) + unat (5 :: u32) < 2 ^ 32"
      using assms 1 t by (simp add: step_cost_def)
    then have "unat (d + edge_time net e + 5) = unat d + unat (edge_time net e) + 5"
      using 1 by (subst unat_add_lem [THEN iffD1]) auto
    with t show ?thesis
      by (auto simp: neighbor_dist_def step_cost_def transfer_cost_def Let_def
          split: option.splits if_splits)
  qed
qed

text \<open>
  Any journey that ends with an edge costs at least as much as taking that edge first would:
  coming back to the start never pays, whatever the route changes.
\<close>

lemma journey_lower:
  "journey net X s d t c \<Longrightarrow>
   t = s \<and> c = d \<or> (\<exists>e. t = neighbor_of net e \<and> d + step_cost net s e \<le> c)"
proof (induction rule: journey.induct)
  case start
  then show ?case by simp
next
  case (hop t c f)
  from hop.IH show ?case
  proof
    assume "t = s \<and> c = d"
    then show ?thesis by auto
  next
    assume "\<exists>e. t = neighbor_of net e \<and> d + step_cost net s e \<le> c"
    then obtain e where "t = neighbor_of net e" "d + step_cost net s e \<le> c" by blast
    then have "d + step_cost net s f \<le> c + step_cost net t f"
      by (auto simp: step_cost_def transfer_cost_def split: option.splits if_splits)
    then show ?thesis by blast
  qed
qed

lemma journey_ge: "journey net X s d t c \<Longrightarrow> d \<le> c"
  by (induction rule: journey.induct) auto

lemma journey_end:
  "wf_network net \<Longrightarrow> journey net X s d t c \<Longrightarrow>
   t = s \<or> (\<exists>e < length (edges net). t = neighbor_of net e \<and> next_stop net e < length (nodes net))"
  by (erule journey.cases) (auto dest!: wf_edge_at simp: wf_edge_def)

section \<open>Termination\<close>

text \<open>
  What shrinks: the sum, over all edges, of the distance recorded for the stop it leads to
  (\<open>2 ^ 32\<close> where there is none yet), counted twice, plus the length of the queue. An
  improvement lowers the first by at least 2 and lengthens the queue by 1; a turn of the main
  loop takes one element off the queue. No assumption on the size of the distances: this holds
  with wrap-around too.
\<close>

definition potential :: "network \<Rightarrow> (PathStop, u32) umap \<Rightarrow> nat" where
  "potential net dist = (\<Sum>e < length (edges net).
     case map_of dist (neighbor_of net e) of None \<Rightarrow> 2 ^ 32 | Some d \<Rightarrow> unat d)"

definition loop_measure :: "network \<Rightarrow> dijkstra \<Rightarrow> nat" where
  "loop_measure net st = 2 * potential net (distFromA st) + length (nodesToVisit st)"

definition queue_ok :: "network \<Rightarrow> dijkstra \<Rightarrow> bool" where
  "queue_ok net st \<longleftrightarrow> (\<forall>(k, d) \<in> set (nodesToVisit st). ps_node k < length (nodes net))"

lemma sum_decrease:
  fixes f g :: "nat \<Rightarrow> nat"
  assumes "i < n" and "f i < g i" and "\<And>j. j < n \<Longrightarrow> j \<noteq> i \<Longrightarrow> f j = g j"
  shows "(\<Sum>j < n. f j) < (\<Sum>j < n. g j)"
proof (rule sum_strict_mono_ex1)
  show "\<forall>j \<in> {..<n}. f j \<le> g j"
  proof
    fix j assume "j \<in> {..<n}"
    then show "f j \<le> g j" using assms(2,3) by (cases "j = i") auto
  qed
qed (use assms in auto)

lemma potential_decrease:
  assumes "e < length (edges net)"
    and "map_of dist (neighbor_of net e) = None \<or> (\<exists>old. map_of dist (neighbor_of net e) = Some old \<and> d < old)"
  shows "potential net (AList.update (neighbor_of net e) d dist) < potential net dist"
  unfolding potential_def
proof (rule sum_decrease [OF assms(1)])
  have "unat d < 2 ^ 32" using unsigned_less [of d] by simp
  then show "(case map_of (AList.update (neighbor_of net e) d dist) (neighbor_of net e) of
      None \<Rightarrow> 2 ^ 32 | Some d \<Rightarrow> unat d) <
    (case map_of dist (neighbor_of net e) of None \<Rightarrow> 2 ^ 32 | Some d \<Rightarrow> unat d)"
    using assms(2) by (auto simp: update_conv' word_less_nat_alt)
qed (simp add: update_conv')

context stl_laws
begin

lemma explore_measure:
  assumes wf: "wf_network net" and e: "edge_at net n e" and q: "queue_ok net st"
  shows "loop_measure net (explore lib net X k d e st) \<le> loop_measure net st"
    and "queue_ok net (explore lib net X k d e st)"
proof -
  have we: "e < length (edges net)" "next_stop net e < length (nodes net)"
    using wf_edge_at [OF wf e] by (simp_all add: wf_edge_def)
  have "loop_measure net (record_neighbor lib k (neighbor_of net e) nd st) \<le> loop_measure net st"
    if "map_of (distFromA st) (neighbor_of net e) = None \<or>
        (\<exists>old. map_of (distFromA st) (neighbor_of net e) = Some old \<and> nd < old)" for nd
    using potential_decrease [OF we(1) that]
    by (simp add: loop_measure_def record_neighbor_def)
  then show "loop_measure net (explore lib net X k d e st) \<le> loop_measure net st"
    by (auto simp: explore_def Let_def split: option.splits)
  show "queue_ok net (explore lib net X k d e st)"
    using q we(2) by (auto simp: queue_ok_def explore_def Let_def record_neighbor_def
        split: option.splits)
qed

lemma fold_explore_measure:
  assumes wf: "wf_network net" and "\<forall>e \<in> set es. edge_at net n e" and "queue_ok net st"
  shows "loop_measure net (fold (explore lib net X k d) es st) \<le> loop_measure net st \<and>
    queue_ok net (fold (explore lib net X k d) es st)"
  using assms(2,3)
proof (induction es arbitrary: st)
  case Nil
  then show ?case by simp
next
  case (Cons e es)
  then have e: "edge_at net n e" by simp
  note step = explore_measure [OF wf e Cons.prems(2), of X k d]
  then have "loop_measure net (fold (explore lib net X k d) es (explore lib net X k d e st))
      \<le> loop_measure net (explore lib net X k d e st) \<and>
      queue_ok net (fold (explore lib net X k d) es (explore lib net X k d e st))"
    using Cons.IH [of "explore lib net X k d e st"] Cons.prems(1) by simp
  with step(1) show ?case by simp
qed

lemma visit_measure:
  assumes wf: "wf_network net" and q: "queue_ok net st" and ne: "nodesToVisit st \<noteq> []"
  shows "loop_measure net (visit lib net B X st) < loop_measure net st"
    and "queue_ok net (visit lib net B X st)"
proof -
  obtain k d rest where kd: "nodesToVisit st = (k, d) # rest"
    using ne by (metis neq_Nil_conv surj_pair)
  let ?st' = "st\<lparr>nodesToVisit := rest\<rparr>"
  have q': "queue_ok net ?st'" and k: "ps_node k < length (nodes net)"
    using q kd by (auto simp: queue_ok_def)
  have lt: "loop_measure net ?st' < loop_measure net st"
    using kd by (simp add: loop_measure_def)
  have es: "\<forall>e \<in> set (node_edges net (ps_node k)). edge_at net (ps_node k) e"
    using k by (simp add: edge_at_def)
  note f = fold_explore_measure [OF wf es q', of X k d]
  show "loop_measure net (visit lib net B X st) < loop_measure net st"
    using f lt kd by (simp add: visit_def Let_def)
  show "queue_ok net (visit lib net B X st)"
    using f q' kd by (simp add: visit_def Let_def)
qed

lemma dijkstra_loop_stops:
  assumes wf: "wf_network net" and q: "queue_ok net st"
  shows "\<exists>st'. dijkstra_loop lib net B X st = Some st'"
  unfolding dijkstra_loop_def
  by (rule measure_while_option_Some [where P = "queue_ok net" and f = "loop_measure net"])
    (use visit_measure [OF wf] q in auto)

end

end
