(* ===== verification/Dijkstra_Correct.thy ===== *)
theory Dijkstra_Correct
  imports Dijkstra_Loop
begin

text \<open>
  The path search is correct: what the main loop leaves behind, station B included, are the
  least costs of journeys from the start, and the path assembled from it is a valid path of
  least cost. The invariant of the main loop has three parts, each kept by one turn of the
  inner loop: \<open>core\<close> (every recorded distance is the cost of a journey, and the previous
  stops lead back to the start), \<open>frontier\<close> (a stop whose edges have not been explored at its
  current distance is still in the queue) and \<open>direct\<close> (the stops next to the start were
  reached from the start itself).
\<close>

section \<open>The invariant\<close>

abbreviation dist_of :: "dijkstra \<Rightarrow> PathStop \<Rightarrow> u32 option" where
  "dist_of st \<equiv> map_of (distFromA st)"

abbreviation prev_of :: "dijkstra \<Rightarrow> PathStop \<Rightarrow> PathStop option" where
  "prev_of st \<equiv> map_of (previousStop st)"

abbreviation queued :: "dijkstra \<Rightarrow> PathStopDist set" where
  "queued st \<equiv> set (nodesToVisit st)"

definition dist_bound :: "network \<Rightarrow> u32 \<Rightarrow> dijkstra \<Rightarrow> nat" where
  "dist_bound net d0 st = unat d0 + (length (distFromA st) - 1) * max_step net"

definition entry_ok ::
  "network \<Rightarrow> PathStop set \<Rightarrow> PathStop \<Rightarrow> u32 \<Rightarrow> dijkstra \<Rightarrow> PathStop \<Rightarrow> u32 \<Rightarrow> bool" where
  "entry_ok net X s d0 st k d \<longleftrightarrow>
     journey net X s (unat d0) k (unat d) \<and> unat d \<le> dist_bound net d0 st \<and>
     (\<exists>d'. dist_of st k = Some d' \<and> d' \<le> d)"

definition link_ok ::
  "network \<Rightarrow> PathStop set \<Rightarrow> node_ref \<Rightarrow> dijkstra \<Rightarrow> PathStop \<Rightarrow> u32 \<Rightarrow> bool" where
  "link_ok net X B st k d \<longleftrightarrow>
     (\<exists>p dp e. prev_of st k = Some p \<and> ps_node p \<noteq> B \<and> dist_of st p = Some dp \<and>
        edge_at net (ps_node p) e \<and> k = neighbor_of net e \<and> k \<notin> X \<and>
        unat dp + step_cost net p e \<le> unat d)"

inductive back_chain :: "(PathStop \<Rightarrow> PathStop option) \<Rightarrow> PathStop \<Rightarrow> PathStop \<Rightarrow> bool"
  for prev s where
  chain_start: "back_chain prev s s"
| chain_step: "prev k = Some p \<Longrightarrow> back_chain prev s p \<Longrightarrow> back_chain prev s k"

definition core ::
  "network \<Rightarrow> PathStop set \<Rightarrow> node_ref \<Rightarrow> PathStop \<Rightarrow> u32 \<Rightarrow> dijkstra \<Rightarrow> bool" where
  "core net X B s d0 st \<longleftrightarrow>
     umap_ok (distFromA st) \<and> dist_of st s = Some d0 \<and> prev_of st s = None \<and>
     (\<forall>k d. dist_of st k = Some d \<longrightarrow>
        entry_ok net X s d0 st k d \<and> (k \<noteq> s \<longrightarrow> link_ok net X B st k d) \<and>
        back_chain (prev_of st) s k) \<and>
     (\<forall>(k, d) \<in> queued st. entry_ok net X s d0 st k d)"

definition improves :: "dijkstra \<Rightarrow> dijkstra \<Rightarrow> bool" where
  "improves st st' \<longleftrightarrow>
     (\<forall>k d. dist_of st' k = Some d \<longrightarrow> dist_of st k = Some d \<or> (k, d) \<in> queued st') \<and>
     (\<forall>k d. dist_of st k = Some d \<longrightarrow> (\<exists>d' \<le> d. dist_of st' k = Some d')) \<and>
     queued st \<subseteq> queued st'"

definition relaxed :: "network \<Rightarrow> dijkstra \<Rightarrow> PathStop \<Rightarrow> u32 \<Rightarrow> edge_ref \<Rightarrow> bool" where
  "relaxed net st k d e \<longleftrightarrow>
     (\<exists>d'. dist_of st (neighbor_of net e) = Some d' \<and> unat d' \<le> unat d + step_cost net k e)"

definition settled ::
  "network \<Rightarrow> PathStop set \<Rightarrow> node_ref \<Rightarrow> dijkstra \<Rightarrow> PathStop \<Rightarrow> u32 \<Rightarrow> bool" where
  "settled net X B st k d \<longleftrightarrow> ps_node k = B \<or>
     (\<forall>e. edge_at net (ps_node k) e \<longrightarrow> neighbor_of net e \<notin> X \<longrightarrow> relaxed net st k d e)"

definition frontier :: "network \<Rightarrow> PathStop set \<Rightarrow> node_ref \<Rightarrow> dijkstra \<Rightarrow> bool" where
  "frontier net X B st \<longleftrightarrow>
     (\<forall>k d. dist_of st k = Some d \<longrightarrow> (k, d) \<in> queued st \<or> settled net X B st k d)"

definition direct :: "network \<Rightarrow> PathStop set \<Rightarrow> PathStop \<Rightarrow> u32 \<Rightarrow> dijkstra \<Rightarrow> bool" where
  "direct net X s d0 st \<longleftrightarrow>
     (\<forall>e. edge_at net (ps_node s) e \<longrightarrow> neighbor_of net e \<notin> X \<longrightarrow> neighbor_of net e \<noteq> s \<longrightarrow>
        prev_of st (neighbor_of net e) = Some s \<and> relaxed net st s d0 e)"

section \<open>One improvement\<close>

lemma improves_refl [simp]: "improves st st"
  by (auto simp: improves_def)

lemma improves_trans: "improves a b \<Longrightarrow> improves b c \<Longrightarrow> improves a c"
  unfolding improves_def by (meson order_trans subset_eq)

lemma relaxed_improves: "improves st st' \<Longrightarrow> relaxed net st k d e \<Longrightarrow> relaxed net st' k d e"
  unfolding improves_def relaxed_def by (meson order_trans word_le_nat_alt)

lemma settled_improves:
  "improves st st' \<Longrightarrow> settled net X B st k d \<Longrightarrow> settled net X B st' k d"
  unfolding settled_def using relaxed_improves by blast

text \<open>
  Redirecting the previous stop of \<open>k\<close> to \<open>p\<close> keeps every chain intact when the chain of
  \<open>p\<close> cannot pass through \<open>k\<close>, because the distances along it stay below that of \<open>k\<close>.
\<close>

lemma chain_below:
  assumes "back_chain (prev_of st) s x" and core: "core net X B s d0 st"
    and "dist_of st x = Some dx" and "\<And>dk. dist_of st k = Some dk \<Longrightarrow> dx < dk"
  shows "back_chain ((prev_of st)(k \<mapsto> p)) s x"
  using assms(1,3,4)
proof (induction arbitrary: dx rule: back_chain.induct)
  case chain_start
  show ?case by (rule back_chain.chain_start)
next
  case (chain_step x q)
  have "x \<noteq> s" using chain_step.hyps core by (auto simp: core_def)
  then obtain dq e where dq: "dist_of st q = Some dq" "unat dq + step_cost net q e \<le> unat dx"
    using core chain_step.hyps(1) chain_step.prems(1)
    by (fastforce simp: core_def link_ok_def)
  have "dq \<le> dx" using dq(2) by (simp add: word_le_nat_alt)
  then have "back_chain ((prev_of st)(k \<mapsto> p)) s q"
    using chain_step.IH [OF dq(1)] chain_step.prems(2) by (blast intro: le_less_trans)
  moreover have "x \<noteq> k" using chain_step.prems by auto
  moreover have "((prev_of st)(k \<mapsto> p)) x = Some q" if "x \<noteq> k" using that chain_step.hyps(1) by simp
  ultimately show ?case by (blast intro: back_chain.chain_step)
qed

lemma chain_redirect:
  assumes "back_chain prev s x" and "back_chain (prev(k \<mapsto> p)) s k"
  shows "back_chain (prev(k \<mapsto> p)) s x"
  using assms(1)
proof (induction rule: back_chain.induct)
  case chain_start
  show ?case by (rule back_chain.chain_start)
next
  case (chain_step x q)
  show ?case
  proof (cases "x = k")
    case True
    show ?thesis unfolding True by (rule assms(2))
  next
    case False
    then have "(prev(k \<mapsto> p)) x = Some q" using chain_step.hyps by simp
    then show ?thesis using chain_step.IH by (rule back_chain.chain_step)
  qed
qed

lemma length_update_ge: "length (AList.update k v m) \<ge> length m"
  by (induction m) auto

lemma length_update_new: "map_of m k = None \<Longrightarrow> length (AList.update k v m) = Suc (length m)"
  by (induction m) (auto split: if_splits)

text \<open>No more stops than edges are ever recorded, apart from the start.\<close>

lemma core_length:
  assumes wf: "wf_network net" and c: "core net X B s d0 st"
  shows "1 \<le> length (distFromA st)" and "length (distFromA st) \<le> length (edges net) + 1"
proof -
  show "1 \<le> length (distFromA st)" using c by (cases "distFromA st") (auto simp: core_def)
  have "set (map fst (distFromA st)) \<subseteq> insert s (neighbor_of net ` {..<length (edges net)})"
  proof
    fix k assume "k \<in> set (map fst (distFromA st))"
    then obtain d where "dist_of st k = Some d"
      using c by (auto simp: core_def umap_in_iff)
    then have "k \<noteq> s \<Longrightarrow> link_ok net X B st k d" using c by (simp add: core_def)
    then show "k \<in> insert s (neighbor_of net ` {..<length (edges net)})"
      using wf_edge_at [OF wf] by (fastforce simp: link_ok_def wf_edge_def)
  qed
  then have "card (set (map fst (distFromA st))) \<le> card (insert s (neighbor_of net ` {..<length (edges net)}))"
    by (intro card_mono) auto
  also have "\<dots> \<le> length (edges net) + 1"
    using card_image_le [of "{..<length (edges net)}" "neighbor_of net"]
    by (simp add: card_insert_if)
  finally show "length (distFromA st) \<le> length (edges net) + 1"
    using c distinct_card [of "map fst (distFromA st)"] by (simp add: core_def umap_ok_def)
qed

lemma entry_no_wrap:
  assumes wf: "wf_network net" and c: "core net X B s d0 st"
    and no: "no_overflow net (unat d0)" and en: "entry_ok net X s d0 st k d"
    and e: "edge_at net (ps_node k) e"
  shows "unat (neighbor_dist net k d e) = unat d + step_cost net k e"
proof (rule unat_neighbor_dist)
  have "e < length (edges net)" using wf_edge_at [OF wf e] by (simp add: wf_edge_def)
  then have sc: "step_cost net k e \<le> max_step net" by (rule step_cost_le)
  have "(length (distFromA st) - 1) * max_step net \<le> length (edges net) * max_step net"
    using core_length [OF wf c] by (intro mult_le_mono1) simp
  moreover have "unat d \<le> unat d0 + (length (distFromA st) - 1) * max_step net"
    using en by (simp add: entry_ok_def dist_bound_def)
  moreover have "unat d0 + (length (edges net) * max_step net + max_step net) < 2 ^ 32"
    using no by (simp add: no_overflow_def)
  ultimately show "unat d + step_cost net k e < 2 ^ 32" using sc by linarith
qed

context stl_laws
begin

lemma record_fields [simp]:
  "map_of (AList.update k d m) = (map_of m)(k \<mapsto> d)"
  "prev_of (record_neighbor lib p k d st) = (prev_of st)(k \<mapsto> p)"
  "queued (record_neighbor lib p k d st) = insert (k, d) (queued st)"
  "distFromA (record_neighbor lib p k d st) = AList.update k d (distFromA st)"
  by (simp_all add: record_neighbor_def update_conv')

lemma record_improves:
  "(\<And>old. dist_of st k = Some old \<Longrightarrow> d < old) \<Longrightarrow> improves st (record_neighbor lib p k d st)"
  by (auto simp: improves_def)

lemma entry_improves:
  assumes "improves st st'" and "length (distFromA st) \<le> length (distFromA st')"
    and "entry_ok net X s d0 st k d"
  shows "entry_ok net X s d0 st' k d"
proof -
  have "dist_bound net d0 st \<le> dist_bound net d0 st'"
    using assms(2) by (simp add: dist_bound_def diff_le_mono mult_le_mono1)
  then show ?thesis
    using assms(1,3) unfolding entry_ok_def improves_def by (meson order_trans)
qed

lemma record_link_ok:
  assumes "link_ok net X B st x dx" and "x \<noteq> k"
    and "\<And>old. dist_of st k = Some old \<Longrightarrow> d < old"
  shows "link_ok net X B (record_neighbor lib p k d st) x dx"
proof -
  obtain q dq e where q: "prev_of st x = Some q" "ps_node q \<noteq> B" "dist_of st q = Some dq"
    "edge_at net (ps_node q) e" "x = neighbor_of net e" "x \<notin> X"
    "unat dq + step_cost net q e \<le> unat dx"
    using assms(1) by (auto simp: link_ok_def)
  have "\<exists>dq'. (dist_of (record_neighbor lib p k d st)) q = Some dq' \<and> unat dq' \<le> unat dq"
    using q(3) assms(3) by (auto simp: word_le_nat_alt word_less_nat_alt less_imp_le)
  then obtain dq' where "(dist_of (record_neighbor lib p k d st)) q = Some dq'" "unat dq' \<le> unat dq"
    by blast
  then show ?thesis
    unfolding link_ok_def using q assms(2) by (intro exI [of _ q] exI [of _ dq'] exI [of _ e]) auto
qed

text \<open>The new entry is that of a journey, and within the bound on the distances.\<close>

lemma record_entry:
  assumes wf: "wf_network net" and c: "core net X B s d0 st" and no: "no_overflow net (unat d0)"
    and cur: "entry_ok net X s d0 st p dp"
    and e: "edge_at net (ps_node p) e" and k: "k = neighbor_of net e" "k \<notin> X"
    and d: "d = neighbor_dist net p dp e" and better: "\<And>old. dist_of st k = Some old \<Longrightarrow> d < old"
  shows "journey net X s (unat d0) k (unat d)" and "entry_ok net X s d0 (record_neighbor lib p k d st) k d"
    (is "entry_ok _ _ _ _ ?st' _ _")
proof -
  have ud: "unat d = unat dp + step_cost net p e"
    unfolding d by (rule entry_no_wrap [OF wf c no cur e])
  show jd: "journey net X s (unat d0) k (unat d)"
    unfolding ud k(1) using cur e k by (auto simp: entry_ok_def intro: journey.hop)
  have "unat d \<le> dist_bound net d0 ?st'"
  proof (cases "dist_of st k")
    case None
    have "step_cost net p e \<le> max_step net"
      using wf_edge_at [OF wf e] by (intro step_cost_le) (simp add: wf_edge_def)
    moreover have "dist_bound net d0 ?st' = dist_bound net d0 st + max_step net"
      using core_length(1) [OF wf c] None
      by (cases "length (distFromA st)") (simp_all add: dist_bound_def length_update_new)
    ultimately show ?thesis using cur ud by (simp add: entry_ok_def)
  next
    case (Some old)
    then have "entry_ok net X s d0 st k old" using c by (simp add: core_def)
    moreover have "length (distFromA st) \<le> length (distFromA ?st')" by (simp add: length_update_ge)
    ultimately show ?thesis
      using better [OF Some]
        entry_improves [OF record_improves [where st = st and k = k and d = d and p = p, OF better],
          of net X s d0 k old]
      by (simp add: entry_ok_def word_less_nat_alt)
  qed
  then show "entry_ok net X s d0 ?st' k d" using jd by (simp add: entry_ok_def)
qed

text \<open>The new link leads back to the start.\<close>

lemma record_chain:
  assumes wf: "wf_network net" and c: "core net X B s d0 st" and no: "no_overflow net (unat d0)"
    and cur: "entry_ok net X s d0 st p dp" "ps_node p \<noteq> B"
    and e: "edge_at net (ps_node p) e" and k: "k = neighbor_of net e" "k \<notin> X"
    and d: "d = neighbor_dist net p dp e" and better: "\<And>old. dist_of st k = Some old \<Longrightarrow> d < old"
  shows "back_chain (prev_of (record_neighbor lib p k d st)) s k"
    and "link_ok net X B (record_neighbor lib p k d st) k d"
proof -
  have ud: "unat d = unat dp + step_cost net p e"
    unfolding d by (rule entry_no_wrap [OF wf c no cur(1) e])
  obtain dp' where dp': "dist_of st p = Some dp'" "dp' \<le> dp" using cur(1) by (auto simp: entry_ok_def)
  have below: "dp' < dk" if "dist_of st k = Some dk" for dk
  proof -
    have "unat dp' \<le> unat d" using dp'(2) ud by (simp add: word_le_nat_alt)
    also have "unat d < unat dk" using better [OF that] by (simp add: word_less_nat_alt)
    finally show ?thesis by (simp add: word_less_nat_alt)
  qed
  have pk: "p \<noteq> k" using below dp'(1) by blast
  have "back_chain (prev_of st) s p" using c dp'(1) by (simp add: core_def)
  from chain_below [OF this c dp'(1) below, where p = p]
  have "back_chain (prev_of (record_neighbor lib p k d st)) s p" by simp
  then show "back_chain (prev_of (record_neighbor lib p k d st)) s k"
    by (rule back_chain.chain_step [rotated]) simp
  show "link_ok net X B (record_neighbor lib p k d st) k d"
    unfolding link_ok_def using cur(2) e k dp' pk ud
    by (intro exI [of _ p] exI [of _ dp'] exI [of _ e]) (auto simp: word_le_nat_alt)
qed

lemma record_core:
  assumes wf: "wf_network net" and c: "core net X B s d0 st"
    and no: "no_overflow net (unat d0)"
    and cur: "entry_ok net X s d0 st p dp" "ps_node p \<noteq> B"
    and e: "edge_at net (ps_node p) e" and k: "k = neighbor_of net e" "k \<notin> X"
    and d: "d = neighbor_dist net p dp e" and better: "\<And>old. dist_of st k = Some old \<Longrightarrow> d < old"
  shows "core net X B s d0 (record_neighbor lib p k d st)" (is "core _ _ _ _ _ ?st'")
proof -
  note imp = record_improves [where st = st and k = k and d = d and p = p, OF better]
  have len: "length (distFromA st) \<le> length (distFromA ?st')"
    by (simp add: length_update_ge)
  note new = record_entry [OF wf c no cur(1) e k d better] and chain_k = record_chain [OF wf c no cur e k d better]
  have ks: "k \<noteq> s"
  proof
    assume "k = s"
    then have "d < d0" using better c by (simp add: core_def)
    then show False using journey_ge [OF new(1)] by (simp add: word_less_nat_alt)
  qed
  have "entry_ok net X s d0 ?st' x dx \<and> (x \<noteq> s \<longrightarrow> link_ok net X B ?st' x dx) \<and>
      back_chain (prev_of ?st') s x" if x: "dist_of ?st' x = Some dx" for x dx
  proof (cases "x = k")
    case True
    with x new(2) chain_k show ?thesis by simp
  next
    case False
    with x have ox: "dist_of st x = Some dx" by simp
    then have "entry_ok net X s d0 st x dx" "x \<noteq> s \<longrightarrow> link_ok net X B st x dx"
      "back_chain (prev_of st) s x" using c by (simp_all add: core_def)
    then show ?thesis
      using entry_improves [OF imp len] record_link_ok [OF _ False better]
        chain_redirect [of "prev_of st" s x k p] chain_k(1) by simp
  qed
  moreover have "entry_ok net X s d0 ?st' x dx" if "(x, dx) \<in> queued ?st'" for x dx
  proof (cases "(x, dx) = (k, d)")
    case True
    with new(2) show ?thesis by simp
  next
    case False
    with that have "(x, dx) \<in> queued st" by auto
    then have "entry_ok net X s d0 st x dx" using c by (auto simp: core_def)
    then show ?thesis using entry_improves [OF imp len, of net X s d0 x dx] by simp
  qed
  ultimately show ?thesis
    using c ks unfolding core_def by auto
qed

section \<open>One turn of the inner loop\<close>

lemma explore_cases:
  obtains (skip) "explore lib net X p dp e st = st"
      "neighbor_of net e \<in> X \<or>
       (\<exists>old. dist_of st (neighbor_of net e) = Some old \<and> old \<le> neighbor_dist net p dp e)"
    | (improve) "explore lib net X p dp e st =
        record_neighbor lib p (neighbor_of net e) (neighbor_dist net p dp e) st"
      "neighbor_of net e \<notin> X"
      "\<And>old. dist_of st (neighbor_of net e) = Some old \<Longrightarrow> neighbor_dist net p dp e < old"
  by (cases "neighbor_of net e \<in> X"; cases "dist_of st (neighbor_of net e)")
    (fastforce simp: explore_def Let_def not_less split: if_splits)+

lemma explore_improves: "improves st (explore lib net X p dp e st)"
  by (rule explore_cases [of net X p dp e st]) (auto simp: record_improves)

lemma explore_length: "length (distFromA st) \<le> length (distFromA (explore lib net X p dp e st))"
  by (rule explore_cases [of net X p dp e st])
    (auto simp: record_neighbor_def length_update_ge)

lemma explore_core:
  assumes "wf_network net" and "no_overflow net (unat d0)" and "ps_node p \<noteq> B"
    and "core net X B s d0 st" and "entry_ok net X s d0 st p dp"
    and "edge_at net (ps_node p) e"
  shows "core net X B s d0 (explore lib net X p dp e st)"
    and "entry_ok net X s d0 (explore lib net X p dp e st) p dp"
proof -
  show "core net X B s d0 (explore lib net X p dp e st)"
  proof (rule explore_cases [of net X p dp e st])
    assume i: "explore lib net X p dp e st =
        record_neighbor lib p (neighbor_of net e) (neighbor_dist net p dp e) st"
      "neighbor_of net e \<notin> X"
      "\<And>old. dist_of st (neighbor_of net e) = Some old \<Longrightarrow> neighbor_dist net p dp e < old"
    show ?thesis
      unfolding i(1)
      by (rule record_core [OF assms(1,4,2,5,3,6) refl i(2) refl i(3)])
  qed (use assms(4) in simp)
  show "entry_ok net X s d0 (explore lib net X p dp e st) p dp"
    by (rule entry_improves [OF explore_improves explore_length assms(5)])
qed

text \<open>The edge just explored is relaxed.\<close>

lemma explore_relaxed:
  assumes "wf_network net" and "no_overflow net (unat d0)"
    and "core net X B s d0 st" and "entry_ok net X s d0 st p dp"
    and "edge_at net (ps_node p) e" and "neighbor_of net e \<notin> X"
  shows "relaxed net (explore lib net X p dp e st) p dp e"
proof -
  note nd = entry_no_wrap [OF assms(1,3,2,4,5)]
  show ?thesis
    by (rule explore_cases [of net X p dp e st])
      (use assms(6) nd in \<open>auto simp: relaxed_def word_le_nat_alt record_neighbor_def\<close>)
qed

text \<open>A stop reached directly from the start is never reached in a better way later on.\<close>

lemma explore_direct:
  assumes wf: "wf_network net" and no: "no_overflow net (unat d0)"
    and c: "core net X B s d0 st" and en: "entry_ok net X s d0 st p dp"
    and e: "edge_at net (ps_node p) e" and dir: "direct net X s d0 st"
  shows "direct net X s d0 (explore lib net X p dp e st)"
proof (rule explore_cases [of net X p dp e st])
  let ?k = "neighbor_of net e" and ?d = "neighbor_dist net p dp e"
  assume i: "explore lib net X p dp e st = record_neighbor lib p ?k ?d st" "?k \<notin> X"
    "\<And>old. dist_of st ?k = Some old \<Longrightarrow> ?d < old"
  have "journey net X s (unat d0) ?k (unat ?d)"
    unfolding entry_no_wrap [OF wf c no en e]
    using en e i(2) by (auto simp: entry_ok_def intro: journey.hop)
  then have low: "?k = s \<or> unat d0 + step_cost net s e \<le> unat ?d"
    using journey_lower by fastforce
  have "\<not> (edge_at net (ps_node s) e \<and> ?k \<noteq> s)"
  proof
    assume a: "edge_at net (ps_node s) e \<and> ?k \<noteq> s"
    then obtain old where "dist_of st ?k = Some old" "unat old \<le> unat d0 + step_cost net s e"
      using dir i(2) by (auto simp: direct_def relaxed_def)
    with i(3) low a show False by (fastforce simp: word_less_nat_alt)
  qed
  then show ?thesis
    using dir relaxed_improves [OF record_improves [where st = st and k = ?k and d = ?d, OF i(3)]]
    unfolding i(1) direct_def by auto
qed (use dir in simp)

section \<open>One turn of the main loop\<close>

lemma fold_explore:
  assumes "wf_network net" and "no_overflow net (unat d0)" and "ps_node p \<noteq> B"
    and "core net X B s d0 st" and "entry_ok net X s d0 st p dp"
    and "\<forall>e \<in> set es. edge_at net (ps_node p) e"
  shows "core net X B s d0 (fold (explore lib net X p dp) es st) \<and>
    entry_ok net X s d0 (fold (explore lib net X p dp) es st) p dp \<and>
    improves st (fold (explore lib net X p dp) es st) \<and>
    (\<forall>e \<in> set es. neighbor_of net e \<notin> X \<longrightarrow>
       relaxed net (fold (explore lib net X p dp) es st) p dp e) \<and>
    (direct net X s d0 st \<longrightarrow> direct net X s d0 (fold (explore lib net X p dp) es st)) \<and>
    (p = s \<and> (\<forall>k q. prev_of st k = Some q \<longrightarrow> q = s) \<longrightarrow>
       (\<forall>k q. prev_of (fold (explore lib net X p dp) es st) k = Some q \<longrightarrow> q = s))"
  using assms(4,5,6)
proof (induction es arbitrary: st)
  case Nil
  then show ?case by simp
next
  case (Cons e es)
  let ?st1 = "explore lib net X p dp e st"
  have e: "edge_at net (ps_node p) e" and es: "\<forall>e \<in> set es. edge_at net (ps_node p) e"
    using Cons.prems(3) by simp_all
  note st1 = explore_core [OF assms(1,2,3) Cons.prems(1,2) e]
  note ih = Cons.IH [OF st1 es]
  have imp: "improves st (fold (explore lib net X p dp) es ?st1)"
    using ih explore_improves improves_trans by blast
  have rel: "neighbor_of net e \<notin> X \<longrightarrow> relaxed net (fold (explore lib net X p dp) es ?st1) p dp e"
    using explore_relaxed [OF assms(1,2) Cons.prems(1,2) e] ih relaxed_improves by blast
  have prev: "p = s \<and> (\<forall>k q. prev_of st k = Some q \<longrightarrow> q = s) \<longrightarrow>
      (\<forall>k q. prev_of ?st1 k = Some q \<longrightarrow> q = s)"
    by (rule explore_cases [of net X p dp e st]) (auto split: if_splits)
  have prev': "p = s \<and> (\<forall>k q. prev_of st k = Some q \<longrightarrow> q = s) \<longrightarrow>
      (\<forall>k q. prev_of (fold (explore lib net X p dp) es ?st1) k = Some q \<longrightarrow> q = s)"
    using ih prev by blast
  have rel': "\<forall>f \<in> set (e # es). neighbor_of net f \<notin> X \<longrightarrow>
      relaxed net (fold (explore lib net X p dp) es ?st1) p dp f"
    using ih rel by (metis set_ConsD)
  have dir: "direct net X s d0 st \<longrightarrow> direct net X s d0 (fold (explore lib net X p dp) es ?st1)"
    using ih explore_direct [OF assms(1,2) Cons.prems(1,2) e] by blast
  show ?case
    unfolding fold_Cons comp_apply using ih imp rel' dir prev' by blast
qed

definition loop_inv ::
  "network \<Rightarrow> PathStop set \<Rightarrow> node_ref \<Rightarrow> PathStop \<Rightarrow> u32 \<Rightarrow> dijkstra \<Rightarrow> bool" where
  "loop_inv net X B s d0 st \<longleftrightarrow>
     core net X B s d0 st \<and> frontier net X B st \<and>
     (direct net X s d0 st \<or> st = dijkstra_init lib (s, d0))"

lemma init_fields [simp]:
  "distFromA (dijkstra_init lib (s, d0)) = [(s, d0)]"
  "previousStop (dijkstra_init lib (s, d0)) = []"
  "queued (dijkstra_init lib (s, d0)) = {(s, d0)}"
  by (simp_all add: dijkstra_init_def)

lemma loop_inv_init: "loop_inv net X B s d0 (dijkstra_init lib (s, d0))"
proof -
  have "entry_ok net X s d0 (dijkstra_init lib (s, d0)) s d0"
    unfolding entry_ok_def using journey.start [of net X s "unat d0"]
    by (simp add: dist_bound_def)
  moreover have "back_chain Map.empty s s" by (rule back_chain.chain_start)
  ultimately show ?thesis by (simp add: loop_inv_def core_def frontier_def umap_ok_def)
qed

lemma pop_core:
  assumes c: "core net X B s d0 st" and q: "nodesToVisit st = (k, d) # rest"
  shows "core net X B s d0 (st\<lparr>nodesToVisit := rest\<rparr>)"
    and "entry_ok net X s d0 (st\<lparr>nodesToVisit := rest\<rparr>) k d"
proof -
  have e: "entry_ok net X s d0 (st\<lparr>nodesToVisit := rest\<rparr>) x dx \<longleftrightarrow> entry_ok net X s d0 st x dx" for x dx
    by (simp add: entry_ok_def dist_bound_def)
  have l: "link_ok net X B (st\<lparr>nodesToVisit := rest\<rparr>) x dx \<longleftrightarrow> link_ok net X B st x dx" for x dx
    by (simp add: link_ok_def)
  show "core net X B s d0 (st\<lparr>nodesToVisit := rest\<rparr>)"
    using c q by (simp add: core_def e l)
  show "entry_ok net X s d0 (st\<lparr>nodesToVisit := rest\<rparr>) k d"
    unfolding e using c q by (simp add: core_def)
qed

lemma pop_frontier:
  assumes f: "frontier net X B st" and q: "nodesToVisit st = (k, d) # rest"
    and imp: "improves (st\<lparr>nodesToVisit := rest\<rparr>) st'" and k: "settled net X B st' k d"
  shows "frontier net X B st'"
  unfolding frontier_def
proof (intro allI impI)
  fix x dx assume "dist_of st' x = Some dx"
  then consider "(x, dx) \<in> queued st'" | "dist_of st x = Some dx"
    using imp unfolding improves_def by auto
  then show "(x, dx) \<in> queued st' \<or> settled net X B st' x dx"
  proof cases
    case 2
    then consider "(x, dx) = (k, d)" | "(x, dx) \<in> set rest" | "settled net X B st x dx"
      using f q by (auto simp: frontier_def)
    then show ?thesis
    proof cases
      case 3
      then have "settled net X B (st\<lparr>nodesToVisit := rest\<rparr>) x dx"
        by (simp add: settled_def relaxed_def)
      then show ?thesis using settled_improves [OF imp] by blast
    qed (use k imp in \<open>auto simp: improves_def\<close>)
  qed simp
qed

text \<open>The first visit, of the start, links and relaxes all its neighbours.\<close>

lemma first_visit_direct:
  assumes c: "core net X B s d0 st" and prev: "\<forall>x y. prev_of st x = Some y \<longrightarrow> y = s"
    and rel: "\<And>e. edge_at net (ps_node s) e \<Longrightarrow> neighbor_of net e \<notin> X \<Longrightarrow> relaxed net st s d0 e"
  shows "direct net X s d0 st"
  unfolding direct_def
proof (intro allI impI)
  fix e assume e: "edge_at net (ps_node s) e" "neighbor_of net e \<notin> X" "neighbor_of net e \<noteq> s"
  then have r: "relaxed net st s d0 e" using rel by simp
  then obtain dn where "dist_of st (neighbor_of net e) = Some dn" by (auto simp: relaxed_def)
  then have "link_ok net X B st (neighbor_of net e) dn" using c e(3) unfolding core_def by blast
  then show "prev_of st (neighbor_of net e) = Some s \<and> relaxed net st s d0 e"
    using prev r by (auto simp: link_ok_def)
qed

lemma visit_loop_inv:
  assumes wf: "wf_network net" and no: "no_overflow net (unat d0)"
    and sB: "ps_node s \<noteq> B" and q: "queue_ok net st"
    and inv: "loop_inv net X B s d0 st" and ne: "nodesToVisit st \<noteq> []"
  shows "loop_inv net X B s d0 (visit lib net B X st)"
proof -
  obtain k d rest where kd: "nodesToVisit st = (k, d) # rest"
    using ne by (metis neq_Nil_conv surj_pair)
  let ?st0 = "st\<lparr>nodesToVisit := rest\<rparr>"
  have c: "core net X B s d0 st" and f: "frontier net X B st" using inv by (simp_all add: loop_inv_def)
  note p = pop_core [OF c kd]
  show ?thesis
  proof (cases "ps_node k = B")
    case True
    then have v: "visit lib net B X st = ?st0" by (simp add: visit_def kd)
    have "frontier net X B ?st0"
      by (rule pop_frontier [OF f kd]) (simp_all add: True settled_def)
    moreover have "st \<noteq> dijkstra_init lib (s, d0)"
    proof
      assume "st = dijkstra_init lib (s, d0)"
      then have "(k, d) \<in> queued (dijkstra_init lib (s, d0))" using kd by simp
      with True sB show False by simp
    qed
    then have "direct net X s d0 ?st0"
      using inv by (simp add: loop_inv_def direct_def relaxed_def)
    ultimately show ?thesis using p by (simp add: v loop_inv_def)
  next
    case False
    let ?es = "node_edges net (ps_node k)"
    let ?st1 = "fold (explore lib net X k d) ?es ?st0"
    have v: "visit lib net B X st = ?st1" using False by (simp add: visit_def kd)
    have "ps_node k < length (nodes net)" using q kd by (simp add: queue_ok_def)
    then have es: "e \<in> set ?es \<longleftrightarrow> edge_at net (ps_node k) e" for e
      by (simp add: edge_at_def)
    have "\<forall>e \<in> set ?es. edge_at net (ps_node k) e" using es by blast
    note fe = fold_explore [OF wf no False p this]
    have rel: "relaxed net ?st1 k d e" if "edge_at net (ps_node k) e" "neighbor_of net e \<notin> X" for e
      using fe es that by blast
    have fr: "frontier net X B ?st1"
      by (rule pop_frontier [OF f kd]) (use fe rel in \<open>simp_all add: settled_def\<close>)
    have "direct net X s d0 ?st1"
    proof (cases "direct net X s d0 st")
      case True
      then have "direct net X s d0 ?st0" by (simp add: direct_def relaxed_def)
      then show ?thesis using fe by simp
    next
      case nd: False
      then have i: "st = dijkstra_init lib (s, d0)" using inv by (simp add: loop_inv_def)
      then have "(k, d) \<in> queued (dijkstra_init lib (s, d0))" using kd by simp
      then have ks: "k = s" "d = d0" by simp_all
      have "\<forall>x y. prev_of ?st1 x = Some y \<longrightarrow> y = s" using fe ks i by simp
      moreover have "core net X B s d0 ?st1" using fe by blast
      ultimately show ?thesis by (intro first_visit_direct [where B = B]) (use rel ks in blast)+
    qed
    then show ?thesis using fe fr by (simp add: v loop_inv_def)
  qed
qed

section \<open>The loop as a whole\<close>

lemma dijkstra_loop_result:
  assumes wf: "wf_network net" and no: "no_overflow net (unat d0)"
    and sB: "ps_node s \<noteq> B" and s: "ps_node s < length (nodes net)"
  shows "\<exists>st. dijkstra_loop lib net B X (dijkstra_init lib (s, d0)) = Some st \<and>
    core net X B s d0 st \<and> frontier net X B st \<and> direct net X s d0 st \<and> nodesToVisit st = []"
proof -
  have q: "queue_ok net (dijkstra_init lib (s, d0))" using s by (simp add: queue_ok_def)
  obtain st where st: "dijkstra_loop lib net B X (dijkstra_init lib (s, d0)) = Some st"
    using dijkstra_loop_stops [OF wf q] by blast
  have "loop_inv net X B s d0 st \<and> queue_ok net st"
  proof (rule while_option_rule [where P = "\<lambda>st. loop_inv net X B s d0 st \<and> queue_ok net st",
        OF _ st [unfolded dijkstra_loop_def]])
    show "loop_inv net X B s d0 (visit lib net B X st) \<and> queue_ok net (visit lib net B X st)"
      if "loop_inv net X B s d0 st \<and> queue_ok net st" and "nodesToVisit st \<noteq> []" for st
      using that visit_loop_inv [OF wf no sB] visit_measure(2) [OF wf] by blast
  qed (use loop_inv_init q in simp)
  moreover have e: "nodesToVisit st = []"
    using while_option_stop [OF st [unfolded dijkstra_loop_def]] by simp
  moreover have "st \<noteq> dijkstra_init lib (s, d0)"
  proof
    assume "st = dijkstra_init lib (s, d0)"
    then have "queued st = {(s, d0)}" by simp
    with e show False by simp
  qed
  ultimately show ?thesis using st by (auto simp: loop_inv_def)
qed

end

end
