(* ===== verification/Path_Search.thy ===== *)
theory Path_Search
  imports Dijkstra_Correct
begin

text \<open>
  The contract of the path search: it stops, it never throws, it returns the empty path exactly
  when station B cannot be reached, and otherwise a path of least cost whose distances add up.
\<close>

section \<open>Assembling the path\<close>

text \<open>With nothing left to visit, the distance along a recorded link is exact.\<close>

lemma final_link:
  assumes core: "core net X B s d0 st" and fr: "frontier net X B st"
    and q: "nodesToVisit st = []" and k: "dist_of st k = Some d" "k \<noteq> s"
  obtains p dp e where "prev_of st k = Some p" "dist_of st p = Some dp"
    "edge_at net (ps_node p) e" "k = neighbor_of net e" "k \<notin> X"
    "unat d = unat dp + step_cost net p e" "ps_node p \<noteq> B"
proof -
  have "link_ok net X B st k d" using core k by (simp add: core_def)
  then obtain p dp e where p: "prev_of st k = Some p" "ps_node p \<noteq> B" "dist_of st p = Some dp"
    "edge_at net (ps_node p) e" "k = neighbor_of net e" "k \<notin> X"
    "unat dp + step_cost net p e \<le> unat d"
    by (auto simp: link_ok_def)
  have "settled net X B st p dp" using fr q p(3) by (auto simp: frontier_def)
  then have "unat d \<le> unat dp + step_cost net p e"
    using p k(1) by (auto simp: settled_def relaxed_def)
  with p that show ?thesis by (metis le_antisym)
qed

lemma hops_snoc: "xs \<noteq> [] \<Longrightarrow> hops (xs @ [y]) = hops xs @ [(last xs, y)]"
  by (induction xs rule: induct_list012) auto

lemma hop_okI:
  "edge_at net (ps_node p) e \<Longrightarrow> k = neighbor_of net e \<Longrightarrow> k \<notin> X \<Longrightarrow>
   unat d = unat dp + step_cost net p e \<Longrightarrow> hop_ok net X (p, dp) (k, d)"
  by (auto simp: hop_ok_def)

lemma walk_back_result:
  assumes core: "core net X B s d0 st" and fr: "frontier net X B st" and q: "nodesToVisit st = []"
    and dir: "direct net X s d0 st"
    and chain: "back_chain (prev_of st) s k" and k: "dist_of st k = Some d"
    and "k = s \<or> ps_node k \<noteq> ps_node s"
  shows "\<exists>p. walk_back (distFromA st) (previousStop st) (ps_node s) k (acc @ [(k, d)]) =
      Some (Returns (p @ [(k, d)] @ rev acc)) \<and>
    hd (p @ [(k, d)]) = (s, d0) \<and> (\<forall>x \<in> set p. ps_node (fst x) \<noteq> B) \<and>
    (\<forall>(x, y) \<in> set (hops (p @ [(k, d)])). hop_ok net X x y)"
  using chain k assms(7)
proof (induction arbitrary: acc d rule: back_chain.induct)
  case chain_start
  then have "d = d0" using core by (simp add: core_def)
  then show ?case by (intro exI [of _ "[]"]) (simp add: walk_back.simps)
next
  case (chain_step k q)
  then have ks: "k \<noteq> s" "ps_node k \<noteq> ps_node s" using core by (auto simp: core_def)
  obtain dp e where p: "dist_of st q = Some dp" "edge_at net (ps_node q) e"
    "k = neighbor_of net e" "k \<notin> X" "unat d = unat dp + step_cost net q e" "ps_node q \<noteq> B"
    by (rule final_link [OF core fr assms(3) chain_step.prems(1) ks(1)])
      (use chain_step.hyps(1) in auto)
  have "q = s \<or> ps_node q \<noteq> ps_node s"
    using dir p ks chain_step.hyps(1) by (auto simp: direct_def)
  then obtain r where r: "walk_back (distFromA st) (previousStop st) (ps_node s) q
        ((acc @ [(k, d)]) @ [(q, dp)]) = Some (Returns (r @ [(q, dp)] @ rev (acc @ [(k, d)])))"
    "hd (r @ [(q, dp)]) = (s, d0)"
    "\<forall>x \<in> set r. ps_node (fst x) \<noteq> B" "\<forall>(x, y) \<in> set (hops (r @ [(q, dp)])). hop_ok net X x y"
    using chain_step.IH [OF p(1)] by meson
  have hk: "hop_ok net X (q, dp) (k, d)" by (rule hop_okI [OF p(2-5)])
  have hs: "hops ((r @ [(q, dp)]) @ [(k, d)]) = hops (r @ [(q, dp)]) @ [((q, dp), (k, d))]"
    by (subst hops_snoc) simp_all
  have "\<forall>(x, y) \<in> set (hops ((r @ [(q, dp)]) @ [(k, d)])). hop_ok net X x y"
    unfolding hs set_append ball_Un using r(4) hk by simp
  moreover have "walk_back (distFromA st) (previousStop st) (ps_node s) k (acc @ [(k, d)]) =
      walk_back (distFromA st) (previousStop st) (ps_node s) q ((acc @ [(k, d)]) @ [(q, dp)])"
    using ks chain_step.hyps(1) p(1) by (subst walk_back.simps) simp
  moreover have "hd ((r @ [(q, dp)]) @ [(k, d)]) = (s, d0)"
    using r(2) by (subst hd_append2) simp_all
  ultimately show ?case
    using r(1,3) p(6) by (intro exI [of _ "r @ [(q, dp)]"]) simp
qed

section \<open>The search is optimal\<close>

text \<open>A journey that reaches a stop has either passed station B or been recorded.\<close>

lemma journey_recorded:
  assumes "journey net X s (unat d0) t c"
    and core: "core net X B s d0 st" and fr: "frontier net X B st" and q: "nodesToVisit st = []"
  shows "(\<exists>d. dist_of st t = Some d \<and> unat d \<le> c) \<or>
    (\<exists>b d. ps_node b = B \<and> dist_of st b = Some d \<and> unat d \<le> c)"
  using assms(1)
proof (induction rule: journey.induct)
  case start
  then show ?case using core by (simp add: core_def)
next
  case (hop t c e)
  from hop.IH show ?case
  proof
    assume "\<exists>d. dist_of st t = Some d \<and> unat d \<le> c"
    then obtain d where d: "dist_of st t = Some d" "unat d \<le> c" by blast
    then have "settled net X B st t d" using fr q by (auto simp: frontier_def)
    then consider "ps_node t = B" | "relaxed net st t d e"
      using hop.hyps(2,3) by (auto simp: settled_def)
    then show ?thesis
    proof cases
      case 1
      then have "\<exists>b d. ps_node b = B \<and> dist_of st b = Some d \<and> unat d \<le> c + step_cost net t e"
        using d by (metis trans_le_add1)
      then show ?thesis by (rule disjI2)
    next
      case 2
      then show ?thesis using d(2) by (auto simp: relaxed_def)
    qed
  next
    assume "\<exists>b d. ps_node b = B \<and> dist_of st b = Some d \<and> unat d \<le> c"
    then have "\<exists>b d. ps_node b = B \<and> dist_of st b = Some d \<and> unat d \<le> c + step_cost net t e"
      by (metis trans_le_add1)
    then show ?thesis by (rule disjI2)
  qed
qed

definition reachable_at ::
  "network \<Rightarrow> PathStop set \<Rightarrow> PathStopDist \<Rightarrow> node_ref \<Rightarrow> nat \<Rightarrow> bool" where
  "reachable_at net X stopA B c \<longleftrightarrow>
     (\<exists>t. ps_node t = B \<and> journey net X (fst stopA) (unat (snd stopA)) t c)"

definition best_path ::
  "network \<Rightarrow> PathStop set \<Rightarrow> PathStopDist \<Rightarrow> node_ref \<Rightarrow> Path \<Rightarrow> bool" where
  "best_path net X stopA B p \<longleftrightarrow>
     valid_path net X stopA B p \<and> reachable_at net X stopA B (unat (snd (last p))) \<and>
     (\<forall>c. reachable_at net X stopA B c \<longrightarrow> unat (snd (last p)) \<le> c)"

context stl_laws
begin

lemma search_result:
  assumes wf: "wf_network net" and s: "ps_node (fst stopA) < length (nodes net)"
    and no: "no_overflow net (unat (snd stopA))" and ne: "ps_node (fst stopA) \<noteq> B"
  shows "(\<exists>p. shortest_path lib net stopA B X = Returns p \<and> best_path net X stopA B p) \<or>
    shortest_path lib net stopA B X = Returns [] \<and> (\<nexists>c. reachable_at net X stopA B c)"
proof -
  obtain s d0 where sd: "stopA = (s, d0)" by fastforce
  obtain st where st: "dijkstra_loop lib net B X (dijkstra_init lib stopA) = Some st"
    and c: "core net X B s d0 st" and f: "frontier net X B st" and d: "direct net X s d0 st"
    and q: "nodesToVisit st = []"
    using dijkstra_loop_result [OF wf, of d0 s B X] assms sd by auto
  let ?toB = "filter (\<lambda>p. ps_node (fst p) = B) (distFromA st)"
  have toB: "(b, db) \<in> set ?toB \<longleftrightarrow> ps_node b = B \<and> dist_of st b = Some db" for b db
    using c by (auto simp: core_def umap_in_iff)
  have lower: "\<exists>b db. (b, db) \<in> set ?toB \<and> unat db \<le> cost"
    if reach: "reachable_at net X stopA B cost" for cost
  proof -
    obtain t where "ps_node t = B" "journey net X s (unat d0) t cost"
      using reach unfolding reachable_at_def sd by auto
    then show ?thesis using journey_recorded [OF _ c f q] toB by metis
  qed
  show ?thesis
  proof (cases "?toB = []")
    case True
    then have "shortest_path lib net stopA B X = Returns []"
      using ne st by (simp add: shortest_path_def Let_def)
    moreover have "\<nexists>cost. reachable_at net X stopA B cost"
      using lower True by fastforce
    ultimately show ?thesis by blast
  next
    case False
    obtain b db where b: "last (sort_stops lib ?toB) = (b, db)" by fastforce
    have least: "db \<le> dy" if "(y, dy) \<in> set ?toB" for y dy
      using sort_stops_last(2) [OF False that] b by simp
    have bB: "ps_node b = B" "dist_of st b = Some db"
      using sort_stops_last(1) [OF False] b toB by auto
    have "back_chain (prev_of st) s b" using c bB(2) by (simp add: core_def)
    from walk_back_result [OF c f q d this bB(2), of "[]"]
    obtain r where r: "walk_back (distFromA st) (previousStop st) (ps_node s) b [(b, db)] =
        Some (Returns (r @ [(b, db)]))" "hd (r @ [(b, db)]) = (s, d0)"
      "\<forall>x \<in> set r. ps_node (fst x) \<noteq> B"
      "\<forall>(x, y) \<in> set (hops (r @ [(b, db)])). hop_ok net X x y"
      using ne bB(1) sd by auto
    have "shortest_path lib net stopA B X = Returns (r @ [(b, db)])"
      using ne st False b r(1) sd by (simp add: shortest_path_def Let_def)
    moreover have "valid_path net X stopA B (r @ [(b, db)])"
      using r(2,3,4) bB(1) sd by (simp add: valid_path_def)
    moreover have "journey net X s (unat d0) b (unat db)"
      using c bB(2) by (simp add: core_def entry_ok_def)
    then have "reachable_at net X stopA B (unat db)"
      using bB(1) sd by (auto simp: reachable_at_def)
    moreover have "unat db \<le> cost" if "reachable_at net X stopA B cost" for cost
      using lower [OF that] least by (meson order_trans word_le_nat_alt)
    ultimately show ?thesis by (intro disjI1 exI [of _ "r @ [(b, db)]"]) (simp add: best_path_def)
  qed
qed

end

section \<open>The contract\<close>

text \<open>C29: the main loop of the path search always stops, on any network the operations can
  build, from any start and with any excluded stops, also when a distance wraps around: every
  stop is improved finitely often and every turn takes one entry off the queue.\<close>

theorem dijkstra_loop_terminates:
  assumes "stl_laws lib" and "wf_network net" and "ps_node (fst stopA) < length (nodes net)"
  shows "\<exists>st. dijkstra_loop lib net B X (dijkstra_init lib stopA) = Some st"
proof (rule stl_laws.dijkstra_loop_stops [OF assms(1,2)])
  show "queue_ok net (dijkstra_init lib stopA)"
    using assms(3) stl_laws.push_stop_set [OF assms(1)]
    by (auto simp: queue_ok_def dijkstra_init_def)
qed

lemma dijkstra_loop_terminates_witness:
  "\<exists>st. dijkstra_loop ref_stl example_net 2 {} (dijkstra_init ref_stl (\<lparr>ps_node = 0, ps_edge = None\<rparr>, 0))
     = Some st"
  by (rule dijkstra_loop_terminates [OF ref_lib.stl_laws_axioms example_net_wf])
    (simp add: example_net_def)

text \<open>C7: the path search returns, without an exception, the empty path exactly when no journey
  along the edges that avoids the excluded stops reaches station B; otherwise it returns a path
  that starts at the given stop and distance, follows edges of the network, adds the travel time
  of each edge and 5 for each change of route, and ends at station B at the least cost of any
  journey there. No distance may exceed 32 bits.\<close>

theorem shortest_path_optimal:
  assumes "stl_laws lib" and "wf_network net" and "ps_node (fst stopA) < length (nodes net)"
    and "no_overflow net (unat (snd stopA))" and "ps_node (fst stopA) \<noteq> B"
  shows "\<exists>p. shortest_path lib net stopA B X = Returns p \<and>
    (p = [] \<longleftrightarrow> \<not> (\<exists>c. reachable_at net X stopA B c)) \<and>
    (p \<noteq> [] \<longrightarrow> best_path net X stopA B p)"
  using stl_laws.search_result [OF assms, of X]
  by (auto simp: best_path_def valid_path_def)

lemma example_no_overflow: "d \<le> 1000 \<Longrightarrow> no_overflow example_net d"
  by (simp add: no_overflow_def max_step_def example_net_def)

text \<open>On the small network the search finds the way by B, of cost 20.\<close>

lemma example_search:
  "shortest_path ref_stl example_net (\<lparr>ps_node = 0, ps_edge = None\<rparr>, 0) 2 {} =
     Returns [(\<lparr>ps_node = 0, ps_edge = None\<rparr>, 0), (\<lparr>ps_node = 1, ps_edge = Some 0\<rparr>, 10),
       (\<lparr>ps_node = 2, ps_edge = Some 1\<rparr>, 20)]"
  by code_simp

lemma shortest_path_optimal_witness:
  "best_path example_net {} (\<lparr>ps_node = 0, ps_edge = None\<rparr>, 0) 2
     [(\<lparr>ps_node = 0, ps_edge = None\<rparr>, 0), (\<lparr>ps_node = 1, ps_edge = Some 0\<rparr>, 10),
       (\<lparr>ps_node = 2, ps_edge = Some 1\<rparr>, 20)]"
  using shortest_path_optimal [OF ref_lib.stl_laws_axioms example_net_wf,
      of "(\<lparr>ps_node = 0, ps_edge = None\<rparr>, 0)" 2 "{}"]
  by (simp add: example_search example_no_overflow) (simp add: example_net_def)

end
