(* ===== verification/Quiet_Route.thy ===== *)
theory Quiet_Route
  imports Complex_Main Path_Search
begin

text \<open>
  Travel routes: the fastest one, the list of alternatives within a slowdown limit (a variant of
  Yen's algorithm) and the quiet one, from the public \<^verbatim>\<open>GetFastestTravelRoute\<close> and
  \<^verbatim>\<open>GetQuietTravelRoute\<close> down to the path search.
\<close>

section \<open>Floating point limits\<close>

text \<open>
  The two percentages are \<^verbatim>\<open>double\<close>s. A finite double is a rational number and the result
  of an operation on doubles is the rounded exact result; the rounding function is a parameter.
  A cast to \<^verbatim>\<open>unsigned int\<close> drops the fraction and is undefined when the value does not fit.
\<close>

definition to_unsigned :: "rat \<Rightarrow> u32 outcome" where
  "to_unsigned x =
     (if - 1 < x \<and> x < 2 ^ 32 then Returns (word_of_int (if x < 0 then 0 else \<lfloor>x\<rfloor>))
      else Fault Undefined_Behaviour)"

definition max_travel_time :: "(rat \<Rightarrow> rat) \<Rightarrow> u32 \<Rightarrow> rat \<Rightarrow> u32 outcome" where
  "max_travel_time rnd minTravelTime maxSlowdownPc =
     to_unsigned (rnd (of_int (uint minTravelTime) * rnd (1 + maxSlowdownPc)))"

definition max_crowding :: "(rat \<Rightarrow> rat) \<Rightarrow> u32 \<Rightarrow> rat \<Rightarrow> u32 outcome" where
  "max_crowding rnd minCrowding minQuietnessPc =
     to_unsigned (rnd (of_int (uint minCrowding) * rnd (1 - minQuietnessPc)))"

section \<open>Alternative paths\<close>

text \<open>The stops removed for the spur at \<open>idx\<close>: where earlier paths with the same root went on.\<close>

definition removed_stops :: "Path list \<Rightarrow> Path \<Rightarrow> nat \<Rightarrow> PathStop set" where
  "removed_stops fastestPaths lastPath idx =
     set (map (\<lambda>path. fst (path ! (idx + 1)))
       (filter (\<lambda>path. idx < length path - 1 \<and> take idx path = take idx lastPath) fastestPaths))"

text \<open>The loop that finds, for each stop of the last path, a detour from that stop on.\<close>

fun add_candidates ::
  "stl \<Rightarrow> network \<Rightarrow> node_ref \<Rightarrow> Path list \<Rightarrow> nat list \<Rightarrow> Path list \<Rightarrow> Path list outcome" where
  "add_candidates lib net stationB fastestPaths [] potentialPaths = Returns potentialPaths"
| "add_candidates lib net stationB fastestPaths (idx # idxs) potentialPaths =
     (let lastPath = last fastestPaths
      in bindO (shortest_path lib net (lastPath ! idx) stationB
                 (removed_stops fastestPaths lastPath idx))
           (\<lambda>spurPath. add_candidates lib net stationB fastestPaths idxs
              (if spurPath = [] then potentialPaths
               else push_path lib (take idx lastPath @ spurPath) potentialPaths)))"

text \<open>The loop that takes paths off the queue until one is new or all are too slow.\<close>

fun select_kth :: "u32 \<Rightarrow> Path list \<Rightarrow> Path list \<Rightarrow> Path option \<times> Path list" where
  "select_kth maxTravelTime fastestPaths [] = (None, [])"
| "select_kth maxTravelTime fastestPaths (kthPath # rest) =
     (if snd (last kthPath) > maxTravelTime then (None, rest)
      else if kthPath \<notin> set fastestPaths then (Some kthPath, rest)
      else select_kth maxTravelTime fastestPaths rest)"

function fastest_paths_loop ::
  "stl \<Rightarrow> network \<Rightarrow> node_ref \<Rightarrow> u32 \<Rightarrow> nat \<Rightarrow> Path list \<Rightarrow> Path list \<Rightarrow> Path list outcome" where
  "fastest_paths_loop lib net stationB maxTravelTime maxNPaths fastestPaths potentialPaths =
     (if length fastestPaths < maxNPaths then
        bindO (add_candidates lib net stationB fastestPaths
                [0 ..< length (last fastestPaths) - 1] potentialPaths)
          (\<lambda>potentialPaths'.
             case select_kth maxTravelTime fastestPaths potentialPaths' of
               (None, _) \<Rightarrow> Returns fastestPaths
             | (Some kthPath, potentialPaths'') \<Rightarrow>
                 fastest_paths_loop lib net stationB maxTravelTime maxNPaths
                   (fastestPaths @ [kthPath]) potentialPaths'')
      else Returns fastestPaths)"
  by pat_completeness auto

termination
  by (relation "measure (\<lambda>(_, _, _, _, maxNPaths, fastestPaths, _). maxNPaths - length fastestPaths)")
    auto

declare fastest_paths_loop.simps [simp del]

definition start_stop :: "node_ref \<Rightarrow> PathStopDist" where
  "start_stop stationA = (\<lparr>ps_node = stationA, ps_edge = None\<rparr>, 0)"

definition GetFastestTravelRoutes ::
  "stl \<Rightarrow> (rat \<Rightarrow> rat) \<Rightarrow> network \<Rightarrow> node_ref \<Rightarrow> node_ref \<Rightarrow> rat \<Rightarrow> nat \<Rightarrow> Path list outcome" where
  "GetFastestTravelRoutes lib rnd net stationA stationB maxSlowdownPc maxNPaths =
     bindO (shortest_path lib net (start_stop stationA) stationB {}) (\<lambda>fastestPath.
       if fastestPath = [] then Returns []
       else bindO (max_travel_time rnd (snd (last fastestPath)) maxSlowdownPc)
         (\<lambda>maxTravelTime.
            fastest_paths_loop lib net stationB maxTravelTime maxNPaths [fastestPath] []))"

section \<open>Crowding\<close>

text \<open>
  \<^verbatim>\<open>unsigned += long long\<close>: the sum is a \<^verbatim>\<open>long long\<close>, whose overflow is undefined,
  and is then cut down to 32 bits.
\<close>

fun add_crowding :: "network \<Rightarrow> Path \<Rightarrow> u32 \<Rightarrow> u32 outcome" where
  "add_crowding net [] tot = Returns tot"
| "add_crowding net ((stop, _) # rest) tot =
     (let s = uint tot + gn_passengerCount (nodes net ! ps_node stop)
      in if s > llong_max then Fault Undefined_Behaviour
         else add_crowding net rest (word_of_int s))"

definition GetPathCrowding :: "network \<Rightarrow> Path \<Rightarrow> u32 outcome" where
  "GetPathCrowding net path = add_crowding net path 0"

section \<open>Public operations\<close>

text \<open>A stop without an edge would make the code follow a null pointer.\<close>

definition make_step :: "network \<Rightarrow> PathStopDist \<times> PathStopDist \<Rightarrow> Step outcome" where
  "make_step net hop =
     (case ps_edge (fst (snd hop)) of
        None \<Rightarrow> Fault Undefined_Behaviour
      | Some e \<Rightarrow>
          let r = routes net ! edge_route net e
          in Returns \<lparr>sp_startStationId = gn_id (nodes net ! ps_node (fst (fst hop))),
                      sp_endStationId = gn_id (nodes net ! ps_node (fst (snd hop))),
                      sp_lineId = li_id (lines net ! ri_line r), sp_routeId = ri_id r,
                      sp_travelTime = edge_time net e\<rparr>)"

definition assemble_route :: "network \<Rightarrow> Id \<Rightarrow> Id \<Rightarrow> Path \<Rightarrow> TravelRoute outcome" where
  "assemble_route net stationAId stationBId path =
     bindO (mapO (make_step net) (hops path)) (\<lambda>steps.
       Returns \<lparr>tr_startStationId = stationAId, tr_endStationId = stationBId,
                tr_totalTravelTime = snd (last path), tr_steps = steps\<rparr>)"

definition same_station_route :: "Id \<Rightarrow> TravelRoute" where
  "same_station_route stationAId =
     \<lparr>tr_startStationId = stationAId, tr_endStationId = stationAId, tr_totalTravelTime = 0,
      tr_steps = [\<lparr>sp_startStationId = stationAId, sp_endStationId = stationAId,
        sp_lineId = '''', sp_routeId = '''', sp_travelTime = 0\<rparr>]\<rparr>"

definition no_path_route :: "Id \<Rightarrow> Id \<Rightarrow> TravelRoute" where
  "no_path_route stationAId stationBId =
     \<lparr>tr_startStationId = stationAId, tr_endStationId = stationBId, tr_totalTravelTime = 0,
      tr_steps = []\<rparr>"

definition GetFastestTravelRoute :: "stl \<Rightarrow> network \<Rightarrow> Id \<Rightarrow> Id \<Rightarrow> TravelRoute outcome" where
  "GetFastestTravelRoute lib net stationAId stationBId =
     (case (GetStation net stationAId, GetStation net stationBId) of
        (Some stationA, Some stationB) \<Rightarrow>
          if stationA = stationB then Returns (same_station_route stationAId)
          else bindO (shortest_path lib net (start_stop stationA) stationB {}) (\<lambda>path.
            if path = [] then Returns (no_path_route stationAId stationBId)
            else assemble_route net stationAId stationBId path)
      | _ \<Rightarrow> Returns empty_travel_route)"

text \<open>The loop that selects the most quiet path among those that are quiet enough.\<close>

fun select_quiet :: "network \<Rightarrow> u32 \<Rightarrow> Path list \<Rightarrow> Path \<Rightarrow> u32 \<Rightarrow> Path outcome" where
  "select_quiet net maxCrowding [] mostQuietPath minCrowding = Returns mostQuietPath"
| "select_quiet net maxCrowding (path # paths) mostQuietPath minCrowding =
     bindO (GetPathCrowding net path) (\<lambda>crowding.
       if crowding > maxCrowding then select_quiet net maxCrowding paths mostQuietPath minCrowding
       else if crowding < minCrowding then select_quiet net maxCrowding paths path crowding
       else select_quiet net maxCrowding paths mostQuietPath minCrowding)"

definition most_quiet_path ::
  "(rat \<Rightarrow> rat) \<Rightarrow> network \<Rightarrow> rat \<Rightarrow> Path list \<Rightarrow> Path outcome" where
  "most_quiet_path rnd net minQuietnessPc paths =
     bindO (GetPathCrowding net (hd paths)) (\<lambda>minCrowding.
     bindO (max_crowding rnd minCrowding minQuietnessPc) (\<lambda>maxCrowding.
       select_quiet net maxCrowding (tl paths) (hd paths) minCrowding))"

definition GetQuietTravelRoute ::
  "stl \<Rightarrow> (rat \<Rightarrow> rat) \<Rightarrow> network \<Rightarrow> Id \<Rightarrow> Id \<Rightarrow> rat \<Rightarrow> rat \<Rightarrow> nat \<Rightarrow> TravelRoute outcome" where
  "GetQuietTravelRoute lib rnd net stationAId stationBId maxSlowdownPc minQuietnessPc maxNPaths =
     (case (GetStation net stationAId, GetStation net stationBId) of
        (Some stationA, Some stationB) \<Rightarrow>
          if stationA = stationB then Returns (same_station_route stationAId)
          else bindO (GetFastestTravelRoutes lib rnd net stationA stationB maxSlowdownPc maxNPaths)
            (\<lambda>paths.
               if paths = [] then Returns (no_path_route stationAId stationBId)
               else bindO (most_quiet_path rnd net minQuietnessPc paths)
                 (assemble_route net stationAId stationBId))
      | _ \<Rightarrow> Returns empty_travel_route)"

end
