(* ===== verification/Alternative_Paths.thy ===== *)
theory Alternative_Paths
  imports Quiet_Route
begin

text \<open>
  The list of alternative paths: every path on it is a valid path between the two stations, no
  path appears twice, all but the first respect the time limit, and the search for them never
  throws and always stops.
\<close>

section \<open>Valid paths\<close>

lemma set_hops_append:
  "xs \<noteq> [] \<Longrightarrow> ys \<noteq> [] \<Longrightarrow>
   set (hops (xs @ ys)) = set (hops xs) \<union> {(last xs, hd ys)} \<union> set (hops ys)"
proof (induction xs rule: induct_list012)
  case (2 x)
  then show ?case by (cases ys) auto
qed auto

lemma set_hops_take: "set (hops (take n xs)) \<subseteq> set (hops xs)"
  by (auto simp: set_hops)

lemma valid_path_weaken: "valid_path net X s B p \<Longrightarrow> valid_path net {} s B p"
  by (fastforce simp: valid_path_def hop_ok_def)

lemma hop_ok_mono: "hop_ok net X x y \<Longrightarrow> unat (snd x) \<le> unat (snd y)"
  by (auto simp: hop_ok_def)

lemma hops_mono:
  "\<forall>(x, y) \<in> set (hops p). hop_ok net X x y \<Longrightarrow> x \<in> set p \<Longrightarrow> unat (snd x) \<le> unat (snd (last p))"
proof (induction p arbitrary: x rule: induct_list012)
  case (3 a b p)
  have hb: "\<forall>(x, y) \<in> set (hops (b # p)). hop_ok net X x y" and "hop_ok net X a b"
    using 3(3) by simp_all
  then have ab: "unat (snd a) \<le> unat (snd b)" by (blast dest: hop_ok_mono)
  note le = 3(2) [OF hb]
  have "unat (snd x) \<le> unat (snd (last (b # p)))"
  proof (cases "x = a")
    case True
    have "b \<in> set (b # p)" by simp
    from ab le [OF this] show ?thesis unfolding True by (rule order_trans)
  next
    case False
    then have "x \<in> set (b # p)" using 3(4) by simp
    then show ?thesis by (rule le)
  qed
  then show ?case by simp
qed auto

text \<open>A path as far as a stop before its end: the stop is a possible start of a search.\<close>

lemma valid_path_stop:
  assumes v: "valid_path net X s B p" and i: "i < length p - 1"
  shows "ps_node (fst (p ! i)) < length (nodes net)" and "ps_node (fst (p ! i)) \<noteq> B"
    and "unat (snd (p ! i)) \<le> unat (snd (last p))"
proof -
  have "(p ! i, p ! Suc i) \<in> set (hops p)" using i by (intro hops_append_nth) simp
  then have "hop_ok net X (p ! i) (p ! Suc i)" using v by (auto simp: valid_path_def)
  then show "ps_node (fst (p ! i)) < length (nodes net)" by (auto simp: hop_ok_def edge_at_def)
  have "p ! i \<in> set (butlast p)" using i by (metis length_butlast nth_butlast nth_mem)
  then show "ps_node (fst (p ! i)) \<noteq> B" using v by (simp add: valid_path_def)
  show "unat (snd (p ! i)) \<le> unat (snd (last p))"
    using v i by (intro hops_mono) (auto simp: valid_path_def)
qed

text \<open>The root of one path continued by a path from the stop where the root ends.\<close>

lemma valid_path_join:
  assumes v: "valid_path net {} s B p" and i: "i < length p - 1"
    and q: "valid_path net X (p ! i) B q"
  shows "valid_path net {} s B (take i p @ q)"
proof (cases i)
  case 0
  have "p ! i = s" using v 0 by (auto simp: valid_path_def hd_conv_nth)
  then show ?thesis using valid_path_weaken [OF q] 0 by simp
next
  case (Suc j)
  then have ne: "take i p \<noteq> []" "q \<noteq> []" using i q by (auto simp: valid_path_def)
  have "last (take i p) = p ! j"
    using Suc i by (simp add: take_Suc_conv_app_nth)
  moreover have "(p ! j, p ! i) \<in> set (hops p)"
    unfolding Suc using i Suc by (intro hops_append_nth) simp
  moreover have "hd q = p ! i" using q by (simp add: valid_path_def)
  ultimately have "set (hops (take i p @ q)) \<subseteq> set (hops p) \<union> set (hops q)"
    using set_hops_append [OF ne] set_hops_take [of i p] by auto
  moreover have "set (butlast (take i p @ q)) \<subseteq> set (butlast p) \<union> set (butlast q)"
  proof -
    have "take i p = take i (butlast p)" using i by (simp add: take_butlast)
    then have "set (take i p) \<subseteq> set (butlast p)" by (metis set_take_subset)
    then show ?thesis using ne by (auto simp: butlast_append)
  qed
  moreover have "valid_path net {} (p ! i) B q" by (rule valid_path_weaken [OF q])
  moreover have "hd (take i p @ q) = hd p" using ne by (simp add: hd_append hd_take Suc)
  ultimately show ?thesis
    using v ne by (auto simp: valid_path_def split: prod.splits)
qed

section \<open>The search for alternatives\<close>

lemma no_overflow_antimono: "no_overflow net d \<Longrightarrow> c \<le> d \<Longrightarrow> no_overflow net c"
  by (simp add: no_overflow_def)

lemma select_kth_sound:
  "select_kth maxT fps pot = (res, pot') \<Longrightarrow>
   set pot' \<subseteq> set pot \<and>
   (case res of None \<Rightarrow> True
    | Some p \<Rightarrow> p \<in> set pot \<and> p \<notin> set fps \<and> snd (last p) \<le> maxT)"
  by (induction maxT fps pot rule: select_kth.induct)
    (auto simp: not_less split: if_splits option.splits)

lemma select_kth_order:
  "in_pop_order PathCmp pot \<Longrightarrow> select_kth maxT fps pot = (res, pot') \<Longrightarrow>
   in_pop_order PathCmp pot' \<and>
   (\<forall>q \<in> set pot. snd (last q) \<le> maxT \<longrightarrow> q \<in> set fps \<or>
      (\<exists>p. res = Some p \<and> snd (last p) \<le> snd (last q)))"
proof (induction maxT fps pot rule: select_kth.induct)
  case (2 maxT fps p rest)
  then have r: "in_pop_order PathCmp rest" and le: "\<forall>q \<in> set rest. snd (last p) \<le> snd (last q)"
    by (auto simp: in_pop_order_def PathCmp_def not_less)
  note sel = 2(3)
  consider (slow) "snd (last p) > maxT" | (new) "snd (last p) \<le> maxT" "p \<notin> set fps"
    | (seen) "snd (last p) \<le> maxT" "p \<in> set fps" by fastforce
  then show ?case
  proof cases
    case slow
    then have "\<not> snd (last q) \<le> maxT" if "q \<in> set (p # rest)" for q
      using le that by (auto simp: not_le intro: less_le_trans)
    then show ?thesis using sel slow r by auto
  next
    case new
    then have "\<not> maxT < snd (last p)" by simp
    then have "res = Some p" "pot' = rest" using sel new(2) by simp_all
    then show ?thesis using r le by auto
  next
    case seen
    then have n: "\<not> maxT < snd (last p)" by simp
    then have "select_kth maxT fps rest = (res, pot')" using sel seen(2) by simp
    then show ?thesis using 2(1) [OF n _ r] seen(2) by auto
  qed
qed (simp add: in_pop_order_def)

definition paths_ok ::
  "network \<Rightarrow> PathStopDist \<Rightarrow> node_ref \<Rightarrow> u32 \<Rightarrow> nat \<Rightarrow> Path list \<Rightarrow> bool" where
  "paths_ok net s B maxT maxN fps \<longleftrightarrow>
     fps \<noteq> [] \<and> distinct fps \<and> length fps \<le> max 1 maxN \<and>
     (\<forall>q \<in> set fps. valid_path net {} s B q) \<and> (\<forall>q \<in> set (tl fps). snd (last q) \<le> maxT)"

context stl_laws
begin

lemma spur_result:
  assumes wf: "wf_network net" and v: "valid_path net {} s B p" and i: "i < length p - 1"
    and no: "no_overflow net (unat (snd (last p)))"
  shows "\<exists>q. shortest_path lib net (p ! i) B X = Returns q \<and>
    (q \<noteq> [] \<longrightarrow> valid_path net {} s B (take i p @ q))"
proof -
  note st = valid_path_stop [OF v i]
  obtain q where "shortest_path lib net (p ! i) B X = Returns q"
    "q = [] \<or> best_path net X (p ! i) B q"
    using search_result [OF wf st(1) no_overflow_antimono [OF no st(3)] st(2), of X] by blast
  then show ?thesis using valid_path_join [OF v i] by (auto simp: best_path_def)
qed

lemma add_candidates_result:
  assumes wf: "wf_network net" and v: "valid_path net {} s B (last fps)"
    and no: "no_overflow net (unat (snd (last (last fps))))"
  shows "\<forall>i \<in> set idxs. i < length (last fps) - 1 \<Longrightarrow> \<forall>q \<in> set pot. valid_path net {} s B q \<Longrightarrow>
    in_pop_order PathCmp pot \<Longrightarrow>
    \<exists>pot'. add_candidates lib net B fps idxs pot = Returns pot' \<and>
      (\<forall>q \<in> set pot'. valid_path net {} s B q) \<and> in_pop_order PathCmp pot' \<and> set pot \<subseteq> set pot'"
proof (induction idxs arbitrary: pot)
  case Nil
  then show ?case by simp
next
  case (Cons i idxs)
  then have "i < length (last fps) - 1" by simp
  from spur_result [OF wf v this no] obtain q where
    q: "shortest_path lib net (last fps ! i) B (removed_stops fps (last fps) i) = Returns q"
    "q \<noteq> [] \<longrightarrow> valid_path net {} s B (take i (last fps) @ q)" by blast
  let ?pot = "if q = [] then pot else push_path lib (take i (last fps) @ q) pot"
  have "\<exists>pot'. add_candidates lib net B fps idxs ?pot = Returns pot' \<and>
      (\<forall>q \<in> set pot'. valid_path net {} s B q) \<and> in_pop_order PathCmp pot' \<and> set ?pot \<subseteq> set pot'"
    using Cons.prems q(2) push_path_order by (intro Cons.IH) auto
  then show ?case using q(1) by (auto split: if_splits)
qed

lemma fastest_paths_loop_result:
  assumes wf: "wf_network net"
    and no: "no_overflow net (unat (snd (last (hd fps))))" "no_overflow net (unat maxT)"
  shows "paths_ok net s B maxT maxN fps \<Longrightarrow> \<forall>q \<in> set pot. valid_path net {} s B q \<Longrightarrow>
    in_pop_order PathCmp pot \<Longrightarrow>
    \<exists>out. fastest_paths_loop lib net B maxT maxN fps pot = Returns out \<and>
      paths_ok net s B maxT maxN out \<and> hd out = hd fps"
  using no(1)
proof (induction "maxN - length fps" arbitrary: fps pot rule: less_induct)
  case less
  note ok = less.prems(1)
  have ne: "fps \<noteq> []" and v: "valid_path net {} s B (last fps)"
    using ok by (auto simp: paths_ok_def)
  have "last fps = hd fps \<or> last fps \<in> set (tl fps)"
    using ne by (cases fps) auto
  then have "no_overflow net (unat (snd (last (last fps))))"
  proof
    assume "last fps \<in> set (tl fps)"
    then have "snd (last (last fps)) \<le> maxT" using ok by (simp add: paths_ok_def)
    then show ?thesis using no(2) by (auto intro: no_overflow_antimono simp: word_le_nat_alt)
  qed (use less.prems(4) in simp)
  from add_candidates_result [OF wf v this, of "[0 ..< length (last fps) - 1]" pot] less.prems(2,3)
  obtain pot' where pot': "add_candidates lib net B fps [0 ..< length (last fps) - 1] pot = Returns pot'"
    "\<forall>q \<in> set pot'. valid_path net {} s B q" "in_pop_order PathCmp pot'" by auto
  show ?case
  proof (cases "length fps < maxN")
    case True
    obtain res pot2 where sel: "select_kth maxT fps pot' = (res, pot2)" by fastforce
    note sd = select_kth_sound [OF sel] and so = select_kth_order [OF pot'(3) sel]
    show ?thesis
    proof (cases res)
      case None
      then have "fastest_paths_loop lib net B maxT maxN fps pot = Returns fps"
        using True pot'(1) sel by (subst fastest_paths_loop.simps) simp
      then show ?thesis using ok by simp
    next
      case (Some p)
      have ok': "paths_ok net s B maxT maxN (fps @ [p])"
        using ok sd Some True pot'(2) by (auto simp: paths_ok_def)
      have "fastest_paths_loop lib net B maxT maxN fps pot =
          fastest_paths_loop lib net B maxT maxN (fps @ [p]) pot2"
        using True pot'(1) sel Some by (subst fastest_paths_loop.simps) simp
      moreover have "\<exists>out. fastest_paths_loop lib net B maxT maxN (fps @ [p]) pot2 = Returns out \<and>
          paths_ok net s B maxT maxN out \<and> hd out = hd (fps @ [p])"
        using True ok' sd so pot'(2) less.prems(4) ne by (intro less.hyps) auto
      ultimately show ?thesis using ne by simp
    qed
  next
    case False
    then show ?thesis using ok by (subst fastest_paths_loop.simps) simp
  qed
qed

end

end
