(* ===== verification/Network_Queries.thy ===== *)
theory Network_Queries
  imports Network_Machine
begin

text \<open>
  The operations of \<^verbatim>\<open>TransportNetwork\<close> on stations and edges against their specification:
  passenger counts are the balance of the recorded events, and the travel time set between two
  stations is the one read back in both directions. Lines and routes are in \<open>Network_Lines\<close>.
\<close>

section \<open>Travel times\<close>

lemma set_times_result:
  "set_times t to es (found, net) = (found', net') \<Longrightarrow>
   (found' \<longleftrightarrow> found \<or> (\<exists>e \<in> set es. next_stop net e = to)) \<and>
   (\<forall>e < length (edges net). edge_time net' e =
      (if e \<in> set es \<and> next_stop net e = to then t else edge_time net e))"
proof (induction es arbitrary: found net)
  case Nil
  then show ?case by simp
next
  case (Cons x es)
  let ?net1 = "set_edge_time t x net"
  have ns: "next_stop ?net1 e = next_stop net e" for e
    unfolding set_edge_time_def by (simp add: field_of_update [where f = ge_nextStop])
  have et: "edge_time ?net1 e = (if e = x then t else edge_time net e)" if "e < length (edges net)" for e
    using that by (simp add: set_edge_time_def nth_list_update)
  have ln: "length (edges ?net1) = length (edges net)" by (simp add: set_edge_time_def)
  show ?case
  proof (cases "next_stop net x = to")
    case True
    with Cons.prems have "set_times t to es (True, ?net1) = (found', net')" by simp
    from Cons.IH [OF this] True show ?thesis by (auto simp: ns et ln)
  next
    case False
    with Cons.prems have "set_times t to es (found, net) = (found', net')" by simp
    from Cons.IH [OF this] False show ?thesis by auto
  qed
qed

text \<open>The edges that connect two nodes directly, in either direction.\<close>

definition connects :: "network \<Rightarrow> node_ref \<Rightarrow> node_ref \<Rightarrow> edge_ref \<Rightarrow> bool" where
  "connects net a b e \<longleftrightarrow>
     edge_at net a e \<and> next_stop net e = b \<or> edge_at net b e \<and> next_stop net e = a"

definition adjacent :: "network \<Rightarrow> Id \<Rightarrow> Id \<Rightarrow> bool" where
  "adjacent net sa sb \<longleftrightarrow>
     (\<exists>a b e. GetStation net sa = Some a \<and> GetStation net sb = Some b \<and> connects net a b e)"

text \<open>Every edge between two stations, of any route and direction, has the same travel time.\<close>

definition times_uniform :: "network \<Rightarrow> bool" where
  "times_uniform net \<longleftrightarrow>
     (\<forall>a b e e'. connects net a b e \<longrightarrow> connects net a b e' \<longrightarrow> edge_time net e = edge_time net e')"

lemma connects_sym: "connects net a b e \<longleftrightarrow> connects net b a e"
  by (auto simp: connects_def)

lemma connects_shape:
  assumes "wf_network net" and s: "same_shape net net'"
  shows "connects net' a b e \<longleftrightarrow> connects net a b e"
proof (cases "e < length (edges net)")
  case True
  then show ?thesis
    using same_shape_edge_at [OF s] same_shapeD(6) [OF s] by (simp add: connects_def)
next
  case False
  then have "\<not> edge_at net n e" for n
    using wf_edge_at [OF assms(1)] by (auto simp: wf_edge_def)
  then show ?thesis
    using same_shape_edge_at [OF s] by (simp add: connects_def)
qed

lemma connects_ends:
  assumes "wf_network net" "connects net a b e" "connects net c d e"
  shows "{a, b} = {c, d}"
  using assms wf_edge_owner [OF assms(1)] by (auto simp: connects_def)

lemma connects_lt: "wf_network net \<Longrightarrow> connects net a b e \<Longrightarrow> e < length (edges net)"
  using wf_edge_at [of net a e] wf_edge_at [of net b e] by (auto simp: connects_def wf_edge_def)

lemma connects_nodes:
  "wf_network net \<Longrightarrow> connects net a b e \<Longrightarrow> a < length (nodes net) \<and> b < length (nodes net)"
  using wf_edge_at [of net a e] wf_edge_at [of net b e]
  by (auto simp: connects_def wf_edge_def edge_at_def)

text \<open>What \<open>SetTravelTime\<close> does to the edges.\<close>

lemma SetTravelTime_edges:
  assumes wf: "wf_network net" and set: "SetTravelTime sa sb t net = (ok, net')"
    and ab: "GetStation net sa = Some a" "GetStation net sb = Some b"
  shows "ok \<longleftrightarrow> (\<exists>e. connects net a b e)"
    and "connects net x y e \<Longrightarrow>
      edge_time net' e = (if connects net a b e then t else edge_time net e)"
proof -
  obtain f1 net1 where 1: "set_times t b (node_edges net a) (False, net) = (f1, net1)"
    by (cases "set_times t b (node_edges net a) (False, net)")
  then have 2: "set_times t a (node_edges net1 b) (f1, net1) = (ok, net')"
    using set ab by (simp add: SetTravelTime_def)
  note s1 = set_times_shape' [OF 1] and r1 = set_times_result [OF 1]
    and r2 = set_times_result [OF 2]
  have a: "a < length (nodes net)" and b: "b < length (nodes net)"
    using ab wf_GetStation [OF wf] by auto
  have lt: "edge_at net n e \<Longrightarrow> e < length (edges net)" for n e
    using wf_edge_at [OF wf] by (simp add: wf_edge_def)
  have at: "set (node_edges net1 b) = {e. edge_at net b e}"
      "set (node_edges net a) = {e. edge_at net a e}"
    using a b same_shapeD(4) [OF s1 b] by (auto simp: edge_at_def)
  have ns: "next_stop net1 e = next_stop net e" if "e < length (edges net)" for e
    using same_shapeD(6) [OF s1 that] .
  show "ok \<longleftrightarrow> (\<exists>e. connects net a b e)"
    using r1 r2 lt ns unfolding connects_def at by auto
  assume c: "connects net x y e"
  then have "e < length (edges net)" by (rule connects_lt [OF wf])
  then show "edge_time net' e = (if connects net a b e then t else edge_time net e)"
    using r1 r2 ns same_shapeD(2) [OF s1] by (simp add: connects_def at)
qed

lemma SetTravelTime_unknown:
  "GetStation net sa = None \<or> GetStation net sb = None \<Longrightarrow> SetTravelTime sa sb t net = (False, net)"
  by (auto simp: SetTravelTime_def split: option.splits)

lemma find_edge_to_Some:
  "a < length (nodes net) \<Longrightarrow> find_edge_to net a b = Some e \<Longrightarrow> edge_at net a e \<and> next_stop net e = b"
  by (auto simp: find_edge_to_def find_Some_iff edge_at_def)

lemma find_edge_to_None:
  "find_edge_to net a b = None \<Longrightarrow> edge_at net a e \<Longrightarrow> next_stop net e \<noteq> b"
  by (auto simp: find_edge_to_def find_None_iff edge_at_def)

lemma GetTravelTime_cases:
  assumes wf: "wf_network net"
    and ab: "GetStation net sa = Some a" "GetStation net sb = Some b"
  obtains (edge) e where "connects net a b e" and "GetTravelTime net sa sb = edge_time net e"
  | (none) "\<nexists>e. connects net a b e" and "GetTravelTime net sa sb = 0"
proof -
  have a: "a < length (nodes net)" and b: "b < length (nodes net)"
    using ab wf_GetStation [OF wf] by auto
  show thesis
  proof (cases "find_edge_to net a b")
    case (Some e)
    then show thesis
      using find_edge_to_Some [OF a Some] ab by (intro edge [of e]) (simp_all add: connects_def GetTravelTime_def)
  next
    case ab_None: None
    show thesis
    proof (cases "find_edge_to net b a")
      case (Some e)
      then show thesis
        using find_edge_to_Some [OF b Some] ab ab_None
        by (intro edge [of e]) (simp_all add: connects_def GetTravelTime_def)
    next
      case None
      then show thesis
        using ab_None ab none find_edge_to_None by (auto simp: connects_def GetTravelTime_def)
    qed
  qed
qed

lemma GetTravelTime_unknown:
  "GetStation net sa = None \<or> GetStation net sb = None \<Longrightarrow> GetTravelTime net sa sb = 0"
  by (auto simp: GetTravelTime_def split: option.splits)

text \<open>In a uniform network the time read is the time of any connecting edge.\<close>

lemma GetTravelTime_uniform:
  assumes wf: "wf_network net" and u: "times_uniform net"
    and ab: "GetStation net sa = Some a" "GetStation net sb = Some b" and c: "connects net a b e"
  shows "GetTravelTime net sa sb = edge_time net e"
  using GetTravelTime_cases [OF wf ab] u c unfolding times_uniform_def by metis

lemma SetTravelTime_uniform:
  assumes wf: "wf_network net" and u: "times_uniform net"
    and set: "SetTravelTime sa sb t net = (ok, net')"
  shows "times_uniform net'"
proof (cases "GetStation net sa = None \<or> GetStation net sb = None")
  case True
  then show ?thesis using SetTravelTime_unknown [OF True] set u by simp
next
  case False
  then obtain a b where ab: "GetStation net sa = Some a" "GetStation net sb = Some b" by auto
  note cs = connects_shape [OF wf SetTravelTime_shape [OF set]]
  show ?thesis
    unfolding times_uniform_def cs
  proof (intro allI impI)
    fix x y e e' assume c: "connects net x y e" "connects net x y e'"
    have "connects net a b e \<longleftrightarrow> connects net a b e'"
      using c connects_ends [OF wf] connects_sym by (smt (verit) doubleton_eq_iff)
    then show "edge_time net' e = edge_time net' e'"
      using SetTravelTime_edges(2) [OF wf set ab] c u unfolding times_uniform_def by metis
  qed
qed

lemma find_edge_to_shape:
  assumes wf: "wf_network net" and s: "same_shape net net'" and a: "a < length (nodes net)"
  shows "find_edge_to net' a b = find_edge_to net a b"
  unfolding find_edge_to_def
proof (rule find_cong)
  show "node_edges net' a = node_edges net a" by (rule same_shapeD(4) [OF s a])
next
  fix e assume "e \<in> set (node_edges net a)"
  then have "edge_at net a e" using a by (simp add: edge_at_def)
  then show "(next_stop net' e = b) = (next_stop net e = b)"
    using wf_edge_at [OF wf] same_shapeD(6) [OF s] by (simp add: wf_edge_def)
qed

lemma GetTravelTime_shape:
  assumes wf: "wf_network net" and s: "same_shape net net'"
    and ab: "GetStation net sa = Some a" "GetStation net sb = Some b"
  obtains e where "connects net a b e" and "GetTravelTime net sa sb = edge_time net e"
      and "GetTravelTime net' sa sb = edge_time net' e"
  | "\<nexists>e. connects net a b e" and "GetTravelTime net sa sb = 0" and "GetTravelTime net' sa sb = 0"
proof -
  have a: "a < length (nodes net)" and b: "b < length (nodes net)"
    using ab wf_GetStation [OF wf] by auto
  note f = find_edge_to_shape [OF wf s a, of b] find_edge_to_shape [OF wf s b, of a]
    and g = same_shapeD(7) [OF s]
  show thesis
  proof (cases "find_edge_to net a b")
    case (Some e)
    then show thesis
      using find_edge_to_Some [OF a Some] ab f g
      by (intro that(1) [of e]) (simp_all add: connects_def GetTravelTime_def)
  next
    case ab_None: None
    show thesis
    proof (cases "find_edge_to net b a")
      case (Some e)
      then show thesis
        using find_edge_to_Some [OF b Some] ab ab_None f g
        by (intro that(1) [of e]) (simp_all add: connects_def GetTravelTime_def)
    next
      case None
      then show thesis
        using ab_None ab f g find_edge_to_None that(2)
        by (auto simp: connects_def GetTravelTime_def)
    qed
  qed
qed

lemma connects_same_stations:
  assumes wf: "wf_network net" and c: "connects net x y e"
    and st: "GetStation net sa = Some a" "GetStation net sb = Some b"
      "GetStation net sx = Some x" "GetStation net sy = Some y"
  shows "connects net a b e \<longleftrightarrow> {sx, sy} = {sa, sb}"
proof -
  have "{sx, sy} = {sa, sb} \<longleftrightarrow> {x, y} = {a, b}"
    using st by (simp add: doubleton_eq_iff GetStation_same [OF wf])
  moreover have "connects net a b e \<Longrightarrow> {x, y} = {a, b}"
    using connects_ends [OF wf c] by blast
  moreover have "{x, y} = {a, b} \<Longrightarrow> connects net a b e"
    using c connects_sym by (auto simp: doubleton_eq_iff)
  ultimately show ?thesis by blast
qed

lemma SetTravelTime_ok:
  assumes wf: "wf_network net" and set: "SetTravelTime sa sb t net = (ok, net')"
  shows "ok \<longleftrightarrow> adjacent net sa sb"
proof (cases "GetStation net sa = None \<or> GetStation net sb = None")
  case True
  then show ?thesis using SetTravelTime_unknown [OF True] set by (auto simp: adjacent_def)
next
  case False
  then obtain a b where ab: "GetStation net sa = Some a" "GetStation net sb = Some b" by auto
  show ?thesis using SetTravelTime_edges(1) [OF wf set ab] ab by (auto simp: adjacent_def)
qed

text \<open>C30: \<open>SetTravelTime\<close> succeeds exactly when the two stations are known and adjacent on some
  route; then the travel time read between them, in both directions, is the one set, and the
  travel time between any other pair of stations is what it was.\<close>

theorem SetTravelTime_spec:
  assumes wf: "wf_network net" and set: "SetTravelTime sa sb t net = (ok, net')"
  shows "(ok \<longleftrightarrow> adjacent net sa sb) \<and>
    GetTravelTime net' x y =
      (if ok \<and> {x, y} = {sa, sb} then t else GetTravelTime net x y)"
proof (cases "GetStation net sa = None \<or> GetStation net sb = None")
  case True
  then show ?thesis using SetTravelTime_unknown [OF True] set by (auto simp: adjacent_def)
next
  case False
  then obtain a b where ab: "GetStation net sa = Some a" "GetStation net sb = Some b" by auto
  note s = SetTravelTime_shape [OF set] and ed = SetTravelTime_edges [OF wf set ab]
  have ok: "ok \<longleftrightarrow> adjacent net sa sb" using ed(1) ab by (auto simp: adjacent_def)
  moreover have "GetTravelTime net' x y =
      (if ok \<and> {x, y} = {sa, sb} then t else GetTravelTime net x y)"
  proof (cases "GetStation net x = None \<or> GetStation net y = None")
    case True
    then show ?thesis
      using ab GetTravelTime_unknown [of net x y] GetTravelTime_unknown [of net' x y]
        same_shapeD(7) [OF s] by (auto simp: doubleton_eq_iff)
  next
    case False
    then obtain n m where nm: "GetStation net x = Some n" "GetStation net y = Some m" by auto
    show ?thesis
    proof (rule GetTravelTime_shape [OF wf s nm])
      fix e assume c: "connects net n m e"
        and "GetTravelTime net x y = edge_time net e" "GetTravelTime net' x y = edge_time net' e"
      then show ?thesis
        using ed connects_same_stations [OF wf c ab nm] by auto
    next
      assume no: "\<nexists>e. connects net n m e"
        and z: "GetTravelTime net x y = 0" "GetTravelTime net' x y = 0"
      have "\<not> (ok \<and> {x, y} = {sa, sb})"
        using no ab nm ed(1) connects_sym by (fastforce simp: doubleton_eq_iff)
      with z show ?thesis by auto
    qed
  qed
  ultimately show ?thesis by blast
qed

lemma SetTravelTime_spec_witness:
  "GetTravelTime (snd (SetTravelTime ''A'' ''B'' 7 example_net)) ''B'' ''A'' = 7"
proof -
  have ok: "fst (SetTravelTime ''A'' ''B'' 7 example_net)" by code_simp
  then show ?thesis
    using SetTravelTime_spec [OF example_net_wf prod.collapse [symmetric],
        of "''A''" "''B''" 7 "''B''" "''A''"] by auto
qed

section \<open>Passenger counts\<close>

text \<open>The balance of a station over a list of events: passengers in minus passengers out.\<close>

fun balance :: "Id \<Rightarrow> 'pt PassengerEvent list \<Rightarrow> int" where
  "balance sid [] = 0"
| "balance sid (ev # evs) =
     (if ev_stationId ev = sid then (case ev_type ev of In \<Rightarrow> 1 | Out \<Rightarrow> - 1) else 0) + balance sid evs"

text \<open>The events of a list recorded one after the other, as the handler of messages does.\<close>

definition record_all :: "'pt PassengerEvent list \<Rightarrow> network \<Rightarrow> network" where
  "record_all evs = run_all (\<lambda>ev net. snd (RecordPassengerEvent ev net)) evs"

lemma RecordPassengerEvent_count:
  assumes wf: "wf_network net" and rec: "RecordPassengerEvent ev net = (res, net')"
    and n: "GetStation net sid = Some n"
    and b: "\<bar>gn_passengerCount (nodes net ! n)\<bar> < llong_max"
  shows "gn_passengerCount (nodes net' ! n) =
    gn_passengerCount (nodes net ! n) + balance sid [ev]"
proof (cases "GetStation net (ev_stationId ev)")
  case None
  then show ?thesis using rec n by (auto simp: RecordPassengerEvent_def)
next
  case (Some m)
  have lt: "n < length (nodes net)" "m < length (nodes net)"
    using n Some wf_GetStation [OF wf] by auto
  have mn: "m = n \<longleftrightarrow> ev_stationId ev = sid"
    using GetStation_same [OF wf Some n] .
  show ?thesis
    using rec Some b lt mn
    by (auto simp: RecordPassengerEvent_def Let_def set_count_def llong_max_def llong_min_def
        nth_list_update split: EventType.splits if_splits)
qed

lemma balance_one_bound: "\<bar>balance sid [ev]\<bar> \<le> 1"
  by (simp split: EventType.splits)

lemma record_all_count:
  assumes "wf_network net" and "GetStation net sid = Some n"
    and "\<bar>gn_passengerCount (nodes net ! n)\<bar> + int (length evs) \<le> llong_max"
  shows "GetStation (record_all evs net) sid = Some n \<and>
    gn_passengerCount (nodes (record_all evs net) ! n) =
      gn_passengerCount (nodes net ! n) + balance sid evs"
  using assms
proof (induction evs arbitrary: net)
  case Nil
  then show ?case by (simp add: record_all_def)
next
  case (Cons ev evs)
  let ?c = "\<lambda>net. gn_passengerCount (nodes net ! n)"
  obtain res net1 where r: "RecordPassengerEvent ev net = (res, net1)"
    by (cases "RecordPassengerEvent ev net")
  have c: "?c net1 = ?c net + balance sid [ev]"
    using Cons.prems by (intro RecordPassengerEvent_count [OF _ r]) auto
  have "wf_network net1" and "GetStation net1 sid = Some n"
    using RecordPassengerEvent_shape [OF r] Cons.prems same_shape_wf
    by (auto simp: same_shapeD)
  moreover have "\<bar>?c net1\<bar> + int (length evs) \<le> llong_max"
    using Cons.prems(3) c balance_one_bound [of sid ev] by simp
  ultimately show ?case
    using Cons.IH [of net1] c r by (simp add: record_all_def)
qed

text \<open>After any list of passenger events, the count of a station in the network is its old
  count plus the passengers that entered minus those that left it; events of other or unknown
  stations do not change it. The only bound is that the count stays a \<open>long long\<close>.\<close>

theorem passenger_count_balance:
  assumes wf: "wf_network net" and n: "GetPassengerCount net sid = Returns c"
    and b: "\<bar>c\<bar> + int (length evs) \<le> llong_max"
  shows "GetPassengerCount (record_all evs net) sid = Returns (c + balance sid evs)"
proof -
  obtain m where m: "GetStation net sid = Some m" "c = gn_passengerCount (nodes net ! m)"
    using n by (auto simp: GetPassengerCount_def split: option.splits)
  then show ?thesis
    using record_all_count [OF wf m(1), of evs] b by (simp add: GetPassengerCount_def)
qed

lemma passenger_count_balance_witness:
  "GetPassengerCount (record_all
     [\<lparr>ev_stationId = ''B'', ev_type = Out, ev_timestamp = ()\<rparr>,
      \<lparr>ev_stationId = ''A'', ev_type = In, ev_timestamp = ()\<rparr>,
      \<lparr>ev_stationId = ''B'', ev_type = Out, ev_timestamp = ()\<rparr>] example_net) ''B'' = Returns 1"
proof -
  have "GetPassengerCount example_net ''B'' = Returns 3" by code_simp
  from passenger_count_balance [OF example_net_wf this,
      of "[\<lparr>ev_stationId = ''B'', ev_type = Out, ev_timestamp = ()\<rparr>,
        \<lparr>ev_stationId = ''A'', ev_type = In, ev_timestamp = ()\<rparr>,
        \<lparr>ev_stationId = ''B'', ev_type = Out, ev_timestamp = ()\<rparr>]"]
  show ?thesis by (simp add: llong_max_def)
qed

end
