(* ===== verification/Network_Lines.thy ===== *)
theory Network_Lines
  imports Network_Queries
begin

text \<open>
  Lines and routes: when \<open>AddLine\<close> succeeds and what it files, what a failed \<open>AddLine\<close> leaves
  behind, which routes serve a station, and the travel time along a route.
\<close>

section \<open>What AddLine does\<close>

text \<open>The station IDs along a route.\<close>

definition stop_ids :: "network \<Rightarrow> route_ref \<Rightarrow> Id list" where
  "stop_ids net r = map (\<lambda>n. gn_id (nodes net ! n)) (ri_stops (routes net ! r))"

text \<open>
  What every call of \<open>AddRouteToLine\<close> on the line \<open>l\<close> keeps, also an unsuccessful one: it only
  adds routes, edges and entries of the line's route map.
\<close>

definition grows :: "line_ref \<Rightarrow> network \<Rightarrow> network \<Rightarrow> bool" where
  "grows l net net' \<longleftrightarrow>
     station_map net' = station_map net \<and> line_map net' = line_map net \<and>
     length (lines net') = length (lines net) \<and> length (nodes net') = length (nodes net) \<and>
     (\<forall>n. gn_id (nodes net' ! n) = gn_id (nodes net ! n)) \<and>
     (\<forall>k. k \<noteq> l \<longrightarrow> lines net' ! k = lines net ! k) \<and>
     (\<exists>new. routes net' = routes net @ new) \<and>
     (\<exists>new. edges net' = edges net @ new) \<and>
     (\<forall>n e. edge_at net n e \<longrightarrow> edge_at net' n e) \<and>
     map_of (li_routes (lines net ! l)) \<subseteq>\<^sub>m map_of (li_routes (lines net' ! l))"

lemma grows_refl [simp]: "grows l net net"
  by (simp add: grows_def)

lemma grows_trans: "grows l a b \<Longrightarrow> grows l b c \<Longrightarrow> grows l a c"
  unfolding grows_def by (auto intro: map_le_trans)

lemma grows_GetStation: "grows l net net' \<Longrightarrow> GetStation net' = GetStation net"
  by (simp add: grows_def GetStation_def fun_eq_iff)

lemma AddRouteToLine_result:
  assumes "rt_stops rt \<noteq> []"
  shows "fst (AddRouteToLine rt l net) = Returns
    (map_of (li_routes (lines net ! l)) (rt_id rt) = None \<and>
     (\<forall>s \<in> set (rt_stops rt). GetStation net s \<noteq> None))"
proof (cases "those (map (GetStation net) (rt_stops rt))")
  case None
  then have "\<exists>s \<in> set (rt_stops rt). GetStation net s = None"
    by (auto simp: those_None_iff) metis
  then show ?thesis using None by (auto simp: AddRouteToLine_def)
next
  case (Some stops)
  then have m: "map (GetStation net) (rt_stops rt) = map Some stops" by (simp add: those_Some_iff)
  then have "stops \<noteq> []" using assms by auto
  moreover have "None \<notin> set (map (GetStation net) (rt_stops rt))" unfolding m by auto
  then have "\<forall>s \<in> set (rt_stops rt). GetStation net s \<noteq> None" by (metis image_eqI set_map)
  ultimately show ?thesis using Some by (auto simp: AddRouteToLine_def Let_def)
qed

lemma AddRouteToLine_grows:
  assumes wf: "wf_network net" and l: "l < length (lines net)"
  shows "grows l net (snd (AddRouteToLine rt l net))"
proof (rule AddRouteToLine_cases [of rt l net])
  assume "snd (AddRouteToLine rt l net) = net"
  then show ?thesis by simp
next
  fix stops
  assume a: "map (GetStation net) (rt_stops rt) = map Some stops" "stops \<noteq> []"
    and new: "map_of (li_routes (lines net ! l)) (rt_id rt) = None"
    and eq: "snd (AddRouteToLine rt l net) =
        (fold (add_edge (length (routes net))) (hops stops)
           (net\<lparr>routes := routes net @ [\<lparr>ri_id = rt_id rt, ri_line = l, ri_stops = stops\<rparr>]\<rparr>))
        \<lparr>lines := (lines net)[l := (lines net ! l)\<lparr>li_routes :=
           AList.update (rt_id rt) (length (routes net)) (li_routes (lines net ! l))\<rparr>]\<rparr>"
    (is "_ = (fold ?add _ ?net1)\<lparr>lines := ?lines\<rparr>")
  have stops: "set stops \<subseteq> {..<length (nodes net)}"
    using map_Some_lookup [OF a(1)] wf_GetStation [OF wf] by blast
  then have hs: "fst ` set (hops stops) \<subseteq> {..<length (nodes ?net1)}"
    by (auto dest!: hops_subset)
  have "edge_at net n e \<Longrightarrow> edge_at (snd (AddRouteToLine rt l net)) n e" for n e
    unfolding eq using fold_add_edge_edge_at [OF hs, of "length (routes net)" n e]
    by (simp add: edge_at_def)
  then show ?thesis
    using l new unfolding eq grows_def
    by (auto simp: update_conv' map_le_def split: if_splits)
qed

lemma AddRouteToLine_files:
  assumes wf: "wf_network net" and l: "l < length (lines net)"
    and ok: "AddRouteToLine rt l net = (Returns True, net')"
  shows "map_of (li_routes (lines net' ! l)) = (map_of (li_routes (lines net ! l)))(rt_id rt \<mapsto> length (routes net))"
    and "stop_ids net' (length (routes net)) = rt_stops rt"
    and "routes net' ! length (routes net) = \<lparr>ri_id = rt_id rt, ri_line = l,
           ri_stops = map (\<lambda>s. the (GetStation net s)) (rt_stops rt)\<rparr>"
    and "length (routes net') = Suc (length (routes net))"
proof -
  have "map_of (li_routes (lines net' ! l)) = (map_of (li_routes (lines net ! l)))(rt_id rt \<mapsto> length (routes net)) \<and>
    stop_ids net' (length (routes net)) = rt_stops rt \<and>
    routes net' ! length (routes net) = \<lparr>ri_id = rt_id rt, ri_line = l,
           ri_stops = map (\<lambda>s. the (GetStation net s)) (rt_stops rt)\<rparr> \<and>
    length (routes net') = Suc (length (routes net))"
  proof (rule AddRouteToLine_cases [of rt l net])
    assume "fst (AddRouteToLine rt l net) \<noteq> Returns True"
    then show ?thesis using ok by simp
  next
    fix stops
    assume a: "map (GetStation net) (rt_stops rt) = map Some stops"
      and eq: "snd (AddRouteToLine rt l net) =
        (fold (add_edge (length (routes net))) (hops stops)
           (net\<lparr>routes := routes net @ [\<lparr>ri_id = rt_id rt, ri_line = l, ri_stops = stops\<rparr>]\<rparr>))
        \<lparr>lines := (lines net)[l := (lines net ! l)\<lparr>li_routes :=
           AList.update (rt_id rt) (length (routes net)) (li_routes (lines net ! l))\<rparr>]\<rparr>"
    have "map (the \<circ> GetStation net) (rt_stops rt) = map (the \<circ> Some) stops"
      using arg_cong [OF a, of "map the"] by simp
    then have st: "map (\<lambda>s. the (GetStation net s)) (rt_stops rt) = stops" by (simp add: comp_def)
    have "gn_id (nodes net ! the (GetStation net s)) = s" if "s \<in> set (rt_stops rt)" for s
    proof -
      have "GetStation net s \<in> set (map Some stops)" using that unfolding a [symmetric] by simp
      then obtain n where n: "GetStation net s = Some n" by auto
      then have "gn_id (nodes net ! n) = s" using wf_GetStation [OF wf] by blast
      with n show ?thesis by simp
    qed
    then have "map (\<lambda>n. gn_id (nodes net ! n)) stops = rt_stops rt"
      unfolding st [symmetric] by (simp add: map_idI)
    then show ?thesis
      using ok eq l st by (simp add: stop_ids_def update_conv')
  qed
  then show "map_of (li_routes (lines net' ! l)) = (map_of (li_routes (lines net ! l)))(rt_id rt \<mapsto> length (routes net))"
    and "stop_ids net' (length (routes net)) = rt_stops rt"
    and "routes net' ! length (routes net) = \<lparr>ri_id = rt_id rt, ri_line = l,
           ri_stops = map (\<lambda>s. the (GetStation net s)) (rt_stops rt)\<rparr>"
    and "length (routes net') = Suc (length (routes net))"
    by simp_all
qed

text \<open>The loop over the routes.\<close>

lemma add_routes_step:
  assumes "AddRouteToLine rt l net = (res1, net1)"
  shows "res1 = Returns True \<Longrightarrow> add_routes l (rt # rts) net = add_routes l rts net1"
    and "res1 \<noteq> Returns True \<Longrightarrow> add_routes l (rt # rts) net = (res1, net1)"
  using assms by (auto split: outcome.splits bool.splits)

declare add_routes.simps(2) [simp del]

lemma add_routes_grows:
  "wf_network net \<Longrightarrow> l < length (lines net) \<Longrightarrow> grows l net (snd (add_routes l rts net))"
proof (induction rts arbitrary: net)
  case Nil
  then show ?case by simp
next
  case (Cons rt rts)
  obtain res1 net1 where r1: "AddRouteToLine rt l net = (res1, net1)"
    by (cases "AddRouteToLine rt l net")
  have g1: "grows l net net1" using AddRouteToLine_grows [OF Cons.prems, of rt] r1 by simp
  show ?case
  proof (cases "res1 = Returns True")
    case True
    have "grows l net1 (snd (add_routes l rts net1))"
      using AddRouteToLine_wf [OF Cons.prems r1] Cons.prems by (intro Cons.IH) auto
    then show ?thesis
      using grows_trans [OF g1] add_routes_step(1) [OF r1 True] by simp
  next
    case False
    then show ?thesis using g1 add_routes_step(2) [OF r1 False] by simp
  qed
qed

lemma add_routes_result:
  assumes "wf_network net" "l < length (lines net)" "\<forall>rt \<in> set rts. rt_stops rt \<noteq> []"
  shows "fst (add_routes l rts net) = Returns
    (distinct (map rt_id rts) \<and> rt_id ` set rts \<inter> dom (map_of (li_routes (lines net ! l))) = {} \<and>
     (\<forall>rt \<in> set rts. \<forall>s \<in> set (rt_stops rt). GetStation net s \<noteq> None))"
  using assms
proof (induction rts arbitrary: net)
  case Nil
  then show ?case by simp
next
  case (Cons rt rts)
  obtain res1 net1 where r1: "AddRouteToLine rt l net = (res1, net1)"
    by (cases "AddRouteToLine rt l net")
  have res1: "res1 = Returns (map_of (li_routes (lines net ! l)) (rt_id rt) = None \<and>
     (\<forall>s \<in> set (rt_stops rt). GetStation net s \<noteq> None))"
    using AddRouteToLine_result [of rt l net] r1 Cons.prems by simp
  show ?case
  proof (cases "res1 = Returns True")
    case True
    have gs: "GetStation net1 = GetStation net"
      using grows_GetStation [OF AddRouteToLine_grows [OF Cons.prems(1,2), of rt]] r1 by simp
    have dm: "dom (map_of (li_routes (lines net1 ! l))) =
        insert (rt_id rt) (dom (map_of (li_routes (lines net ! l))))"
      unfolding AddRouteToLine_files(1) [OF Cons.prems(1,2) r1 [unfolded True]] by simp
    have "fst (add_routes l rts net1) = Returns (distinct (map rt_id rts) \<and>
        rt_id ` set rts \<inter> insert (rt_id rt) (dom (map_of (li_routes (lines net ! l)))) = {} \<and>
        (\<forall>rt \<in> set rts. \<forall>s \<in> set (rt_stops rt). GetStation net s \<noteq> None))"
      unfolding dm [symmetric] gs [symmetric]
      using AddRouteToLine_wf [OF Cons.prems(1,2) r1] Cons.prems by (intro Cons.IH) auto
    then show ?thesis
      using add_routes_step(1) [OF r1 True, of rts] res1 True by auto
  next
    case False
    then show ?thesis
      using add_routes_step(2) [OF r1 False] res1 by auto
  qed
qed

lemma stop_ids_grows:
  assumes "grows l net net'" and "r < length (routes net)"
  shows "stop_ids net' r = stop_ids net r" and "routes net' ! r = routes net ! r"
  using assms by (auto simp: grows_def stop_ids_def nth_append)

lemma add_routes_files:
  "wf_network net \<Longrightarrow> l < length (lines net) \<Longrightarrow> add_routes l rts net = (Returns True, net') \<Longrightarrow>
   rt \<in> set rts \<Longrightarrow>
   \<exists>r. map_of (li_routes (lines net' ! l)) (rt_id rt) = Some r \<and> r < length (routes net') \<and>
       stop_ids net' r = rt_stops rt"
proof (induction rts arbitrary: net)
  case Nil
  then show ?case by simp
next
  case (Cons rt1 rts)
  obtain res1 net1 where r1: "AddRouteToLine rt1 l net = (res1, net1)"
    by (cases "AddRouteToLine rt1 l net")
  have ok: "res1 = Returns True" "add_routes l rts net1 = (Returns True, net')"
    using Cons.prems(3) add_routes_step [OF r1, of rts] by (cases "res1 = Returns True"; simp)+
  have w1: "wf_network net1" "l < length (lines net1)"
    using AddRouteToLine_wf [OF Cons.prems(1,2) r1] Cons.prems(2) by auto
  show ?case
  proof (cases "rt \<in> set rts")
    case True
    then show ?thesis using Cons.IH [OF w1 ok(2)] by simp
  next
    case False
    then have "rt = rt1" using Cons.prems(4) by simp
    note f = AddRouteToLine_files [OF Cons.prems(1,2) r1 [unfolded ok(1)]]
    have g: "grows l net1 net'" using add_routes_grows [OF w1, of rts] ok(2) by simp
    have "map_of (li_routes (lines net' ! l)) (rt_id rt) = Some (length (routes net))"
      using g f(1) \<open>rt = rt1\<close> by (auto simp: grows_def map_le_def dom_def)
    moreover have "length (routes net) < length (routes net')"
      using g f(4) by (auto simp: grows_def)
    moreover have "stop_ids net' (length (routes net)) = rt_stops rt"
      using stop_ids_grows(1) [OF g] f(2,4) \<open>rt = rt1\<close> by simp
    ultimately show ?thesis by blast
  qed
qed

text \<open>\<open>AddLine\<close> in terms of the loop.\<close>

abbreviation new_line :: "Line \<Rightarrow> network \<Rightarrow> network" where
  "new_line line net \<equiv> net\<lparr>lines := lines net @
     [\<lparr>li_id = ln_id line, li_name = ln_name line, li_routes = []\<rparr>]\<rparr>"

lemma AddLine_cases:
  assumes "AddLine line net = (res, net')"
  obtains (known) "GetLine net (ln_id line) \<noteq> None" and "res = Returns False" and "net' = net"
  | (failed) "GetLine net (ln_id line) = None" and "res \<noteq> Returns True"
      and "add_routes (length (lines net)) (ln_routes line) (new_line line net) = (res, net')"
  | (added) net2 where "GetLine net (ln_id line) = None" and "res = Returns True"
      and "add_routes (length (lines net)) (ln_routes line) (new_line line net) = (Returns True, net2)"
      and "net' = net2\<lparr>line_map := umap_emplace (ln_id line) (length (lines net)) (line_map net2)\<rparr>"
proof (cases "GetLine net (ln_id line) = None")
  case False
  then show ?thesis using assms by (intro known) (auto simp: AddLine_def)
next
  case True
  obtain res2 net2
    where r: "add_routes (length (lines net)) (ln_routes line) (new_line line net) = (res2, net2)"
    by (cases "add_routes (length (lines net)) (ln_routes line) (new_line line net)")
  show ?thesis
  proof (cases "res2 = Returns True")
    case ok: True
    then show ?thesis using assms True r by (intro added) (auto simp: AddLine_def Let_def)
  next
    case False
    then have "res2 = res" "net2 = net'"
      using assms True r by (auto simp: AddLine_def Let_def split: outcome.splits bool.splits)
    then show ?thesis using True r False by (intro failed) auto
  qed
qed

definition example_line :: Line where
  "example_line = \<lparr>ln_id = ''L3'', ln_name = ''New'', ln_routes =
     [\<lparr>rt_id = ''R3'', rt_direction = ''out'', rt_lineId = ''L3'', rt_startStationId = ''A'',
       rt_endStationId = ''C'', rt_stops = [''A'', ''C'']\<rparr>]\<rparr>"

text \<open>Adding a line whose routes all have stops returns true exactly when the line is new,
  its route IDs are distinct and every stop of every route is a station of the network.\<close>

theorem AddLine_result:
  assumes wf: "wf_network net" and ne: "\<forall>rt \<in> set (ln_routes line). rt_stops rt \<noteq> []"
  shows "fst (AddLine line net) = Returns
    (GetLine net (ln_id line) = None \<and> distinct (map rt_id (ln_routes line)) \<and>
     (\<forall>rt \<in> set (ln_routes line). \<forall>s \<in> set (rt_stops rt). GetStation net s \<noteq> None))"
proof -
  have gs: "GetStation (new_line line net) = GetStation net" by (simp add: fun_eq_iff GetStation_def)
  have r: "fst (add_routes (length (lines net)) (ln_routes line) (new_line line net)) =
    Returns (distinct (map rt_id (ln_routes line)) \<and>
     (\<forall>rt \<in> set (ln_routes line). \<forall>s \<in> set (rt_stops rt). GetStation net s \<noteq> None))"
    using add_routes_result [OF wf_new_line [OF wf] _ ne] gs by simp
  obtain res net' where a: "AddLine line net = (res, net')" by (cases "AddLine line net")
  then show ?thesis
    by (rule AddLine_cases) (use a r in \<open>auto simp del: not_None_eq\<close>)
qed

lemma AddLine_result_witness: "fst (AddLine example_line example_net) = Returns True"
  by (subst AddLine_result [OF example_net_wf]) (simp_all add: example_line_def)

lemma GetRoute_file_line:
  assumes "GetLine net (ln_id line) = None" and g: "grows (length (lines net)) (new_line line net) net2"
    and wf: "wf_network net"
    and net': "net' = net2\<lparr>line_map := umap_emplace (ln_id line) (length (lines net)) (line_map net2)\<rparr>"
  shows "GetRoute net' lid rid =
    (if lid = ln_id line then map_of (li_routes (lines net2 ! length (lines net))) rid
     else GetRoute net lid rid)"
proof -
  have lm: "line_map net2 = line_map net" using g by (simp add: grows_def)
  have "lines net2 ! k = lines net ! k" if "GetLine net lid = Some k" for k
    using wf_GetLine [OF wf that] g by (simp add: grows_def nth_append)
  then show ?thesis
    using assms(1) by (auto simp: GetRoute_def GetLine_def net' lm umap_simps split: option.splits)
qed

lemma files_routes:
  assumes wf: "wf_network net" and add: "AddLine line net = (Returns True, net')"
  shows "(\<forall>rt \<in> set (ln_routes line). \<exists>r. GetRoute net' (ln_id line) (rt_id rt) = Some r \<and>
            stop_ids net' r = rt_stops rt) \<and>
    (\<forall>lid rid. lid \<noteq> ln_id line \<longrightarrow> GetRoute net' lid rid = GetRoute net lid rid)"
  using add
proof (cases rule: AddLine_cases)
  case (added net2)
  have l: "length (lines net) < length (lines (new_line line net))" by simp
  have g: "grows (length (lines net)) (new_line line net) net2"
    using add_routes_grows [OF wf_new_line [OF wf] l] added(3) by (metis snd_conv)
  note gr = GetRoute_file_line [OF added(1) g wf added(4)]
  have "stop_ids net' r = stop_ids net2 r" for r by (simp add: stop_ids_def added(4))
  then show ?thesis
    using add_routes_files [OF wf_new_line [OF wf] l added(3)] by (auto simp: gr)
qed simp_all

text \<open>After a line is added, each of its routes is found under the line's and the route's ID
  with exactly the stops it was given, in order, and every lookup under another line's ID is
  what it was.\<close>

theorem AddLine_files_routes:
  assumes wf: "wf_network net" and add: "AddLine line net = (Returns True, net')"
  shows "(\<forall>rt \<in> set (ln_routes line). \<exists>r. GetRoute net' (ln_id line) (rt_id rt) = Some r \<and>
            stop_ids net' r = rt_stops rt) \<and>
    (\<forall>lid rid. lid \<noteq> ln_id line \<longrightarrow> GetRoute net' lid rid = GetRoute net lid rid)"
  by (rule files_routes [OF assms])

lemma AddLine_files_routes_witness:
  "\<exists>r. GetRoute (snd (AddLine example_line example_net)) ''L3'' ''R3'' = Some r \<and>
     stop_ids (snd (AddLine example_line example_net)) r = [''A'', ''C'']"
proof -
  have "fst (AddLine example_line example_net) = Returns True" by code_simp
  then have "AddLine example_line example_net =
      (Returns True, snd (AddLine example_line example_net))"
    by (metis prod.collapse)
  from AddLine_files_routes [OF example_net_wf this] show ?thesis
    by (simp add: example_line_def)
qed

section \<open>Routes serving a station\<close>

lemma GetRoute_Some_iff:
  "GetRoute net lid rid = Some r \<longleftrightarrow>
     (\<exists>l. GetLine net lid = Some l \<and> map_of (li_routes (lines net ! l)) rid = Some r)"
  by (auto simp: GetRoute_def split: option.splits)

lemma in_all_routes:
  assumes wf: "wf_network net"
  shows "r \<in> set (all_routes net) \<longleftrightarrow> (\<exists>lid rid. GetRoute net lid rid = Some r)"
proof -
  have lm: "umap_ok (line_map net)" using wf by (simp add: wf_network_def wf_line_map_def)
  have rm: "umap_ok (li_routes (lines net ! l))" if "GetLine net lid = Some l" for l lid
    using wf_GetLine [OF wf that] wf_lineD [OF wf] by (simp add: wf_line_def)
  have "r \<in> set (all_routes net) \<longleftrightarrow>
      (\<exists>lid l rid. (lid, l) \<in> set (line_map net) \<and> (rid, r) \<in> set (li_routes (lines net ! l)))"
  proof -
    have "all_routes net = concat (map (\<lambda>p. map snd (li_routes (lines net ! snd p))) (line_map net))"
      by (simp add: all_routes_def case_prod_beta')
    moreover have "r \<in> snd ` A \<longleftrightarrow> (\<exists>rid. (rid, r) \<in> A)" for A :: "(Id \<times> route_ref) set"
      by force
    ultimately show ?thesis by (simp add: Bex_def)
  qed
  also have "\<dots> \<longleftrightarrow> (\<exists>lid l rid. GetLine net lid = Some l \<and>
      map_of (li_routes (lines net ! l)) rid = Some r)"
    using umap_in_iff [OF rm] unfolding umap_in_iff [OF lm] GetLine_def by blast
  also have "\<dots> \<longleftrightarrow> (\<exists>lid rid. GetRoute net lid rid = Some r)"
    by (auto simp: GetRoute_Some_iff)
  finally show ?thesis .
qed

text \<open>
  Every edge belongs to a route that is in the network. This is what a failed \<open>AddLine\<close> breaks.
\<close>

definition edges_registered :: "network \<Rightarrow> bool" where
  "edges_registered net \<longleftrightarrow>
     (\<forall>n e. edge_at net n e \<longrightarrow> (\<exists>lid rid. GetRoute net lid rid = Some (edge_route net e)))"

lemma sid_in_stop_ids:
  assumes wf: "wf_network net" and r: "r < length (routes net)" and n: "GetStation net sid = Some n"
  shows "sid \<in> set (stop_ids net r) \<longleftrightarrow> n \<in> set (ri_stops (routes net ! r))"
proof -
  have "set (ri_stops (routes net ! r)) \<subseteq> {..<length (nodes net)}"
    using wf_routeD [OF wf r] by (simp add: wf_route_def)
  then show ?thesis
    using n wf_GetStation [OF wf] by (auto simp: stop_ids_def image_iff subset_iff)
      (metis option.inject)
qed

lemma GetRoutesServingStation_eq:
  assumes wf: "wf_network net" and n: "GetStation net sid = Some n"
  shows "GetRoutesServingStation net sid = Returns
    (map (\<lambda>e. ri_id (routes net ! edge_route net e)) (node_edges net n) @
     map (\<lambda>r. ri_id (routes net ! r))
       (filter (\<lambda>r. last (ri_stops (routes net ! r)) = n) (all_routes net)))"
proof -
  have "ri_stops (routes net ! r) \<noteq> []" if "r \<in> set (all_routes net)" for r
    using wf_routeD [OF wf wf_all_routes [OF wf that]] by (simp add: wf_route_def)
  then show ?thesis using n by (auto simp: GetRoutesServingStation_def list_ex_iff)
qed

lemma stops_at:
  assumes wf: "wf_network net" and n: "GetStation net sid = Some n"
    and g: "GetRoute net lid rid = Some r" and at: "n \<in> set (ri_stops (routes net ! r))"
  shows "GetRoute net lid (ri_id (routes net ! r)) = Some r \<and> sid \<in> set (stop_ids net r)"
  using g at wf_GetRoute [OF wf g] sid_in_stop_ids [OF wf _ n] by simp

text \<open>A route is listed by an edge of the station, or as one that ends there.\<close>

lemma edge_serves:
  assumes wf: "wf_network net" and reg: "edges_registered net" and n: "GetStation net sid = Some n"
    and e: "edge_at net n e"
  shows "\<exists>lid r. GetRoute net lid (ri_id (routes net ! edge_route net e)) = Some r \<and> sid \<in> set (stop_ids net r)"
proof -
  obtain lid rid where g: "GetRoute net lid rid = Some (edge_route net e)"
    using reg e unfolding edges_registered_def by blast
  have "n \<in> set (ri_stops (routes net ! edge_route net e))"
    using wf_edge_at [OF wf e] by (auto simp: wf_edge_def dest: hops_subset)
  from stops_at [OF wf n g this] show ?thesis by blast
qed

lemma terminus_serves:
  assumes wf: "wf_network net" and n: "GetStation net sid = Some n"
    and r: "r \<in> set (all_routes net)" "last (ri_stops (routes net ! r)) = n"
  shows "\<exists>lid r'. GetRoute net lid (ri_id (routes net ! r)) = Some r' \<and> sid \<in> set (stop_ids net r')"
proof -
  obtain lid rid where g: "GetRoute net lid rid = Some r" using r(1) by (auto simp: in_all_routes [OF wf])
  have "ri_stops (routes net ! r) \<noteq> []"
    using wf_routeD [OF wf wf_GetRoute(1) [OF wf g]] by (simp add: wf_route_def)
  then have "n \<in> set (ri_stops (routes net ! r))" using r(2) last_in_set by blast
  from stops_at [OF wf n g this] show ?thesis by blast
qed

lemma served_listed:
  assumes wf: "wf_network net" and n: "GetStation net sid = Some n"
    and g: "GetRoute net lid rid = Some r" and s: "sid \<in> set (stop_ids net r)"
  shows "(\<exists>e \<in> set (node_edges net n). rid = ri_id (routes net ! edge_route net e)) \<or>
    (\<exists>r \<in> set (all_routes net). last (ri_stops (routes net ! r)) = n \<and> rid = ri_id (routes net ! r))"
proof -
  note r = wf_GetRoute [OF wf g]
  have "n \<in> set (ri_stops (routes net ! r))" using s sid_in_stop_ids [OF wf r(1) n] by simp
  then consider "n = last (ri_stops (routes net ! r))"
    | b where "(n, b) \<in> set (hops (ri_stops (routes net ! r)))"
    using hops_left_or_last [of n "ri_stops (routes net ! r)"] by blast
  then show ?thesis
  proof cases
    case 1
    moreover have "r \<in> set (all_routes net)" using g in_all_routes [OF wf] by blast
    ultimately show ?thesis using r(2) by blast
  next
    case 2
    then obtain e where "edge_at net n e" "edge_route net e = r"
      using wf_routeD [OF wf r(1)] by (auto simp: has_edges_for_def)
    then show ?thesis using r(2) by (auto simp: edge_at_def)
  qed
qed

text \<open>C31: in a network without the leftovers of a failed \<open>AddLine\<close>, the routes serving a station
  are exactly the routes of the network that stop there, whether the station is a terminus or
  in the middle.\<close>

theorem GetRoutesServingStation_spec:
  assumes wf: "wf_network net" and reg: "edges_registered net"
    and n: "GetStation net sid = Some n"
  shows "\<exists>ids. GetRoutesServingStation net sid = Returns ids \<and>
    set ids = {rid. \<exists>lid r. GetRoute net lid rid = Some r \<and> sid \<in> set (stop_ids net r)}"
proof -
  have "n < length (nodes net)" using n wf_GetStation [OF wf] by simp
  then have at: "edge_at net n e \<longleftrightarrow> e \<in> set (node_edges net n)" for e by (simp add: edge_at_def)
  show ?thesis
    unfolding GetRoutesServingStation_eq [OF wf n]
    using edge_serves [OF wf reg n, unfolded at] terminus_serves [OF wf n] served_listed [OF wf n]
    by (fastforce)
qed

lemma example_registered: "edges_registered example_net"
proof -
  have "\<exists>lid rid. GetRoute example_net lid rid = Some 0" "\<exists>lid rid. GetRoute example_net lid rid = Some 1"
    using example_lines(2,3) by blast+
  then show ?thesis
    by (auto simp: edges_registered_def example_edge_at)
qed

lemma GetRoutesServingStation_spec_witness:
  "\<exists>ids. GetRoutesServingStation example_net ''A'' = Returns ids \<and> ''R2'' \<in> set ids"
proof -
  have "''A'' \<in> set (stop_ids example_net 1)" by code_simp
  then show ?thesis
    using GetRoutesServingStation_spec [OF example_net_wf example_registered example_stations(1)]
      example_lines(3) by blast
qed

section \<open>A line that fails half way\<close>

text \<open>The edges of the routes that were added before the failure stay in the stations.\<close>

lemma AddRouteToLine_first_edge:
  assumes wf: "wf_network net" and l: "l < length (lines net)"
    and ok: "AddRouteToLine rt l net = (Returns True, net')"
    and st: "rt_stops rt = s0 # s1 # rest" and n: "GetStation net s0 = Some n"
  shows "\<exists>e. edge_at net' n e \<and> edge_route net' e = length (routes net)"
proof -
  note f = AddRouteToLine_files [OF wf l ok]
  have w: "wf_network net'" using AddRouteToLine_wf [OF wf l ok] by simp
  have "has_edges_for net' (length (routes net))"
    using wf_routeD [OF w, of "length (routes net)"] f(4) by simp
  moreover have "(n, the (GetStation net s1)) \<in>
      set (hops (ri_stops (routes net' ! length (routes net))))"
    using f(3) st n by simp
  ultimately show ?thesis unfolding has_edges_for_def by blast
qed

text \<open>C35: \<open>AddLine\<close> is not atomic. When a later route of a new line cannot be added, the call
  returns false and the line is not in the network, but the routes before it stay on their
  stations' edges and are still reported as serving them (and are travelled by the path
  search).\<close>

theorem AddLine_failure_leaves_routes:
  assumes wf: "wf_network net" and new: "GetLine net (ln_id line) = None"
    and rts: "ln_routes line = rt # rts" and st: "rt_stops rt = s0 # s1 # rest"
    and known: "\<forall>s \<in> set (rt_stops rt). GetStation net s \<noteq> None"
    and fail: "AddLine line net = (Returns False, net')"
  shows "GetLine net' (ln_id line) = None \<and>
    (\<exists>ids. GetRoutesServingStation net' s0 = Returns ids \<and> rt_id rt \<in> set ids)"
proof -
  let ?l = "length (lines net)" and ?net1 = "new_line line net"
  have w1: "wf_network ?net1" and l: "?l < length (lines ?net1)" using wf_new_line [OF wf] by simp_all
  have gs: "GetStation ?net1 = GetStation net" by (simp add: fun_eq_iff GetStation_def)
  have loop: "add_routes ?l (rt # rts) ?net1 = (Returns False, net')"
    using fail new rts by (cases rule: AddLine_cases) simp_all
  obtain res2 net2 where r2: "AddRouteToLine rt ?l ?net1 = (res2, net2)"
    by (cases "AddRouteToLine rt ?l ?net1")
  have ok: "res2 = Returns True"
    using AddRouteToLine_result [of rt ?l ?net1] r2 st known gs by simp
  note w2 = AddRouteToLine_wf [OF w1 l r2] and f = AddRouteToLine_files [OF w1 l r2 [unfolded ok]]
  have rest: "add_routes ?l rts net2 = (Returns False, net')"
    using loop add_routes_step(1) [OF r2 ok] by simp
  have l2: "?l < length (lines net2)" using w2 l by simp
  have g: "grows ?l net2 net'" using add_routes_grows [OF conjunct1 [OF w2] l2, of rts] rest by simp
  have wf': "wf_network net'" using AddLine_wf [OF wf fail] .
  obtain n where n: "GetStation net s0 = Some n" using known st by auto
  obtain e where e: "edge_at net2 n e" "edge_route net2 e = length (routes ?net1)"
    using AddRouteToLine_first_edge [OF w1 l r2 [unfolded ok] st] n gs by auto
  have el: "e < length (edges net2)" using wf_edge_at [OF conjunct1 [OF w2] e(1)] by (simp add: wf_edge_def)
  have "edge_at net' n e" and "edge_route net' e = length (routes ?net1)"
    using g e el by (auto simp: grows_def nth_append)
  moreover have "ri_id (routes net' ! length (routes ?net1)) = rt_id rt"
    using stop_ids_grows(2) [OF g, of "length (routes ?net1)"] f(3,4) by simp
  moreover have "GetStation net' s0 = Some n"
    using n gs grows_GetStation [OF g] w2 by (simp add: GetStation_def)
  ultimately have "\<exists>ids. GetRoutesServingStation net' s0 = Returns ids \<and> rt_id rt \<in> set ids"
    using GetRoutesServingStation_eq [OF wf', of s0 n] by (force simp: edge_at_def)
  moreover have "GetLine net' (ln_id line) = None"
    using new g w2 by (simp add: grows_def GetLine_def)
  ultimately show ?thesis by blast
qed

lemma AddLine_failure_leaves_routes_witness:
  "\<exists>net' ids. AddLine (example_line\<lparr>ln_routes := ln_routes example_line @ ln_routes example_line\<rparr>)
      example_net = (Returns False, net') \<and> GetLine net' ''L3'' = None \<and>
     GetRoutesServingStation net' ''A'' = Returns ids \<and> ''R3'' \<in> set ids"
proof -
  let ?line = "example_line\<lparr>ln_routes := ln_routes example_line @ ln_routes example_line\<rparr>"
  have "fst (AddLine ?line example_net) = Returns False" by code_simp
  then have f: "AddLine ?line example_net = (Returns False, snd (AddLine ?line example_net))"
    by (metis prod.collapse)
  show ?thesis
    using AddLine_failure_leaves_routes [OF example_net_wf _ _ _ _ f,
        of "hd (ln_routes example_line)" "ln_routes example_line" "''A''" "''C''" "[]"] f
    by (auto simp: example_line_def)
qed

section \<open>Travel time along a route\<close>

text \<open>The sum of the travel times between consecutive stations of a list.\<close>

definition sum_times :: "network \<Rightarrow> Id list \<Rightarrow> u32" where
  "sum_times net ids = sum_list (map (\<lambda>(x, y). GetTravelTime net x y) (hops ids))"

lemma walk_stops_skip:
  "a \<notin> set pre \<Longrightarrow> b \<notin> set pre \<Longrightarrow>
   walk_stops net r a b (pre @ xs) False t = walk_stops net r a b xs False t"
  by (induction pre) auto

lemma FindEdge_time:
  assumes wf: "wf_network net" and u: "times_uniform net" and r: "r < length (routes net)"
    and d: "distinct (ri_stops (routes net ! r))"
    and xy: "(x, y) \<in> set (hops (ri_stops (routes net ! r)))"
  obtains e where "FindEdgeForRoute net x r = Some e"
    and "edge_time net e = GetTravelTime net (gn_id (nodes net ! x)) (gn_id (nodes net ! y))"
proof -
  obtain e0 where e0: "edge_at net x e0" "edge_route net e0 = r"
    using wf_routeD [OF wf r] xy by (auto simp: has_edges_for_def)
  then obtain e where f: "FindEdgeForRoute net x r = Some e"
    unfolding FindEdgeForRoute_def edge_at_def by (cases "List.find (\<lambda>e. edge_route net e = r) (node_edges net x)")
      (auto simp: find_None_iff)
  have x: "x < length (nodes net)" using e0(1) by (simp add: edge_at_def)
  have e: "edge_at net x e" "edge_route net e = r"
    using f x by (auto simp: FindEdgeForRoute_def find_Some_iff edge_at_def)
  have "(x, next_stop net e) \<in> set (hops (ri_stops (routes net ! r)))"
    using wf_edge_at [OF wf e(1)] e(2) by (simp add: wf_edge_def)
  then have "next_stop net e = y"
    using xy d by (auto simp: set_hops nth_eq_iff_index_eq)
  moreover have "next_stop net e < length (nodes net)"
    using wf_edge_at [OF wf e(1)] by (simp add: wf_edge_def)
  ultimately have "edge_time net e = GetTravelTime net (gn_id (nodes net ! x)) (gn_id (nodes net ! y))"
    using GetTravelTime_uniform [OF wf u, of _ x _ y e] e(1) x wf_GetStation [OF wf]
    by (simp add: connects_def)
  with f show thesis by (rule that)
qed

lemma walk_stops_sum:
  assumes wf: "wf_network net" and u: "times_uniform net" and r: "r < length (routes net)"
    and d: "distinct (ri_stops (routes net ! r))"
    and h: "set (hops (ys @ [b])) \<subseteq> set (hops (ri_stops (routes net ! r)))" and b: "b \<notin> set ys"
  shows "walk_stops net r a b (ys @ b # post) True t =
    t + sum_times net (map (\<lambda>n. gn_id (nodes net ! n)) (ys @ [b]))"
  using h b
proof (induction ys arbitrary: t)
  case Nil
  then show ?case by (simp add: sum_times_def)
next
  case (Cons x ys)
  obtain y zs where yz: "ys @ [b] = y # zs" by (cases "ys @ [b]") auto
  then have "(x, y) \<in> set (hops (ri_stops (routes net ! r)))" using Cons.prems by auto
  then obtain e where e: "FindEdgeForRoute net x r = Some e"
      "edge_time net e = GetTravelTime net (gn_id (nodes net ! x)) (gn_id (nodes net ! y))"
    using FindEdge_time [OF wf u r d] by blast
  have "set (hops (ys @ [b])) \<subseteq> set (hops (ri_stops (routes net ! r)))"
    using Cons.prems(1) yz by auto
  then have "walk_stops net r a b (ys @ b # post) True (t + edge_time net e) =
      t + edge_time net e + sum_times net (map (\<lambda>n. gn_id (nodes net ! n)) (ys @ [b]))"
    using Cons.prems(2) by (intro Cons.IH) auto
  then show ?case
    using e Cons.prems(2) yz by (simp add: sum_times_def algebra_simps)
qed

lemma hops_infix: "set (hops ys) \<subseteq> set (hops (xs @ ys @ zs))"
proof -
  have a: "set (hops ys) \<subseteq> set (hops (ys @ zs))" for ys zs :: "'a list"
    by (induction ys rule: induct_list012) auto
  have "set (hops ys) \<subseteq> set (hops (xs @ ys))" for xs ys :: "'a list"
    by (induction xs rule: induct_list012) (cases ys; auto)+
  from this [of "ys @ zs" xs] a [of ys zs] show ?thesis by blast
qed

text \<open>A walk along a stretch of a route, and against it.\<close>

lemma walk_stops_along:
  assumes wf: "wf_network net" and u: "times_uniform net" and r: "r < length (routes net)"
    and split: "ri_stops (routes net ! r) = pre @ ns @ post" and d: "distinct (pre @ ns @ post)" and ne: "ns \<noteq> []"
  shows "walk_stops net r (hd ns) (last ns) (pre @ ns @ post) False 0 =
    sum_times net (map (\<lambda>n. gn_id (nodes net ! n)) ns)"
proof -
  define a where "a = hd ns"
  define b where "b = last ns"
  have eq: "ns = butlast ns @ [b]" using ne by (simp add: b_def)
  have "a \<in> set ns" "b \<in> set ns" using ne by (simp_all add: a_def b_def)
  then have skip: "a \<notin> set pre" "b \<notin> set pre" using d by auto
  have "b \<notin> set (butlast ns)" using d distinct_butlast by (subst (asm) eq) auto
  moreover have "set (hops (butlast ns @ [b])) \<subseteq> set (hops (ri_stops (routes net ! r)))"
    using hops_infix [of ns pre post] split eq by simp
  moreover have "walk_stops net r a b (pre @ ns @ post) False 0 =
      walk_stops net r a b (butlast ns @ b # post) True 0"
  proof (cases "butlast ns")
    case Nil
    then have "ns = [b]" using eq by simp
    then show ?thesis using walk_stops_skip [OF skip] Nil by simp
  next
    case (Cons x xs)
    then have "ns = a # xs @ [b]" "x = a" using eq a_def by (metis append_Cons list.sel(1))+
    then show ?thesis using walk_stops_skip [OF skip] Cons by (simp add: Let_def)
  qed
  ultimately have "walk_stops net r a b (pre @ ns @ post) False 0 =
      0 + sum_times net (map (\<lambda>n. gn_id (nodes net ! n)) (butlast ns @ [b]))"
    using walk_stops_sum [OF wf u r, of "butlast ns" b a post 0] d split by simp
  then show ?thesis unfolding eq [symmetric] by (simp add: a_def b_def)
qed

lemma walk_stops_against:
  assumes d: "distinct (pre @ ns @ post)" and ne: "ns \<noteq> []" and ab: "hd ns \<noteq> last ns"
  shows "walk_stops net r (last ns) (hd ns) (pre @ ns @ post) False 0 = 0"
proof -
  have "last ns \<notin> set pre" "hd ns \<notin> set pre" using d ne by (auto dest: disjoint_iff [THEN iffD1])
  note skip = walk_stops_skip [OF this]
  obtain a xs where "ns = a # xs" using ne by (cases ns) auto
  then show ?thesis using ab unfolding skip by (simp add: Let_def)
qed

text \<open>C32: on a route without repeated stops, in a network whose travel times are uniform, the
  travel time between two stations in the direction of travel is the sum of the travel times
  between the consecutive stations from one to the other, and it is 0 against the direction of
  travel and from a station to itself.\<close>

theorem GetTravelTimeOnRoute_sum:
  assumes wf: "wf_network net" and u: "times_uniform net"
    and r: "GetRoute net line route = Some r" and d: "distinct (stop_ids net r)"
    and ss: "stop_ids net r = pre @ ss @ post" "ss \<noteq> []"
  shows "GetTravelTimeOnRoute net line route (hd ss) (last ss) = sum_times net ss \<and>
    (hd ss \<noteq> last ss \<longrightarrow> GetTravelTimeOnRoute net line route (last ss) (hd ss) = 0)"
proof -
  let ?g = "\<lambda>n. gn_id (nodes net ! n)"
  note rl = wf_GetRoute(1) [OF wf r]
  obtain npre ns npost where split: "ri_stops (routes net ! r) = npre @ ns @ npost" and ns: "map ?g ns = ss"
    using ss(1) by (auto simp: stop_ids_def map_eq_append_conv append_eq_map_conv)
  have dn: "distinct (npre @ ns @ npost)"
    using d unfolding stop_ids_def split distinct_map by blast
  have ne: "ns \<noteq> []" using ns ss(2) by auto
  have ab: "hd ss = ?g (hd ns)" "last ss = ?g (last ns)" using ns ne by (auto simp: hd_map last_map)
  have "set (ri_stops (routes net ! r)) \<subseteq> {..<length (nodes net)}"
    using wf_routeD [OF wf rl] by (simp add: wf_route_def)
  moreover have "hd ns \<in> set ns" "last ns \<in> set ns" using ne by simp_all
  ultimately have "hd ns < length (nodes net)" "last ns < length (nodes net)" using split by auto
  then have st: "GetStation net (hd ss) = Some (hd ns)" "GetStation net (last ss) = Some (last ns)"
    using ab wf_GetStation [OF wf] by simp_all
  have "hd ns \<noteq> last ns" if "hd ss \<noteq> last ss" using that ab by auto
  then show ?thesis
    using walk_stops_along [OF wf u rl split dn ne] walk_stops_against [OF dn ne] r st split
    by (auto simp: GetTravelTimeOnRoute_def ns)
qed

lemma GetTravelTimeOnRoute_sum_witness:
  "GetTravelTimeOnRoute example_net ''L1'' ''R1'' ''A'' ''C'' =
     sum_times example_net [''A'', ''B'', ''C'']"
proof -
  have u: "times_uniform example_net"
    by (auto simp: times_uniform_def connects_def example_edge_at)
  have d: "distinct (stop_ids example_net 0)"
    and s: "stop_ids example_net 0 = [] @ [''A'', ''B'', ''C''] @ []" by code_simp+
  show ?thesis
    using GetTravelTimeOnRoute_sum [OF example_net_wf u example_lines(2) d s] by simp
qed

end
