(* ===== verification/Travel_Routes.thy ===== *)
theory Travel_Routes
  imports Alternative_Paths Network_Lines
begin

text \<open>
  What the two public routing operations promise a caller, in terms of the network's stations,
  lines and travel times: the journey's steps, its total time with 5 minutes for each change,
  that it is the fastest, and when the quiet one is another.
\<close>

section \<open>Journeys as a caller sees them\<close>

fun linked_steps :: "Id \<Rightarrow> Step list \<Rightarrow> Id \<Rightarrow> bool" where
  "linked_steps a [] b \<longleftrightarrow> a = b"
| "linked_steps a (s # ss) b \<longleftrightarrow> sp_startStationId s = a \<and> linked_steps (sp_endStationId s) ss b"

definition same_route :: "Step \<Rightarrow> Step \<Rightarrow> bool" where
  "same_route s s' \<longleftrightarrow> sp_lineId s = sp_lineId s' \<and> sp_routeId s = sp_routeId s'"

fun steps_time :: "Step list \<Rightarrow> nat" where
  "steps_time [] = 0"
| "steps_time [s] = unat (sp_travelTime s)"
| "steps_time (s # s' # ss) =
     unat (sp_travelTime s) + (if same_route s s' then 0 else 5) + steps_time (s' # ss)"

definition step_in :: "network \<Rightarrow> Step \<Rightarrow> bool" where
  "step_in net s \<longleftrightarrow> (\<exists>n e. edge_at net n e \<and>
     GetStation net (sp_startStationId s) = Some n \<and>
     GetStation net (sp_endStationId s) = Some (next_stop net e) \<and>
     GetRoute net (sp_lineId s) (sp_routeId s) = Some (edge_route net e) \<and>
     sp_travelTime s = edge_time net e)"

definition valid_travel_route :: "network \<Rightarrow> TravelRoute \<Rightarrow> bool" where
  "valid_travel_route net tr \<longleftrightarrow>
     linked_steps (tr_startStationId tr) (tr_steps tr) (tr_endStationId tr) \<and>
     (\<forall>s \<in> set (tr_steps tr). step_in net s) \<and>
     unat (tr_totalTravelTime tr) = steps_time (tr_steps tr)"

section \<open>Assembling the steps\<close>

text \<open>Registered routes are identified by the line's and the route's ID.\<close>

lemma GetRoute_ids:
  assumes wf: "wf_network net" and r: "GetRoute net lid rid = Some r"
  shows "li_id (lines net ! ri_line (routes net ! r)) = lid" "ri_id (routes net ! r) = rid"
proof -
  obtain l where l: "GetLine net lid = Some l" "map_of (li_routes (lines net ! l)) rid = Some r"
    using r by (auto simp: GetRoute_def split: option.splits)
  note lw = wf_GetLine [OF wf l(1)]
  then have "wf_line net l" using wf_lineD [OF wf] by blast
  then show "li_id (lines net ! ri_line (routes net ! r)) = lid" "ri_id (routes net ! r) = rid"
    using l(2) lw by (auto simp: wf_line_def)
qed

abbreviation line_id_of :: "network \<Rightarrow> edge_ref \<Rightarrow> Id" where
  "line_id_of net e \<equiv> li_id (lines net ! ri_line (routes net ! edge_route net e))"

abbreviation route_id_of :: "network \<Rightarrow> edge_ref \<Rightarrow> Id" where
  "route_id_of net e \<equiv> ri_id (routes net ! edge_route net e)"

lemma registered_edge:
  assumes "wf_network net" and "edges_registered net" and "edge_at net n e"
  shows "GetRoute net (line_id_of net e) (route_id_of net e) = Some (edge_route net e)"
  using assms GetRoute_ids [OF assms(1)] unfolding edges_registered_def by metis

lemma GetStation_id: "wf_network net \<Longrightarrow> n < length (nodes net) \<Longrightarrow>
  GetStation net (gn_id (nodes net ! n)) = Some n"
  by (simp add: wf_GetStation)

definition edge_step :: "network \<Rightarrow> node_ref \<Rightarrow> edge_ref \<Rightarrow> Step" where
  "edge_step net n e =
     \<lparr>sp_startStationId = gn_id (nodes net ! n), sp_endStationId = gn_id (nodes net ! next_stop net e),
      sp_lineId = line_id_of net e, sp_routeId = route_id_of net e, sp_travelTime = edge_time net e\<rparr>"

lemma edge_step_in:
  assumes wf: "wf_network net" and reg: "edges_registered net" and e: "edge_at net n e"
  shows "step_in net (edge_step net n e)"
  unfolding step_in_def
proof (intro exI conjI)
  have "n < length (nodes net)" "next_stop net e < length (nodes net)"
    using e wf_edge_at [OF wf e] by (simp_all add: edge_at_def wf_edge_def)
  then show "GetStation net (sp_startStationId (edge_step net n e)) = Some n"
    "GetStation net (sp_endStationId (edge_step net n e)) = Some (next_stop net e)"
    by (simp_all add: edge_step_def GetStation_id [OF wf])
qed (use e registered_edge [OF wf reg e] in \<open>simp_all add: edge_step_def\<close>)

lemma edge_step_same_route:
  assumes "wf_network net" and "edges_registered net" and "edge_at net n e" and "edge_at net m f"
  shows "same_route (edge_step net n e) (edge_step net m f) \<longleftrightarrow> edge_route net e = edge_route net f"
proof -
  have "line_id_of net e = line_id_of net f \<and> route_id_of net e = route_id_of net f \<longleftrightarrow>
      edge_route net e = edge_route net f"
    using registered_edge [OF assms(1,2,3)] registered_edge [OF assms(1,2,4)]
    by (metis option.inject)
  then show ?thesis by (simp add: same_route_def edge_step_def)
qed

definition first_transfer :: "network \<Rightarrow> PathStopDist \<Rightarrow> Path \<Rightarrow> nat" where
  "first_transfer net x q =
     (case q of [] \<Rightarrow> 0 | y # _ \<Rightarrow> transfer_cost net (fst x) (the (ps_edge (fst y))))"

lemma make_steps:
  assumes wf: "wf_network net" and reg: "edges_registered net"
  shows "\<forall>(a, b) \<in> set (hops (x # q)). hop_ok net X a b \<Longrightarrow>
    \<exists>steps. mapO (make_step net) (hops (x # q)) = Returns steps \<and> length steps = length q \<and>
      linked_steps (gn_id (nodes net ! ps_node (fst x))) steps
        (gn_id (nodes net ! ps_node (fst (last (x # q))))) \<and>
      (\<forall>s \<in> set steps. step_in net s) \<and>
      (q \<noteq> [] \<longrightarrow> hd steps = edge_step net (ps_node (fst x)) (the (ps_edge (fst (hd q))))) \<and>
      unat (snd (last (x # q))) = unat (snd x) + first_transfer net x q + steps_time steps"
proof (induction q arbitrary: x)
  case Nil
  then show ?case by (simp add: first_transfer_def)
next
  case (Cons y q)
  then have "hop_ok net X x y" and hq: "\<forall>(a, b) \<in> set (hops (y # q)). hop_ok net X a b" by simp_all
  then obtain e where e: "edge_at net (ps_node (fst x)) e" "fst y = neighbor_of net e"
    "unat (snd y) = unat (snd x) + step_cost net (fst x) e" by (auto simp: hop_ok_def)
  let ?s = "edge_step net (ps_node (fst x)) e"
  obtain steps where st: "mapO (make_step net) (hops (y # q)) = Returns steps"
    "length steps = length q"
    "linked_steps (gn_id (nodes net ! ps_node (fst y))) steps
       (gn_id (nodes net ! ps_node (fst (last (y # q)))))"
    "\<forall>s \<in> set steps. step_in net s"
    "q \<noteq> [] \<longrightarrow> hd steps = edge_step net (ps_node (fst y)) (the (ps_edge (fst (hd q))))"
    "unat (snd (last (y # q))) = unat (snd y) + first_transfer net y q + steps_time steps"
    using Cons.IH [OF hq] by blast
  have ms: "make_step net (x, y) = Returns ?s"
    using e(2) by (simp add: make_step_def edge_step_def Let_def)
  have time: "steps_time (?s # steps) = unat (edge_time net e) + first_transfer net y q + steps_time steps"
  proof (cases q)
    case Nil
    then show ?thesis using st(2) by (simp add: first_transfer_def edge_step_def)
  next
    case (Cons z r)
    then have "hop_ok net X y z" using hq by simp
    then obtain f where f: "edge_at net (ps_node (fst y)) f" "fst z = neighbor_of net f"
      by (auto simp: hop_ok_def)
    then have "hd steps = edge_step net (ps_node (fst y)) f" using st(5) Cons by simp
    then obtain ss where "steps = edge_step net (ps_node (fst y)) f # ss"
      using st(2) Cons by (cases steps) auto
    then show ?thesis
      using edge_step_same_route [OF wf reg e(1) f(1)] Cons e(2) f(2)
      by (simp add: first_transfer_def transfer_cost_def) (simp add: edge_step_def)
  qed
  show ?case
    using st(1-4) st(6) ms e time edge_step_in [OF wf reg e(1)]
    by (intro exI [of _ "?s # steps"])
      (auto simp: first_transfer_def step_cost_def edge_step_def)
qed

lemma assemble_route_valid:
  assumes wf: "wf_network net" and reg: "edges_registered net"
    and v: "valid_path net {} (start_stop a) b p" and ab: "a \<noteq> b"
    and ids: "GetStation net sa = Some a" "GetStation net sb = Some b"
  shows "\<exists>tr. assemble_route net sa sb p = Returns tr \<and> valid_travel_route net tr \<and>
    tr_startStationId tr = sa \<and> tr_endStationId tr = sb \<and> tr_steps tr \<noteq> [] \<and>
    tr_totalTravelTime tr = snd (last p)"
proof -
  obtain q where p: "p = start_stop a # q" using v by (cases p) (auto simp: valid_path_def)
  have "q \<noteq> []" using v ab p by (auto simp: valid_path_def start_stop_def)
  then have ft: "first_transfer net (start_stop a) q = 0"
    by (cases q) (simp_all add: first_transfer_def transfer_cost_def start_stop_def)
  have "\<forall>(x, y) \<in> set (hops (start_stop a # q)). hop_ok net {} x y"
    using v p by (simp add: valid_path_def)
  from make_steps [OF wf reg this] obtain steps where
    st: "mapO (make_step net) (hops p) = Returns steps" "length steps = length q"
    "linked_steps (gn_id (nodes net ! a)) steps (gn_id (nodes net ! b))"
    "\<forall>s \<in> set steps. step_in net s" "unat (snd (last p)) = steps_time steps"
    using p ft v by (auto simp: valid_path_def start_stop_def)
  have "gn_id (nodes net ! a) = sa" "gn_id (nodes net ! b) = sb"
    using ids by (simp_all add: wf_GetStation [OF wf])
  then show ?thesis
    using st \<open>q \<noteq> []\<close> by (auto simp: assemble_route_def valid_travel_route_def)
qed

section \<open>Any list of steps is a journey\<close>

definition travels :: "network \<Rightarrow> Id \<Rightarrow> Step list \<Rightarrow> Id \<Rightarrow> bool" where
  "travels net sa ss sb \<longleftrightarrow> linked_steps sa ss sb \<and> (\<forall>s \<in> set ss. step_in net s)"

definition step_transfer :: "network \<Rightarrow> PathStop \<Rightarrow> Step list \<Rightarrow> nat" where
  "step_transfer net t ss =
     (case ss of
        [] \<Rightarrow> 0
      | s # _ \<Rightarrow> (case ps_edge t of
          None \<Rightarrow> 0
        | Some e \<Rightarrow> if GetRoute net (sp_lineId s) (sp_routeId s) = Some (edge_route net e) then 0 else 5))"

lemma steps_journey:
  assumes wf: "wf_network net"
  shows "travels net sa ss sb \<Longrightarrow> GetStation net sa = Some (ps_node t) \<Longrightarrow> journey net {} s d t c \<Longrightarrow>
    \<exists>t'. journey net {} s d t' (c + step_transfer net t ss + steps_time ss) \<and>
      GetStation net sb = Some (ps_node t')"
proof (induction ss arbitrary: sa t c)
  case Nil
  then show ?case by (auto simp: travels_def step_transfer_def)
next
  case (Cons x ss)
  then have "step_in net x" and sa: "sp_startStationId x = sa"
    and rest: "travels net (sp_endStationId x) ss sb" by (simp_all add: travels_def)
  then obtain e where e: "edge_at net (ps_node t) e"
    "GetStation net (sp_endStationId x) = Some (next_stop net e)"
    "GetRoute net (sp_lineId x) (sp_routeId x) = Some (edge_route net e)"
    "sp_travelTime x = edge_time net e"
    using Cons.prems(2) by (auto simp: step_in_def)
  have j: "journey net {} s d (neighbor_of net e) (c + step_cost net t e)"
    using Cons.prems(3) e(1) by (auto intro: journey.hop)
  have sc: "step_cost net t e = step_transfer net t (x # ss) + unat (sp_travelTime x)"
    using e(3,4) by (auto simp: step_cost_def transfer_cost_def step_transfer_def split: option.splits)
  have "steps_time (x # ss) =
      unat (sp_travelTime x) + step_transfer net (neighbor_of net e) ss + steps_time ss"
  proof (cases ss)
    case Nil
    then show ?thesis by (simp add: step_transfer_def)
  next
    case (Cons y ys)
    then have "step_in net y" using rest by (simp add: travels_def)
    then obtain f where f: "GetRoute net (sp_lineId y) (sp_routeId y) = Some (edge_route net f)"
      by (auto simp: step_in_def)
    have "same_route x y \<longleftrightarrow> edge_route net f = edge_route net e"
      unfolding same_route_def
      using GetRoute_ids [OF wf e(3)] GetRoute_ids [OF wf f] e(3) f by (metis option.inject)
    then show ?thesis using f Cons by (simp add: step_transfer_def)
  qed
  moreover have "\<exists>t'. journey net {} s d t'
      (c + step_cost net t e + step_transfer net (neighbor_of net e) ss + steps_time ss) \<and>
      GetStation net sb = Some (ps_node t')"
    using Cons.IH [OF rest _ j] e(2) by simp
  ultimately show ?case by (simp add: sc algebra_simps)
qed

lemma travels_reachable:
  assumes "wf_network net" and "travels net sa ss sb"
    and "GetStation net sa = Some a" and "GetStation net sb = Some b"
  shows "reachable_at net {} (start_stop a) b (steps_time ss)"
proof -
  have "journey net {} (fst (start_stop a)) 0 (fst (start_stop a)) 0" by (rule journey.start)
  from steps_journey [OF assms(1,2) _ this] obtain t' where
    "journey net {} (fst (start_stop a)) 0 t'
       (0 + step_transfer net (fst (start_stop a)) ss + steps_time ss)"
    "GetStation net sb = Some (ps_node t')"
    using assms(3) by (auto simp: start_stop_def)
  moreover have "step_transfer net (fst (start_stop a)) ss = 0"
    by (cases ss) (simp_all add: step_transfer_def start_stop_def)
  ultimately show ?thesis
    using assms(4) by (auto simp: reachable_at_def start_stop_def)
qed

section \<open>The fastest route\<close>

text \<open>C1: between two different known stations, in a network whose routes all belong to a line,
  the fastest travel route is empty exactly when no list of steps of the network's lines leads
  from the one to the other; otherwise its steps are consecutive stops of routes of the network,
  linked from the start to the end, its total is the sum of the travel times plus 5 for each
  change of route, and no other list of steps takes less.\<close>

theorem GetFastestTravelRoute_fastest:
  assumes lib: "stl_laws lib" and wf: "wf_network net" and reg: "edges_registered net"
    and no: "no_overflow net 0"
    and a: "GetStation net sa = Some a" and b: "GetStation net sb = Some b" and ne: "sa \<noteq> sb"
  shows "\<exists>tr. GetFastestTravelRoute lib net sa sb = Returns tr \<and>
    tr_startStationId tr = sa \<and> tr_endStationId tr = sb \<and>
    (tr_steps tr = [] \<longleftrightarrow> \<not> (\<exists>ss. travels net sa ss sb)) \<and>
    (tr_steps tr \<noteq> [] \<longrightarrow> valid_travel_route net tr \<and>
       (\<forall>ss. travels net sa ss sb \<longrightarrow> unat (tr_totalTravelTime tr) \<le> steps_time ss))"
proof -
  have ab: "a \<noteq> b" using GetStation_same [OF wf a b] ne by simp
  have al: "a < length (nodes net)" using a wf_GetStation [OF wf] by simp
  note reach = travels_reachable [OF wf _ a b]
  have sr: "(\<exists>p. shortest_path lib net (start_stop a) b {} = Returns p \<and>
      best_path net {} (start_stop a) b p) \<or>
    shortest_path lib net (start_stop a) b {} = Returns [] \<and>
      (\<nexists>c. reachable_at net {} (start_stop a) b c)"
    by (rule stl_laws.search_result [OF lib wf]) (use al no ab in \<open>simp_all add: start_stop_def\<close>)
  then show ?thesis
  proof
    assume "\<exists>p. shortest_path lib net (start_stop a) b {} = Returns p \<and>
      best_path net {} (start_stop a) b p"
    then obtain p where p: "shortest_path lib net (start_stop a) b {} = Returns p"
      "valid_path net {} (start_stop a) b p"
      "\<forall>c. reachable_at net {} (start_stop a) b c \<longrightarrow> unat (snd (last p)) \<le> c"
      by (auto simp: best_path_def)
    obtain tr where tr: "assemble_route net sa sb p = Returns tr" "valid_travel_route net tr"
      "tr_startStationId tr = sa" "tr_endStationId tr = sb" "tr_steps tr \<noteq> []"
      "tr_totalTravelTime tr = snd (last p)"
      using assemble_route_valid [OF wf reg p(2) ab a b] by blast
    have "p \<noteq> []" using p(2) by (simp add: valid_path_def)
    then have "GetFastestTravelRoute lib net sa sb = Returns tr"
      using a b ab p(1) tr(1) by (simp add: GetFastestTravelRoute_def)
    moreover have "travels net sa (tr_steps tr) sb"
      using tr(2-4) by (simp add: travels_def valid_travel_route_def)
    ultimately show ?thesis using tr p(3) reach by auto
  next
    assume no_path: "shortest_path lib net (start_stop a) b {} = Returns [] \<and>
      (\<nexists>c. reachable_at net {} (start_stop a) b c)"
    then have "GetFastestTravelRoute lib net sa sb = Returns (no_path_route sa sb)"
      using a b ab by (simp add: GetFastestTravelRoute_def)
    then show ?thesis using no_path reach by (auto simp: no_path_route_def)
  qed
qed

lemma GetFastestTravelRoute_fastest_witness:
  "\<exists>tr. GetFastestTravelRoute ref_stl example_net ''A'' ''C'' = Returns tr \<and>
     tr_totalTravelTime tr = 20 \<and> valid_travel_route example_net tr"
proof -
  have v: "GetFastestTravelRoute ref_stl example_net ''A'' ''C'' = Returns
    \<lparr>tr_startStationId = ''A'', tr_endStationId = ''C'', tr_totalTravelTime = 20, tr_steps =
      [\<lparr>sp_startStationId = ''A'', sp_endStationId = ''B'', sp_lineId = ''L1'', sp_routeId = ''R1'',
        sp_travelTime = 10\<rparr>,
       \<lparr>sp_startStationId = ''B'', sp_endStationId = ''C'', sp_lineId = ''L1'', sp_routeId = ''R1'',
        sp_travelTime = 10\<rparr>]\<rparr>"
    by code_simp
  show ?thesis
    using GetFastestTravelRoute_fastest [OF ref_lib.stl_laws_axioms example_net_wf
        example_registered example_no_overflow example_stations(1,3)] v by simp
qed

end
