(* ===== verification/Network_Json.thy ===== *)
theory Network_Json
  imports Travel_Routes
begin

text \<open>
  The conversions between the network's data types and JSON, and \<^verbatim>\<open>FromJson\<close>, which fills
  a network from a JSON layout. The JSON library is not part of the code: what the code calls of
  it is a record of functions, and what the code relies on is a locale.
\<close>

section \<open>The JSON library\<close>

text \<open>
  \<open>j_at\<close> is \<^verbatim>\<open>at(key)\<close>, \<open>j_items\<close> the range of a \<^verbatim>\<open>for\<close> loop, the getters are
  \<^verbatim>\<open>get<T>()\<close>; \<open>None\<close> is an exception. \<open>j_object\<close> is the value that results from
  assigning keys to a null value, \<open>j_array\<close> a vector converted to JSON.
\<close>

record 'j json_api =
  j_at :: "'j \<Rightarrow> string \<Rightarrow> 'j option"
  j_items :: "'j \<Rightarrow> 'j list"
  j_get_string :: "'j \<Rightarrow> string option"
  j_get_uint :: "'j \<Rightarrow> u32 option"
  j_get_array :: "'j \<Rightarrow> 'j list option"
  j_string :: "string \<Rightarrow> 'j"
  j_uint :: "u32 \<Rightarrow> 'j"
  j_array :: "'j list \<Rightarrow> 'j"
  j_object :: "(string \<times> 'j) list \<Rightarrow> 'j"

locale json_laws =
  fixes j :: "'j json_api"
  assumes get_string: "j_get_string j (j_string j s) = Some s"
    and get_uint: "j_get_uint j (j_uint j n) = Some n"
    and get_array: "j_get_array j (j_array j xs) = Some xs"
    and items_array: "j_items j (j_array j xs) = xs"
    and at_object: "distinct (map fst kvs) \<Longrightarrow> j_at j (j_object j kvs) k = map_of kvs k"

text \<open>A lookup, and the getters, as calls that may throw.\<close>

definition or_throw :: "'a option \<Rightarrow> 'a outcome" where
  "or_throw m = (case m of None \<Rightarrow> Fault Json_Exception | Some x \<Rightarrow> Returns x)"

lemma or_throw_Returns [simp]: "or_throw m = Returns x \<longleftrightarrow> m = Some x"
  by (auto simp: or_throw_def split: option.splits)

definition at_key :: "'j json_api \<Rightarrow> 'j \<Rightarrow> string \<Rightarrow> 'j outcome" where
  "at_key j src k = or_throw (j_at j src k)"

definition string_at :: "'j json_api \<Rightarrow> 'j \<Rightarrow> string \<Rightarrow> string outcome" where
  "string_at j src k = bindO (at_key j src k) (\<lambda>v. or_throw (j_get_string j v))"

definition uint_at :: "'j json_api \<Rightarrow> 'j \<Rightarrow> string \<Rightarrow> u32 outcome" where
  "uint_at j src k = bindO (at_key j src k) (\<lambda>v. or_throw (j_get_uint j v))"

section \<open>Data types\<close>

definition step_to_json :: "'j json_api \<Rightarrow> Step \<Rightarrow> 'j" where
  "step_to_json j src = j_object j
     [(''start_station_id'', j_string j (sp_startStationId src)),
      (''end_station_id'', j_string j (sp_endStationId src)),
      (''line_id'', j_string j (sp_lineId src)),
      (''route_id'', j_string j (sp_routeId src)),
      (''travel_time'', j_uint j (sp_travelTime src))]"

definition step_from_json :: "'j json_api \<Rightarrow> 'j \<Rightarrow> Step outcome" where
  "step_from_json j src =
     bindO (string_at j src ''start_station_id'') (\<lambda>startStationId.
     bindO (string_at j src ''end_station_id'') (\<lambda>endStationId.
     bindO (string_at j src ''line_id'') (\<lambda>lineId.
     bindO (string_at j src ''route_id'') (\<lambda>routeId.
     bindO (uint_at j src ''travel_time'') (\<lambda>travelTime.
       Returns \<lparr>sp_startStationId = startStationId, sp_endStationId = endStationId,
                sp_lineId = lineId, sp_routeId = routeId, sp_travelTime = travelTime\<rparr>)))))"

definition travel_route_to_json :: "'j json_api \<Rightarrow> TravelRoute \<Rightarrow> 'j" where
  "travel_route_to_json j src = j_object j
     [(''start_station_id'', j_string j (tr_startStationId src)),
      (''end_station_id'', j_string j (tr_endStationId src)),
      (''total_travel_time'', j_uint j (tr_totalTravelTime src)),
      (''steps'', j_array j (map (step_to_json j) (tr_steps src)))]"

definition travel_route_from_json :: "'j json_api \<Rightarrow> 'j \<Rightarrow> TravelRoute outcome" where
  "travel_route_from_json j src =
     bindO (string_at j src ''start_station_id'') (\<lambda>startStationId.
     bindO (string_at j src ''end_station_id'') (\<lambda>endStationId.
     bindO (uint_at j src ''total_travel_time'') (\<lambda>totalTravelTime.
     bindO (at_key j src ''steps'') (\<lambda>stepsJson.
     bindO (or_throw (j_get_array j stepsJson)) (\<lambda>items.
     bindO (mapO (step_from_json j) items) (\<lambda>steps.
       Returns \<lparr>tr_startStationId = startStationId, tr_endStationId = endStationId,
                tr_totalTravelTime = totalTravelTime, tr_steps = steps\<rparr>))))))"

text \<open>
  The datetime is parsed by Boost, a parameter that may throw. Its final character is dropped;
  on an empty string \<^verbatim>\<open>size() - 1\<close> wraps and \<^verbatim>\<open>substr\<close> returns the empty string.
\<close>

definition passenger_event_from_json ::
  "'j json_api \<Rightarrow> (string \<Rightarrow> 'pt option) \<Rightarrow> 'j \<Rightarrow> 'pt PassengerEvent outcome" where
  "passenger_event_from_json j parse_time src =
     bindO (string_at j src ''station_id'') (\<lambda>stationId.
     bindO (string_at j src ''passenger_event'') (\<lambda>event.
     bindO (string_at j src ''datetime'') (\<lambda>datetimeZ.
     bindO (or_throw (parse_time (butlast datetimeZ))) (\<lambda>timestamp.
       Returns \<lparr>ev_stationId = stationId, ev_type = (if event = ''in'' then In else Out),
                ev_timestamp = timestamp\<rparr>))))"

section \<open>Loading a network\<close>

text \<open>Sequencing of calls that change the network and may throw.\<close>

fun thenS :: "'a outcome \<times> 's \<Rightarrow> ('a \<Rightarrow> 's \<Rightarrow> 'b outcome \<times> 's) \<Rightarrow> 'b outcome \<times> 's" where
  "thenS (Returns x, s) f = f x s"
| "thenS (Fault e, s) f = (Fault e, s)"
| "thenS (Diverges, s) f = (Diverges, s)"

lemma thenS_cases: "thenS m f = (r, s') \<Longrightarrow>
  (\<exists>x s. m = (Returns x, s) \<and> f x s = (r, s')) \<or> (snd m = s' \<and> (\<forall>x. r \<noteq> Returns x))"
  by (cases "(m, f)" rule: thenS.cases) auto

definition station_from_json :: "'j json_api \<Rightarrow> 'j \<Rightarrow> Station outcome" where
  "station_from_json j src =
     bindO (string_at j src ''station_id'') (\<lambda>stationId.
     bindO (string_at j src ''name'') (\<lambda>nm. Returns \<lparr>st_id = stationId, st_name = nm\<rparr>))"

definition route_from_json :: "'j json_api \<Rightarrow> 'j \<Rightarrow> Route outcome" where
  "route_from_json j src =
     bindO (string_at j src ''route_id'') (\<lambda>routeId.
     bindO (string_at j src ''direction'') (\<lambda>direction.
     bindO (string_at j src ''line_id'') (\<lambda>lineId.
     bindO (string_at j src ''start_station_id'') (\<lambda>startStationId.
     bindO (string_at j src ''end_station_id'') (\<lambda>endStationId.
     bindO (at_key j src ''route_stops'') (\<lambda>stopsJson.
     bindO (or_throw (j_get_array j stopsJson)) (\<lambda>items.
     bindO (mapO (\<lambda>v. or_throw (j_get_string j v)) items) (\<lambda>stops.
       Returns \<lparr>rt_id = routeId, rt_direction = direction, rt_lineId = lineId,
                rt_startStationId = startStationId, rt_endStationId = endStationId,
                rt_stops = stops\<rparr>))))))))"

definition line_from_json :: "'j json_api \<Rightarrow> 'j \<Rightarrow> Line outcome" where
  "line_from_json j src =
     bindO (string_at j src ''line_id'') (\<lambda>lineId.
     bindO (string_at j src ''name'') (\<lambda>nm.
     bindO (at_key j src ''routes'') (\<lambda>routesJson.
     bindO (mapO (route_from_json j) (j_items j routesJson)) (\<lambda>rts.
       Returns \<lparr>ln_id = lineId, ln_name = nm, ln_routes = rts\<rparr>))))"

fun load_stations :: "'j json_api \<Rightarrow> 'j list \<Rightarrow> network \<Rightarrow> unit outcome \<times> network" where
  "load_stations j [] net = (Returns (), net)"
| "load_stations j (stationJson # rest) net =
     thenS (station_from_json j stationJson, net) (\<lambda>station net.
       case AddStation station net of
         (True, net') \<Rightarrow> load_stations j rest net'
       | (False, net') \<Rightarrow>
           (Fault (Runtime_Error (''Could not add station '' @ st_id station)), net'))"

fun load_lines :: "'j json_api \<Rightarrow> 'j list \<Rightarrow> network \<Rightarrow> unit outcome \<times> network" where
  "load_lines j [] net = (Returns (), net)"
| "load_lines j (lineJson # rest) net =
     thenS (line_from_json j lineJson, net) (\<lambda>line net.
     thenS (AddLine line net) (\<lambda>ok net'.
       if ok then load_lines j rest net'
       else (Fault (Runtime_Error (''Could not add line '' @ ln_id line)), net')))"

definition travel_time_from_json :: "'j json_api \<Rightarrow> 'j \<Rightarrow> (Id \<times> Id \<times> u32) outcome" where
  "travel_time_from_json j src =
     bindO (string_at j src ''start_station_id'') (\<lambda>a.
     bindO (string_at j src ''end_station_id'') (\<lambda>b.
     bindO (uint_at j src ''travel_time'') (\<lambda>t. Returns (a, b, t))))"

fun load_times :: "'j json_api \<Rightarrow> bool \<Rightarrow> 'j list \<Rightarrow> network \<Rightarrow> bool outcome \<times> network" where
  "load_times j ok [] net = (Returns ok, net)"
| "load_times j ok (timeJson # rest) net =
     thenS (travel_time_from_json j timeJson, net) (\<lambda>(a, b, t) net.
       let (ok', net') = SetTravelTime a b t net in load_times j (ok \<and> ok') rest net')"

definition FromJson :: "'j json_api \<Rightarrow> 'j \<Rightarrow> network \<Rightarrow> bool outcome \<times> network" where
  "FromJson j src net =
     thenS (at_key j src ''stations'', net) (\<lambda>stationsJson net.
     thenS (load_stations j (j_items j stationsJson) net) (\<lambda>_ net.
     thenS (at_key j src ''lines'', net) (\<lambda>linesJson net.
     thenS (load_lines j (j_items j linesJson) net) (\<lambda>_ net.
     thenS (at_key j src ''travel_times'', net) (\<lambda>timesJson net.
       load_times j True (j_items j timesJson) net)))))"

section \<open>Round trips\<close>

context json_laws
begin

lemma string_at_object:
  "distinct (map fst kvs) \<Longrightarrow> map_of kvs k = Some (j_string j s) \<Longrightarrow>
   string_at j (j_object j kvs) k = Returns s"
  by (simp add: string_at_def at_key_def or_throw_def at_object get_string)

lemma uint_at_object:
  "distinct (map fst kvs) \<Longrightarrow> map_of kvs k = Some (j_uint j n) \<Longrightarrow>
   uint_at j (j_object j kvs) k = Returns n"
  by (simp add: uint_at_def at_key_def or_throw_def at_object get_uint)

lemma step_roundtrip: "step_from_json j (step_to_json j s) = Returns s"
  by (simp add: step_from_json_def step_to_json_def string_at_object uint_at_object)

lemma steps_roundtrip: "mapO (step_from_json j) (map (step_to_json j) ss) = Returns ss"
  by (induction ss) (simp_all add: step_roundtrip)

lemma travel_route_roundtrip: "travel_route_from_json j (travel_route_to_json j tr) = Returns tr"
  by (simp add: travel_route_from_json_def travel_route_to_json_def string_at_object uint_at_object)
    (simp add: at_key_def at_object or_throw_def get_array steps_roundtrip)

end

text \<open>A JSON value that obeys the laws, on which the properties are instantiated.\<close>

datatype json_value =
    JString string
  | JUint u32
  | JArray "json_value list"
  | JObject "(string \<times> json_value) list"

fun jv_at :: "json_value \<Rightarrow> string \<Rightarrow> json_value option" where
  "jv_at (JObject kvs) k = map_of kvs k"
| "jv_at _ k = None"

fun jv_items :: "json_value \<Rightarrow> json_value list" where
  "jv_items (JArray xs) = xs"
| "jv_items (JObject kvs) = map snd kvs"
| "jv_items v = [v]"

definition ref_json :: "json_value json_api" where
  "ref_json =
     \<lparr>j_at = jv_at, j_items = jv_items,
      j_get_string = (\<lambda>v. case v of JString s \<Rightarrow> Some s | _ \<Rightarrow> None),
      j_get_uint = (\<lambda>v. case v of JUint n \<Rightarrow> Some n | _ \<Rightarrow> None),
      j_get_array = (\<lambda>v. case v of JArray xs \<Rightarrow> Some xs | _ \<Rightarrow> None),
      j_string = JString, j_uint = JUint, j_array = JArray, j_object = JObject\<rparr>"

interpretation ref_json: json_laws ref_json
  by unfold_locales (simp_all add: ref_json_def)

text \<open>C37: a travel route written to JSON and read back is the same travel route, steps included.\<close>

theorem travel_route_json_roundtrip:
  assumes "json_laws j"
  shows "travel_route_from_json j (travel_route_to_json j tr) = Returns tr"
  by (rule json_laws.travel_route_roundtrip [OF assms])

lemma travel_route_json_roundtrip_witness:
  "travel_route_from_json ref_json (travel_route_to_json ref_json (same_station_route ''A'')) =
     Returns (same_station_route ''A'')"
  by (rule travel_route_json_roundtrip [OF ref_json.json_laws_axioms])

end
