(* ===== verification/Network_Loading.thy ===== *)
theory Network_Loading
  imports Network_Json
begin

text \<open>
  What a network loaded from a JSON layout is: well formed whatever happens, and after a load
  that returns, a network with the layout's stations and routes on which the queries and the
  route searches keep their promises.
\<close>

section \<open>Well-formedness, also after an exception\<close>

lemma load_stations_wf:
  "wf_network net \<Longrightarrow> load_stations j js net = (res, net') \<Longrightarrow> wf_network net'"
proof (induction js arbitrary: net)
  case (Cons sj js)
  show ?case
  proof (cases "station_from_json j sj")
    case (Returns s)
    obtain ok net1 where a: "AddStation s net = (ok, net1)" by fastforce
    have "wf_network net1" by (rule AddStation_wf [OF Cons.prems(1) a])
    then show ?thesis using Cons Returns a by (auto split: bool.splits)
  qed (use Cons.prems in auto)
qed simp

lemma load_lines_wf:
  "wf_network net \<Longrightarrow> load_lines j js net = (res, net') \<Longrightarrow> wf_network net'"
proof (induction js arbitrary: net)
  case (Cons lj js)
  show ?case
  proof (cases "line_from_json j lj")
    case (Returns line)
    obtain ok net1 where a: "AddLine line net = (ok, net1)" by fastforce
    have "wf_network net1" by (rule AddLine_wf [OF Cons.prems(1) a])
    then show ?thesis using Cons Returns a by (cases ok) (auto split: if_splits)
  qed (use Cons.prems in auto)
qed simp

lemma load_times_wf:
  "wf_network net \<Longrightarrow> load_times j ok js net = (res, net') \<Longrightarrow> wf_network net'"
proof (induction js arbitrary: net ok)
  case (Cons tj js)
  show ?case
  proof (cases "travel_time_from_json j tj")
    case (Returns x)
    obtain a b t where x: "x = (a, b, t)" by (cases x)
    obtain ok1 net1 where s: "SetTravelTime a b t net = (ok1, net1)" by fastforce
    have "wf_network net1" by (rule same_shape_wf [OF SetTravelTime_shape [OF s] Cons.prems(1)])
    then show ?thesis using Cons Returns x s by auto
  qed (use Cons.prems in auto)
qed simp

lemma thenS_wf:
  "wf_network (snd m) \<Longrightarrow> (\<And>x net. wf_network net \<Longrightarrow> wf_network (snd (f x net))) \<Longrightarrow>
   wf_network (snd (thenS m f))"
  by (cases "(m, f)" rule: thenS.cases) auto

lemma FromJson_wf: "wf_network net \<Longrightarrow> wf_network (snd (FromJson j src net))"
  unfolding FromJson_def
  by (intro thenS_wf load_stations_wf [OF _ surjective_pairing] load_lines_wf [OF _ surjective_pairing]
      load_times_wf [OF _ surjective_pairing]) simp_all

section \<open>A successful load\<close>

definition routes_registered :: "network \<Rightarrow> bool" where
  "routes_registered net \<longleftrightarrow> (\<forall>r < length (routes net). \<exists>lid rid. GetRoute net lid rid = Some r)"

definition zero_times :: "network \<Rightarrow> bool" where
  "zero_times net \<longleftrightarrow> (\<forall>e \<in> set (edges net). ge_travelTime e = 0)"

definition fresh :: "network \<Rightarrow> bool" where
  "fresh net \<longleftrightarrow> wf_network net \<and> routes_registered net \<and> zero_times net"

lemma fresh_wf: "fresh net \<Longrightarrow> wf_network net" by (simp add: fresh_def)

lemma fresh_empty: "fresh empty_network"
  using wf_empty_network by (simp add: fresh_def routes_registered_def zero_times_def empty_network_def)

lemma fresh_registered: "fresh net \<Longrightarrow> edges_registered net"
  using wf_edge_at unfolding fresh_def routes_registered_def edges_registered_def wf_edge_def by blast

lemma fresh_uniform: "fresh net \<Longrightarrow> times_uniform net"
proof -
  assume f: "fresh net"
  have "edge_time net e = 0" if "connects net a b e" for a b e
  proof -
    have "e < length (edges net)"
      using that wf_edge_at [OF fresh_wf [OF f]] by (auto simp: connects_def wf_edge_def)
    then show ?thesis using f by (simp add: fresh_def zero_times_def)
  qed
  then show ?thesis unfolding times_uniform_def by metis
qed

lemma AddStation_fresh:
  assumes "fresh net" and "AddStation s net = (True, net')"
  shows "fresh net'"
proof -
  note nd = AddStation_nodes [OF assms(2)]
  have "GetRoute net' = GetRoute net" using nd by (simp add: fun_eq_iff GetRoute_def GetLine_def cong: option.case_cong)
  then show ?thesis
    using assms(1) AddStation_wf [OF _ assms(2)] nd
    by (simp add: fresh_def routes_registered_def zero_times_def)
qed

lemma fold_add_edge_zero: "zero_times net \<Longrightarrow> zero_times (fold (add_edge r) hs net)"
  by (induction hs arbitrary: net) (auto simp: zero_times_def)

lemma AddRouteToLine_zero: "zero_times net \<Longrightarrow> zero_times (snd (AddRouteToLine rt l net))"
proof (rule AddRouteToLine_cases [of rt l net])
  assume z: "zero_times net"
  { assume "snd (AddRouteToLine rt l net) = net"
    then show ?thesis using z by simp }
  fix stops
  assume eq: "snd (AddRouteToLine rt l net) =
        (fold (add_edge (length (routes net))) (hops stops)
           (net\<lparr>routes := routes net @ [\<lparr>ri_id = rt_id rt, ri_line = l, ri_stops = stops\<rparr>]\<rparr>))
        \<lparr>lines := (lines net)[l := (lines net ! l)\<lparr>li_routes :=
           AList.update (rt_id rt) (length (routes net)) (li_routes (lines net ! l))\<rparr>]\<rparr>"
    (is "_ = (fold _ _ ?net1)\<lparr>lines := _\<rparr>")
  have "zero_times ?net1" using z by (simp add: zero_times_def)
  then show ?thesis
    using fold_add_edge_zero [of ?net1] unfolding eq by (simp add: zero_times_def)
qed

text \<open>After a successful loop, every route it allocated is in the line's map.\<close>

lemma add_routes_fresh:
  "wf_network net \<Longrightarrow> l < length (lines net) \<Longrightarrow> add_routes l rts net = (Returns True, net') \<Longrightarrow>
   (\<forall>r. length (routes net) \<le> r \<longrightarrow> r < length (routes net') \<longrightarrow>
      (\<exists>rid. map_of (li_routes (lines net' ! l)) rid = Some r)) \<and>
   (zero_times net \<longrightarrow> zero_times net')"
proof (induction rts arbitrary: net)
  case Nil
  then show ?case by simp
next
  case (Cons rt rts)
  obtain res1 net1 where r1: "AddRouteToLine rt l net = (res1, net1)"
    by (cases "AddRouteToLine rt l net")
  have ok: "res1 = Returns True" "add_routes l rts net1 = (Returns True, net')"
    using Cons.prems(3) add_routes_step [OF r1, of rts] by (cases "res1 = Returns True"; simp)+
  have w1: "wf_network net1" "l < length (lines net1)"
    using AddRouteToLine_wf [OF Cons.prems(1,2) r1] Cons.prems(2) by auto
  note f = AddRouteToLine_files [OF Cons.prems(1,2) r1 [unfolded ok(1)]]
  have g: "grows l net1 net'" using add_routes_grows [OF w1, of rts] ok(2) by simp
  have z: "zero_times net \<longrightarrow> zero_times net1" using AddRouteToLine_zero [of net rt l] r1 by simp
  have "map_of (li_routes (lines net' ! l)) (rt_id rt) = Some (length (routes net))"
    using g f(1) by (auto simp: grows_def map_le_def dom_def)
  then have "\<exists>rid. map_of (li_routes (lines net' ! l)) rid = Some r"
    if "length (routes net) \<le> r" "r < length (routes net')" for r
    using Cons.IH [OF w1 ok(2)] f(4) that by (cases "r = length (routes net)") auto
  then show ?case using Cons.IH [OF w1 ok(2)] z by blast
qed

lemma AddLine_fresh:
  assumes fr: "fresh net" and add: "AddLine line net = (Returns True, net')"
  shows "fresh net'" and "GetStation net' = GetStation net"
    and "GetRoute net lid rid = Some r \<Longrightarrow>
      GetRoute net' lid rid = Some r \<and> stop_ids net' r = stop_ids net r"
proof -
  note wf = fresh_wf [OF fr]
  obtain net2 where new: "GetLine net (ln_id line) = None"
    and r2: "add_routes (length (lines net)) (ln_routes line) (new_line line net) = (Returns True, net2)"
    and net': "net' = net2\<lparr>line_map := umap_emplace (ln_id line) (length (lines net)) (line_map net2)\<rparr>"
    using add by (cases rule: AddLine_cases) auto
  have l: "length (lines net) < length (lines (new_line line net))" by simp
  have g: "grows (length (lines net)) (new_line line net) net2"
    using add_routes_grows [OF wf_new_line [OF wf] l] r2 by (metis snd_conv)
  note gr = GetRoute_file_line [OF new g wf net']
  note ar = add_routes_fresh [OF wf_new_line [OF wf] l r2]
  have other: "lid \<noteq> ln_id line" if "GetRoute net lid rid = Some r" for lid rid r
    using that new by (auto simp: GetRoute_def)
  have st: "stop_ids net' r = stop_ids net r" if "r < length (routes net)" for r
    using stop_ids_grows(1) [OF g, of r] that by (simp add: net' stop_ids_def)
  show "GetRoute net lid rid = Some r \<Longrightarrow>
      GetRoute net' lid rid = Some r \<and> stop_ids net' r = stop_ids net r"
    using other [of lid rid r] gr wf_GetRoute(1) [OF wf] st by simp
  show "GetStation net' = GetStation net"
    using grows_GetStation [OF g] by (simp add: net' GetStation_def fun_eq_iff)
  have "routes_registered net'"
    unfolding routes_registered_def
  proof (intro allI impI)
    fix r assume "r < length (routes net')"
    show "\<exists>lid rid. GetRoute net' lid rid = Some r"
    proof (cases "r < length (routes net)")
      case True
      then obtain lid rid where "GetRoute net lid rid = Some r"
        using fr by (auto simp: fresh_def routes_registered_def)
      then show ?thesis using gr other [of lid rid r] by auto
    next
      case False
      then show ?thesis
        using ar \<open>r < _\<close> gr [of "ln_id line"] by (simp add: net') (metis not_less)
    qed
  qed
  moreover have "zero_times net'" using ar fr by (simp add: fresh_def zero_times_def net')
  ultimately show "fresh net'" using AddLine_wf [OF wf add] by (simp add: fresh_def)
qed

lemma load_stations_result:
  "fresh net \<Longrightarrow> load_stations j js net = (Returns (), net') \<Longrightarrow>
   fresh net' \<and> (\<forall>sid. GetStation net' sid \<noteq> None \<longleftrightarrow> GetStation net sid \<noteq> None \<or>
     (\<exists>sj \<in> set js. \<exists>s. station_from_json j sj = Returns s \<and> st_id s = sid))"
proof (induction js arbitrary: net)
  case (Cons sj js)
  obtain s net1 where s: "station_from_json j sj = Returns s"
    and a: "AddStation s net = (True, net1)" and r: "load_stations j js net1 = (Returns (), net')"
    using Cons.prems(2) by (cases "station_from_json j sj") (auto split: prod.splits bool.splits)
  have "fresh net1" by (rule AddStation_fresh [OF Cons.prems(1) a])
  from Cons.IH [OF this r] show ?case
    using AddStation_lookup [OF a] s by (auto split: if_splits)
qed simp

lemma load_lines_result:
  "fresh net \<Longrightarrow> load_lines j js net = (Returns (), net') \<Longrightarrow>
   fresh net' \<and> GetStation net' = GetStation net \<and>
   (\<forall>lid rid r. GetRoute net lid rid = Some r \<longrightarrow>
      GetRoute net' lid rid = Some r \<and> stop_ids net' r = stop_ids net r) \<and>
   (\<forall>lj \<in> set js. \<exists>line. line_from_json j lj = Returns line \<and>
      (\<forall>rt \<in> set (ln_routes line). \<exists>r. GetRoute net' (ln_id line) (rt_id rt) = Some r \<and>
         stop_ids net' r = rt_stops rt))"
proof (induction js arbitrary: net)
  case (Cons lj js)
  obtain line net1 where l: "line_from_json j lj = Returns line"
    and a: "AddLine line net = (Returns True, net1)" and r: "load_lines j js net1 = (Returns (), net')"
  proof (cases "line_from_json j lj")
    case (Returns line)
    obtain ok net1 where "AddLine line net = (ok, net1)" by fastforce
    with that Returns Cons.prems(2) show ?thesis by (cases ok) (auto split: if_splits)
  qed (use Cons.prems(2) in auto)
  note f1 = AddLine_fresh [OF Cons.prems(1) a]
  have "\<forall>rt \<in> set (ln_routes line). \<exists>r. GetRoute net1 (ln_id line) (rt_id rt) = Some r \<and>
      stop_ids net1 r = rt_stops rt"
    using files_routes [OF fresh_wf [OF Cons.prems(1)] a] by blast
  then show ?case
    using Cons.IH [OF f1(1) r] f1(2,3) l by (simp del: split_paired_Ex) metis
qed simp

lemma adjacent_same_shape:
  assumes "same_shape net net'" and wf: "wf_network net"
  shows "adjacent net' a b \<longleftrightarrow> adjacent net a b"
proof -
  have "connects net' x y e \<longleftrightarrow> connects net x y e" for x y e
    using wf_edge_at [OF wf]
    by (auto simp: connects_def same_shape_edge_at [OF assms(1)] same_shapeD [OF assms(1)] wf_edge_def)
  then show ?thesis by (simp add: adjacent_def same_shapeD [OF assms(1)])
qed

lemma load_times_result:
  "wf_network net \<Longrightarrow> times_uniform net \<Longrightarrow> load_times j ok js net = (Returns ok', net') \<Longrightarrow>
   times_uniform net' \<and> same_shape net net' \<and>
   (ok' \<longleftrightarrow> ok \<and> (\<forall>tj \<in> set js. \<forall>a b t. travel_time_from_json j tj = Returns (a, b, t) \<longrightarrow>
      adjacent net a b))"
proof (induction js arbitrary: net ok)
  case (Cons tj js)
  obtain a b t where x: "travel_time_from_json j tj = Returns (a, b, t)"
    using Cons.prems(3) by (cases "travel_time_from_json j tj") auto
  obtain ok1 net1 where s: "SetTravelTime a b t net = (ok1, net1)" by fastforce
  note sh = SetTravelTime_shape [OF s]
  have w: "wf_network net1" "times_uniform net1"
    using same_shape_wf [OF sh Cons.prems(1)] SetTravelTime_uniform [OF Cons.prems(1,2) s] by simp_all
  have ok1: "ok1 \<longleftrightarrow> adjacent net a b" using SetTravelTime_ok [OF Cons.prems(1) s] .
  have r: "load_times j (ok \<and> ok1) js net1 = (Returns ok', net')" using Cons.prems(3) x s by simp
  from Cons.IH [OF w r] show ?case
    using same_shape_trans [OF sh] adjacent_same_shape [OF sh Cons.prems(1)] x ok1 by auto
qed simp

lemma thenS_Returns:
  "thenS m f = (Returns y, s') \<longleftrightarrow> (\<exists>x s. m = (Returns x, s) \<and> f x s = (Returns y, s'))"
  by (cases "(m, f)" rule: thenS.cases) auto

lemma at_key_Returns [simp]: "at_key j src k = Returns v \<longleftrightarrow> j_at j src k = Some v"
  by (simp add: at_key_def)

section \<open>The promises of FromJson\<close>

text \<open>Whatever the JSON layout, and also when \<open>FromJson\<close> throws half way, the network is
  well formed afterwards if it was before.\<close>

theorem FromJson_keeps_wf:
  assumes "wf_network net"
  shows "wf_network (snd (FromJson j src net))"
  by (rule FromJson_wf [OF assms])

definition example_layout :: json_value where
  "example_layout = JObject
     [(''stations'', JArray (map (\<lambda>s. JObject [(''station_id'', JString s), (''name'', JString s)])
        [''A'', ''B''])),
      (''lines'', JArray [JObject [(''line_id'', JString ''L''), (''name'', JString ''Line''),
        (''routes'', JArray [JObject [(''route_id'', JString ''R''), (''direction'', JString ''out''),
          (''line_id'', JString ''L''), (''start_station_id'', JString ''A''),
          (''end_station_id'', JString ''B''),
          (''route_stops'', JArray [JString ''A'', JString ''B''])]])]]),
      (''travel_times'', JArray [JObject [(''start_station_id'', JString ''A''),
        (''end_station_id'', JString ''B''), (''travel_time'', JUint 3)]])]"

lemma FromJson_keeps_wf_witness: "wf_network (snd (FromJson ref_json example_layout example_net))"
  by (rule FromJson_keeps_wf [OF example_net_wf])

lemma loaded_network:
  assumes "FromJson j src empty_network = (Returns ok, net)"
  shows "wf_network net \<and> edges_registered net \<and> times_uniform net \<and>
    (\<exists>ss ls ts. j_at j src ''stations'' = Some ss \<and> j_at j src ''lines'' = Some ls \<and>
       j_at j src ''travel_times'' = Some ts \<and>
       (\<forall>sid. GetStation net sid \<noteq> None \<longleftrightarrow>
          (\<exists>sj \<in> set (j_items j ss). \<exists>s. station_from_json j sj = Returns s \<and> st_id s = sid)) \<and>
       (\<forall>lj \<in> set (j_items j ls). \<exists>line. line_from_json j lj = Returns line \<and>
          (\<forall>rt \<in> set (ln_routes line). \<exists>r. GetRoute net (ln_id line) (rt_id rt) = Some r \<and>
             stop_ids net r = rt_stops rt)) \<and>
       (ok \<longleftrightarrow> (\<forall>tj \<in> set (j_items j ts). \<forall>a b t.
          travel_time_from_json j tj = Returns (a, b, t) \<longrightarrow> adjacent net a b)))"
proof -
  from assms obtain ss ls ts net1 net2 where at: "j_at j src ''stations'' = Some ss"
      "j_at j src ''lines'' = Some ls" "j_at j src ''travel_times'' = Some ts"
    and st: "load_stations j (j_items j ss) empty_network = (Returns (), net1)"
    and li: "load_lines j (j_items j ls) net1 = (Returns (), net2)"
    and ti: "load_times j True (j_items j ts) net2 = (Returns ok, net)"
    by (auto simp: FromJson_def thenS_Returns)
  note s = load_stations_result [OF fresh_empty st]
  then have f1: "fresh net1" by blast
  note l = load_lines_result [OF f1 li]
  then have f2: "fresh net2" by blast
  note t = load_times_result [OF fresh_wf [OF f2] fresh_uniform [OF f2] ti]
  then have sh: "same_shape net2 net" by blast
  note sd = same_shapeD [OF sh]
  have gr: "GetRoute net lid rid = GetRoute net2 lid rid" for lid rid
    by (simp add: GetRoute_def sd cong: option.case_cong)
  have so: "stop_ids net r = stop_ids net2 r" if "GetRoute net2 lid rid = Some r" for lid rid r
  proof -
    have "wf_route net2 r"
      using wf_routeD [OF fresh_wf [OF f2]] wf_GetRoute(1) [OF fresh_wf [OF f2] that] by blast
    then show ?thesis using sd by (auto simp: stop_ids_def wf_route_def)
  qed
  have er: "edges_registered net"
    using fresh_registered [OF f2] wf_edge_at [OF fresh_wf [OF f2]] sd
    unfolding edges_registered_def gr same_shape_edge_at [OF sh] wf_edge_def by metis
  have empty: "GetStation empty_network sid = None" for sid
    by (simp add: GetStation_def empty_network_def)
  have sts: "\<forall>sid. GetStation net sid \<noteq> None \<longleftrightarrow>
      (\<exists>sj \<in> set (j_items j ss). \<exists>s. station_from_json j sj = Returns s \<and> st_id s = sid)"
    using s l sd(7) empty by metis
  have lns: "\<forall>lj \<in> set (j_items j ls). \<exists>line. line_from_json j lj = Returns line \<and>
      (\<forall>rt \<in> set (ln_routes line). \<exists>r. GetRoute net (ln_id line) (rt_id rt) = Some r \<and>
         stop_ids net r = rt_stops rt)"
    using l so unfolding gr by metis
  have oks: "ok \<longleftrightarrow> (\<forall>tj \<in> set (j_items j ts). \<forall>a b t.
      travel_time_from_json j tj = Returns (a, b, t) \<longrightarrow> adjacent net a b)"
    using t unfolding adjacent_same_shape [OF sh fresh_wf [OF f2]] by blast
  show ?thesis
    using t same_shape_wf [OF sh fresh_wf [OF f2]] er sts lns at oks by blast
qed

text \<open>C12: when \<open>FromJson\<close> returns on an empty network, the network is well formed, all its edges
  belong to registered routes and all travel times agree between routes and directions, which is
  what the queries and the route searches need; its stations are exactly those of the layout,
  every route of the layout is found under its line and its own ID with its stops in order, and
  the result is true exactly when every travel time of the layout is between adjacent stations.\<close>

theorem FromJson_loads:
  assumes "FromJson j src empty_network = (Returns ok, net)"
  shows "wf_network net \<and> edges_registered net \<and> times_uniform net \<and>
    (\<exists>ss ls ts. j_at j src ''stations'' = Some ss \<and> j_at j src ''lines'' = Some ls \<and>
       j_at j src ''travel_times'' = Some ts \<and>
       (\<forall>sid. GetStation net sid \<noteq> None \<longleftrightarrow>
          (\<exists>sj \<in> set (j_items j ss). \<exists>s. station_from_json j sj = Returns s \<and> st_id s = sid)) \<and>
       (\<forall>lj \<in> set (j_items j ls). \<exists>line. line_from_json j lj = Returns line \<and>
          (\<forall>rt \<in> set (ln_routes line). \<exists>r. GetRoute net (ln_id line) (rt_id rt) = Some r \<and>
             stop_ids net r = rt_stops rt)) \<and>
       (ok \<longleftrightarrow> (\<forall>tj \<in> set (j_items j ts). \<forall>a b t.
          travel_time_from_json j tj = Returns (a, b, t) \<longrightarrow> adjacent net a b)))"
  by (rule loaded_network [OF assms])

lemma FromJson_loads_witness:
  "\<exists>net. FromJson ref_json example_layout empty_network = (Returns True, net) \<and>
     wf_network net \<and> edges_registered net \<and> GetStation net ''B'' \<noteq> None"
proof -
  have "fst (FromJson ref_json example_layout empty_network) = Returns True" by code_simp
  then have f: "FromJson ref_json example_layout empty_network =
      (Returns True, snd (FromJson ref_json example_layout empty_network))"
    by (metis prod.collapse)
  moreover have "GetStation (snd (FromJson ref_json example_layout empty_network)) ''B'' = Some 1"
    by code_simp
  ultimately show ?thesis using FromJson_loads [OF f] by auto
qed

end
