(* ===== verification/Quiet_Choice.thy ===== *)
theory Quiet_Choice
  imports Travel_Routes
begin

text \<open>
  The choice of the quiet route: the crowding of a path is the sum of the passenger counts of its
  stops, the candidates are valid paths within the time limit, and the path chosen is the least
  crowded of those that are quiet enough, or else the fastest.
\<close>

section \<open>Crowding of a path\<close>

abbreviation stop_count :: "network \<Rightarrow> PathStopDist \<Rightarrow> int" where
  "stop_count net x \<equiv> gn_passengerCount (nodes net ! ps_node (fst x))"

definition crowding :: "network \<Rightarrow> Path \<Rightarrow> u32" where
  "crowding net p = word_of_int (sum_list (map (stop_count net) p))"

definition counts_bounded :: "network \<Rightarrow> bool" where
  "counts_bounded net \<longleftrightarrow> (\<forall>n < length (nodes net). gn_passengerCount (nodes net ! n) \<le> 2 ^ 62)"

lemma add_crowding_sum:
  "counts_bounded net \<Longrightarrow> \<forall>x \<in> set p. ps_node (fst x) < length (nodes net) \<Longrightarrow>
   add_crowding net p tot = Returns (tot + crowding net p)"
proof (induction p arbitrary: tot)
  case Nil
  then show ?case by (simp add: crowding_def)
next
  case (Cons x p)
  have "gn_passengerCount (nodes net ! ps_node (fst x)) \<le> 2 ^ 62"
    using Cons.prems by (simp add: counts_bounded_def)
  moreover have "uint tot < 2 ^ 32" using uint_bounded [of tot] by simp
  ultimately have le: "\<not> uint tot + stop_count net x > llong_max" by (simp add: llong_max_def)
  obtain s d where x: "x = (s, d)" by fastforce
  have "add_crowding net (x # p) tot =
      add_crowding net p (word_of_int (uint tot + stop_count net x))"
    using le unfolding x by (simp only: add_crowding.simps Let_def fst_conv if_False)
  also have "\<dots> = Returns (word_of_int (uint tot + stop_count net x) + crowding net p)"
    using Cons by simp
  finally show ?case by (simp add: crowding_def add.assoc)
qed

lemma GetPathCrowding_sum:
  "counts_bounded net \<Longrightarrow> \<forall>x \<in> set p. ps_node (fst x) < length (nodes net) \<Longrightarrow>
   GetPathCrowding net p = Returns (crowding net p)"
  using add_crowding_sum [of net p 0] by (simp add: GetPathCrowding_def)

lemma valid_path_nodes:
  assumes v: "valid_path net X s B p" and B: "B < length (nodes net)" and x: "x \<in> set p"
  shows "ps_node (fst x) < length (nodes net)"
proof -
  obtain i where i: "i < length p" "p ! i = x" using x by (auto simp: in_set_conv_nth)
  show ?thesis
  proof (cases "i = length p - 1")
    case True
    then have "x = last p" using i by (metis last_conv_nth length_0_conv less_nat_zero_code)
    then show ?thesis using v B by (simp add: valid_path_def)
  next
    case False
    then show ?thesis using valid_path_stop(1) [OF v, of i] i by simp
  qed
qed

section \<open>The candidates\<close>

lemma candidates_result:
  assumes lib: "stl_laws lib" and wf: "wf_network net" and a: "a < length (nodes net)" and ab: "a \<noteq> b"
    and p: "shortest_path lib net (start_stop a) b {} = Returns p" "p \<noteq> []"
    and T: "max_travel_time rnd (snd (last p)) slow = Returns maxT"
    and no: "no_overflow net (max (unat (snd (last p))) (unat maxT))"
  shows "\<exists>paths. GetFastestTravelRoutes lib rnd net a b slow maxN = Returns paths \<and>
    paths \<noteq> [] \<and> hd paths = p \<and> distinct paths \<and> length paths \<le> max 1 maxN \<and>
    (\<forall>q \<in> set paths. valid_path net {} (start_stop a) b q) \<and>
    (\<forall>q \<in> set (tl paths). snd (last q) \<le> maxT)"
proof -
  have no': "no_overflow net (unat (snd (last p)))" "no_overflow net (unat maxT)" "no_overflow net 0"
    by (rule no_overflow_antimono [OF no], simp)+
  have "best_path net {} (start_stop a) b p"
    using stl_laws.search_result [OF lib wf, of "start_stop a" b "{}"] a ab no'(3) p
    by (auto simp: start_stop_def)
  then have ok: "paths_ok net (start_stop a) b maxT maxN [p]"
    by (simp add: paths_ok_def best_path_def)
  have "\<exists>out. fastest_paths_loop lib net b maxT maxN [p] [] = Returns out \<and>
      paths_ok net (start_stop a) b maxT maxN out \<and> hd out = hd [p]"
    by (rule stl_laws.fastest_paths_loop_result [OF lib wf _ no'(2) ok])
      (use no'(1) in \<open>simp_all add: in_pop_order_def\<close>)
  then show ?thesis
    using p T by (auto simp: GetFastestTravelRoutes_def paths_ok_def)
qed

text \<open>C8: when station B can be reached, the search for alternatives returns without an exception
  a list that starts with the fastest path, has no path twice, is no longer than the limit (or
  has the fastest path only), and whose paths all are valid paths from A to B over the edges of
  the network, with all alternatives within the time limit.\<close>

theorem GetFastestTravelRoutes_candidates:
  assumes lib: "stl_laws lib" and wf: "wf_network net" and a: "a < length (nodes net)" and ab: "a \<noteq> b"
    and p: "shortest_path lib net (start_stop a) b {} = Returns p" "p \<noteq> []"
    and T: "max_travel_time rnd (snd (last p)) slow = Returns maxT"
    and no: "no_overflow net (max (unat (snd (last p))) (unat maxT))"
  shows "\<exists>paths. GetFastestTravelRoutes lib rnd net a b slow maxN = Returns paths \<and>
    paths \<noteq> [] \<and> hd paths = p \<and> distinct paths \<and> length paths \<le> max 1 maxN \<and>
    (\<forall>q \<in> set paths. valid_path net {} (start_stop a) b q) \<and>
    (\<forall>q \<in> set (tl paths). snd (last q) \<le> maxT)"
  by (rule candidates_result [OF assms])

section \<open>The choice\<close>

lemma select_quiet_spec:
  assumes "\<forall>r \<in> set ps. GetPathCrowding net r = Returns (c r)"
  shows "\<exists>q. select_quiet net M ps best (c best) = Returns q \<and> q \<in> set (best # ps) \<and>
    (q = best \<or> c q \<le> M \<and> c q < c best) \<and> (\<forall>r \<in> set ps. c r \<le> M \<longrightarrow> c q \<le> c r)"
  using assms
proof (induction ps arbitrary: best)
  case Nil
  then show ?case by simp
next
  case (Cons p ps)
  consider (skip) "c p > M \<or> \<not> c p < c best" | (take) "c p \<le> M" "c p < c best" by fastforce
  then show ?case
  proof cases
    case skip
    obtain q where q: "select_quiet net M ps best (c best) = Returns q" "q \<in> set (best # ps)"
      "q = best \<or> c q \<le> M \<and> c q < c best" "\<forall>r \<in> set ps. c r \<le> M \<longrightarrow> c q \<le> c r"
      using Cons.IH [of best] Cons.prems by auto
    have "select_quiet net M (p # ps) best (c best) = Returns q" using Cons.prems skip q(1) by auto
    moreover have "c p \<le> M \<longrightarrow> c q \<le> c p" using skip q(3) by (auto simp: not_less intro: order_trans)
    ultimately show ?thesis using q by auto
  next
    case take
    obtain q where q: "select_quiet net M ps p (c p) = Returns q" "q \<in> set (p # ps)"
      "q = p \<or> c q \<le> M \<and> c q < c p" "\<forall>r \<in> set ps. c r \<le> M \<longrightarrow> c q \<le> c r"
      using Cons.IH [of p] Cons.prems by auto
    have "select_quiet net M (p # ps) best (c best) = Returns q"
      using Cons.prems leD [OF take(1)] take(2) q(1) by simp
    moreover have "c q \<le> M \<and> c q < c best" "c q \<le> c p" using q(3) take by auto
    ultimately show ?thesis using q by auto
  qed
qed

lemma quiet_choice:
  assumes lib: "stl_laws lib" and wf: "wf_network net" and reg: "edges_registered net"
    and a: "GetStation net sa = Some a" and b: "GetStation net sb = Some b" and ne: "sa \<noteq> sb"
    and p: "shortest_path lib net (start_stop a) b {} = Returns p" "p \<noteq> []"
    and T: "max_travel_time rnd (snd (last p)) slow = Returns maxT"
    and no: "no_overflow net (max (unat (snd (last p))) (unat maxT))"
    and cb: "counts_bounded net" and M: "max_crowding rnd (crowding net p) quiet = Returns maxC"
  shows "\<exists>tr paths q. GetQuietTravelRoute lib rnd net sa sb slow quiet maxN = Returns tr \<and>
    GetFastestTravelRoutes lib rnd net a b slow maxN = Returns paths \<and> q \<in> set paths \<and>
    assemble_route net sa sb q = Returns tr \<and> valid_travel_route net tr \<and>
    (q = p \<or> crowding net q \<le> maxC \<and> crowding net q < crowding net p) \<and>
    (\<forall>r \<in> set (tl paths). crowding net r \<le> maxC \<longrightarrow> crowding net q \<le> crowding net r)"
proof -
  have ab: "a \<noteq> b" using GetStation_same [OF wf a b] ne by simp
  have al: "a < length (nodes net)" "b < length (nodes net)" using a b wf_GetStation [OF wf] by simp_all
  obtain paths where paths: "GetFastestTravelRoutes lib rnd net a b slow maxN = Returns paths"
    "paths \<noteq> []" "hd paths = p" "\<forall>q \<in> set paths. valid_path net {} (start_stop a) b q"
    using candidates_result [OF lib wf al(1) ab p T no, of maxN] by blast
  obtain ps where ps: "paths = p # ps" using paths(2,3) by (cases paths) auto
  have cr: "\<forall>r \<in> set paths. GetPathCrowding net r = Returns (crowding net r)"
    using paths(4) valid_path_nodes [OF _ al(2)] by (blast intro: GetPathCrowding_sum [OF cb])
  obtain q where q: "select_quiet net maxC ps p (crowding net p) = Returns q" "q \<in> set (p # ps)"
    "q = p \<or> crowding net q \<le> maxC \<and> crowding net q < crowding net p"
    "\<forall>r \<in> set ps. crowding net r \<le> maxC \<longrightarrow> crowding net q \<le> crowding net r"
    using select_quiet_spec [of ps net "crowding net" maxC p] cr ps by auto
  have "valid_path net {} (start_stop a) b q" using paths(4) q(2) unfolding ps by blast
  from assemble_route_valid [OF wf reg this ab a b] obtain tr where
    tr: "assemble_route net sa sb q = Returns tr" "valid_travel_route net tr" by blast
  have "most_quiet_path rnd net quiet paths = Returns q"
    using cr ps M q(1) by (simp add: most_quiet_path_def)
  then have "GetQuietTravelRoute lib rnd net sa sb slow quiet maxN = Returns tr"
    using a b ab paths(1,2) tr(1) by (simp add: GetQuietTravelRoute_def)
  with paths(1) q tr ps show ?thesis by auto
qed

text \<open>C2: when the destination can be reached, the quiet travel route is made from one of the
  candidates: the fastest path, or one that is less crowded than it and below the limit set by
  the minimum quietness; and no alternative within both limits is less crowded. Crowding is the
  sum of the passenger counts of the stops, reduced to 32 bits.\<close>

theorem GetQuietTravelRoute_choice:
  assumes lib: "stl_laws lib" and wf: "wf_network net" and reg: "edges_registered net"
    and a: "GetStation net sa = Some a" and b: "GetStation net sb = Some b" and ne: "sa \<noteq> sb"
    and p: "shortest_path lib net (start_stop a) b {} = Returns p" "p \<noteq> []"
    and T: "max_travel_time rnd (snd (last p)) slow = Returns maxT"
    and no: "no_overflow net (max (unat (snd (last p))) (unat maxT))"
    and cb: "counts_bounded net" and M: "max_crowding rnd (crowding net p) quiet = Returns maxC"
  shows "\<exists>tr paths q. GetQuietTravelRoute lib rnd net sa sb slow quiet maxN = Returns tr \<and>
    GetFastestTravelRoutes lib rnd net a b slow maxN = Returns paths \<and> q \<in> set paths \<and>
    assemble_route net sa sb q = Returns tr \<and> valid_travel_route net tr \<and>
    (q = p \<or> crowding net q \<le> maxC \<and> crowding net q < crowding net p) \<and>
    (\<forall>r \<in> set (tl paths). crowding net r \<le> maxC \<longrightarrow> crowding net q \<le> crowding net r)"
  by (rule quiet_choice [OF assms])

text \<open>Allowed one path only, and with limits that can be computed, the quiet travel route is
  the fastest travel route.\<close>

theorem quiet_of_one_path:
  assumes lib: "stl_laws lib" and wf: "wf_network net"
    and a: "GetStation net sa = Some a" and b: "GetStation net sb = Some b" and ne: "sa \<noteq> sb"
    and p: "shortest_path lib net (start_stop a) b {} = Returns p" "p \<noteq> []"
    and T: "max_travel_time rnd (snd (last p)) slow = Returns maxT"
    and no: "no_overflow net 0" and cb: "counts_bounded net"
    and M: "max_crowding rnd (crowding net p) quiet = Returns maxC" and "maxN \<le> 1"
  shows "GetQuietTravelRoute lib rnd net sa sb slow quiet maxN = GetFastestTravelRoute lib net sa sb"
proof -
  have ab: "a \<noteq> b" using GetStation_same [OF wf a b] ne by simp
  have al: "a < length (nodes net)" "b < length (nodes net)" using a b wf_GetStation [OF wf] by simp_all
  have "best_path net {} (start_stop a) b p"
    using stl_laws.search_result [OF lib wf, of "start_stop a" b "{}"] al ab no p
    by (auto simp: start_stop_def)
  then have "valid_path net {} (start_stop a) b p" by (simp add: best_path_def)
  then have cr: "GetPathCrowding net p = Returns (crowding net p)"
    using valid_path_nodes [OF _ al(2)] by (blast intro: GetPathCrowding_sum [OF cb])
  have "fastest_paths_loop lib net b maxT maxN [p] [] = Returns [p]"
    using assms(12) by (subst fastest_paths_loop.simps) simp
  then have "GetFastestTravelRoutes lib rnd net a b slow maxN = Returns [p]"
    using p T by (simp add: GetFastestTravelRoutes_def)
  moreover have "most_quiet_path rnd net quiet [p] = Returns p"
    using cr M by (simp add: most_quiet_path_def)
  ultimately show ?thesis
    using a b ab p by (simp add: GetQuietTravelRoute_def GetFastestTravelRoute_def)
qed

section \<open>On the small network\<close>

text \<open>A rounding function that keeps ten binary digits after the point.\<close>

definition example_rnd :: "rat \<Rightarrow> rat" where
  "example_rnd x = of_int \<lfloor>x * 1024\<rfloor> / 1024"

definition example_path :: Path where
  "example_path = [(\<lparr>ps_node = 0, ps_edge = None\<rparr>, 0), (\<lparr>ps_node = 1, ps_edge = Some 0\<rparr>, 10),
     (\<lparr>ps_node = 2, ps_edge = Some 1\<rparr>, 20)]"

definition example_quiet_path :: Path where
  "example_quiet_path = [(\<lparr>ps_node = 0, ps_edge = None\<rparr>, 0), (\<lparr>ps_node = 3, ps_edge = Some 2\<rparr>, 11),
     (\<lparr>ps_node = 2, ps_edge = Some 3\<rparr>, 21)]"

lemma example_fastest:
  "shortest_path ref_stl example_net (start_stop 0) 2 {} = Returns example_path" "example_path \<noteq> []"
  by (simp_all add: start_stop_def example_search example_path_def)

lemma example_floors:
  "\<lfloor>5632 / 5 :: rat\<rfloor> = 1126" "\<lfloor>4608 / 5 :: rat\<rfloor> = 921"
  "\<lfloor>2815 / 128 :: rat\<rfloor> = 21" "\<lfloor>2763 / 1024 :: rat\<rfloor> = 2"
  by (simp_all add: floor_eq_iff)

lemma example_limit:
  "max_travel_time example_rnd (snd (last example_path)) (1 / 10) = Returns 21"
  by (simp add: max_travel_time_def to_unsigned_def example_rnd_def example_path_def example_floors)

lemma example_max_crowding: "max_crowding example_rnd (crowding example_net example_path) (1 / 10) = Returns 2"
  by (simp add: max_crowding_def to_unsigned_def example_rnd_def example_path_def crowding_def example_net_def
      example_floors)

lemma example_no_overflow': "no_overflow example_net (max (unat (snd (last example_path))) (unat (21 :: u32)))"
  by (rule example_no_overflow) (simp add: example_path_def)

lemma example_counts: "counts_bounded example_net"
  by (auto simp: counts_bounded_def example_net_def less_Suc_eq numeral_eq_Suc)

lemma example_candidates:
  "fastest_paths_loop ref_stl example_net 2 21 5 [example_path] [] =
     Returns [example_path, example_quiet_path]"
  by code_simp

lemma GetFastestTravelRoutes_candidates_witness:
  "\<exists>paths. GetFastestTravelRoutes ref_stl example_rnd example_net 0 2 (1 / 10) 5 = Returns paths \<and>
     hd paths = example_path \<and> distinct paths \<and> length paths \<le> 5"
  using GetFastestTravelRoutes_candidates [OF ref_lib.stl_laws_axioms example_net_wf _ _
      example_fastest example_limit example_no_overflow', of 5]
  by (auto simp: example_net_def)

lemma GetQuietTravelRoute_choice_witness:
  "\<exists>tr. GetQuietTravelRoute ref_stl example_rnd example_net ''A'' ''C'' (1 / 10) (1 / 10) 5 = Returns tr \<and>
     assemble_route example_net ''A'' ''C'' example_quiet_path = Returns tr"
proof -
  have c: "crowding example_net example_path = 3" "crowding example_net example_quiet_path = 0"
    by (simp_all add: crowding_def example_path_def example_quiet_path_def example_net_def)
  have "GetFastestTravelRoutes ref_stl example_rnd example_net 0 2 (1 / 10) 5 =
      Returns [example_path, example_quiet_path]"
    using example_fastest example_limit example_candidates by (simp add: GetFastestTravelRoutes_def)
  then show ?thesis
    using GetQuietTravelRoute_choice [OF ref_lib.stl_laws_axioms example_net_wf example_registered
      example_stations(1,3) _ example_fastest example_limit example_no_overflow' example_counts
      example_max_crowding, of 5] c by auto
qed

lemma quiet_of_one_path_witness:
  "GetQuietTravelRoute ref_stl example_rnd example_net ''A'' ''C'' (1 / 10) (1 / 10) 1 =
   GetFastestTravelRoute ref_stl example_net ''A'' ''C''"
  by (rule quiet_of_one_path [OF ref_lib.stl_laws_axioms example_net_wf example_stations(1,3) _
      example_fastest example_limit _ example_counts example_max_crowding])
    (simp_all add: example_no_overflow)

end
