(* ===== verification/File_Downloader.thy ===== *)
theory File_Downloader
  imports Network_Json
begin

text \<open>
  Files: \<^verbatim>\<open>src/file-downloader.cpp\<close>, the download of a file and the parsing of a JSON file,
  and \<^verbatim>\<open>src/env.cpp\<close>, the environment variables. The HTTP library, the JSON parser and the
  operating system are parameters.
\<close>

section \<open>The outside\<close>

text \<open>
  \<open>w_get\<close> is a GET request of a URL, checked against a certificate: its status code, 0 for a
  request that failed, and its text. \<open>w_writable\<close> says whether a stream to a path opens.
  \<open>w_read_json\<close> is the value left in a null JSON value by \<^verbatim>\<open>file >> parsed\<close>, whether
  this throws or not.
\<close>

record 'j world =
  w_get :: "string \<Rightarrow> string \<Rightarrow> int \<times> string"
  w_writable :: "string \<Rightarrow> bool"
  w_read_json :: "string \<Rightarrow> 'j"
  w_null :: 'j
  w_empty :: "'j \<Rightarrow> bool"
  w_temp_dir :: string

type_synonym files = "string \<rightharpoonup> string"

section \<open>Operations\<close>

text \<open>The stream reports no error: the result is true also when nothing could be written.\<close>

definition DownloadFile :: "'j world \<Rightarrow> string \<Rightarrow> string \<Rightarrow> string \<Rightarrow> files \<Rightarrow> bool \<times> files" where
  "DownloadFile w fileUrl destination caCertFile fs =
     (let (status_code, body) = w_get w fileUrl caCertFile
      in if status_code = 0 then (False, fs)
         else if status_code \<ge> 400 then (False, fs)
         else (True, if w_writable w destination then fs(destination \<mapsto> body) else fs))"

definition ParseJsonFile :: "'j world \<Rightarrow> string \<Rightarrow> files \<Rightarrow> 'j" where
  "ParseJsonFile w source fs =
     (case fs source of None \<Rightarrow> w_null w | Some content \<Rightarrow> w_read_json w content)"

lemma DownloadFile_then_parse:
  assumes "DownloadFile w url dest ca fs = (True, fs')" and "w_writable w dest"
  shows "ParseJsonFile w dest fs' = w_read_json w (snd (w_get w url ca))"
  using assms by (auto simp: DownloadFile_def ParseJsonFile_def split: prod.splits if_splits)

lemma DownloadFile_failed: "DownloadFile w url dest ca fs = (False, fs') \<Longrightarrow> fs' = fs"
  by (auto simp: DownloadFile_def split: prod.splits if_splits)

section \<open>Environment variables\<close>

definition GetEnvVar :: "(string \<rightharpoonup> string) \<Rightarrow> string \<Rightarrow> string option \<Rightarrow> string outcome" where
  "GetEnvVar env envVar defaultValue =
     (case (env envVar, defaultValue) of
        (None, None) \<Rightarrow> Fault (Runtime_Error (''Could not find environment variable: '' @ envVar))
      | (Some value, _) \<Rightarrow> Returns value
      | (None, Some d) \<Rightarrow> Returns d)"

end
