(* ===== verification/Network_Monitor.thy ===== *)
theory Network_Monitor
  imports Stomp_Conversation Network_Loading Quiet_Choice File_Downloader
begin

text \<open>
  The monitor process, \<^verbatim>\<open>inc/network-monitor/network-monitor.h\<close>: it owns the network, the STOMP
  client that receives passenger events and the STOMP server that answers quiet-route requests.
  One definition per operation and handler; the client and the server are the models of the other
  theories, so a handler that closes one or sends through it changes their state and yields their
  actions.
\<close>

section \<open>Configuration and errors\<close>

record NetworkMonitorConfig =
  nc_networkEventsUrl :: string
  nc_networkEventsPort :: string
  nc_networkEventsUsername :: string
  nc_networkEventsPassword :: string
  nc_caCertFile :: string
  nc_networkLayoutFile :: string
  nc_quietRouteHostname :: string
  nc_quietRouteIp :: string
  nc_quietRoutePort :: "16 word"
  nc_quietRouteMaxSlowdownPc :: rat
  nc_quietRouteMinQuietnessPc :: rat
  nc_quietRouteMaxNPaths :: nat

text \<open>The default of the two percentages is the \<^verbatim>\<open>double\<close> nearest to a tenth.\<close>

definition default_config :: "(rat \<Rightarrow> rat) \<Rightarrow> NetworkMonitorConfig" where
  "default_config rnd =
     \<lparr>nc_networkEventsUrl = [], nc_networkEventsPort = [], nc_networkEventsUsername = [],
      nc_networkEventsPassword = [], nc_caCertFile = [], nc_networkLayoutFile = [],
      nc_quietRouteHostname = ''localhost'', nc_quietRouteIp = ''127.0.0.1'',
      nc_quietRoutePort = 8042, nc_quietRouteMaxSlowdownPc = rnd (1 / 10),
      nc_quietRouteMinQuietnessPc = rnd (1 / 10), nc_quietRouteMaxNPaths = 20\<rparr>"

datatype NetworkMonitorError =
    kOk
  | kUndefinedError
  | kCouldNotConnectToStompClient
  | kCouldNotParsePassengerEvent
  | kCouldNotParseQuietRouteRequest
  | kCouldNotRecordPassengerEvent
  | kCouldNotStartStompServer
  | kCouldNotSubscribeToPassengerEvents
  | kFailedNetworkLayoutFileDownload
  | kFailedNetworkLayoutFileParsing
  | kFailedTransportNetworkConstruction
  | kMissingCaCertFile
  | kMissingNetworkLayoutFile
  | kStompClientDisconnected
  | kStompServerClientDisconnected
  | kStompServerDisconnected

definition gNetworkMonitorErrorStrings :: "(NetworkMonitorError \<times> string) list" where
  "gNetworkMonitorErrorStrings =
     [(NetworkMonitorError.kOk, ''Ok''),
      (NetworkMonitorError.kUndefinedError, ''UndefinedError''),
      (kCouldNotConnectToStompClient, ''CouldNotConnectToStompClient''),
      (kCouldNotParsePassengerEvent, ''CouldNotParsePassengerEvent''),
      (kCouldNotParseQuietRouteRequest, ''CouldNotParseQuietRouteRequest''),
      (kCouldNotRecordPassengerEvent, ''CouldNotRecordPassengerEvent''),
      (kCouldNotStartStompServer, ''CouldNotStartStompServer''),
      (kCouldNotSubscribeToPassengerEvents, ''CouldNotSubscribeToPassengerEvents''),
      (kFailedNetworkLayoutFileDownload, ''FailedNetworkLayoutFileDownload''),
      (kFailedNetworkLayoutFileParsing, ''FailedNetworkLayoutFileParsing''),
      (kFailedTransportNetworkConstruction, ''FailedTransportNetworkConstruction''),
      (kMissingCaCertFile, ''MissingCaCertFile''),
      (kMissingNetworkLayoutFile, ''MissingNetworkLayoutFile''),
      (kStompClientDisconnected, ''StompClientDisconnected''),
      (kStompServerClientDisconnected, ''StompServerClientDisconnected''),
      (kStompServerDisconnected, ''StompServerDisconnected'')]"

definition monitor_error_to_string :: "NetworkMonitorError \<Rightarrow> string" where
  "monitor_error_to_string e =
     (case map_of gNetworkMonitorErrorStrings e of None \<Rightarrow> ''UndefinedError'' | Some s \<Rightarrow> s)"

section \<open>State\<close>

text \<open>
  What the monitor calls of the libraries: the containers, rounding, JSON with its parser and
  printer (\<open>None\<close> is an exception), the date library, the order of headers.
\<close>

record ('j, 'pt) monitor_lib =
  ml_stl :: stl
  ml_rnd :: "rat \<Rightarrow> rat"
  ml_json :: "'j json_api"
  ml_parse :: "string \<Rightarrow> 'j option"
  ml_dump :: "'j \<Rightarrow> string option"
  ml_time :: "string \<Rightarrow> 'pt option"
  ml_order :: "Headers \<Rightarrow> Headers"

record 'w monitor =
  nm_client :: "stomp_client option"
  nm_server :: "'w stomp_server option"
  nm_config :: NetworkMonitorConfig
  nm_network :: network
  nm_connectedClients :: "string set"
  nm_lastErrorCode :: NetworkMonitorError
  nm_lastTravelRoute :: TravelRoute

datatype 'w monitor_action =
    By_Client client_action
  | By_Server "'w server_action"

type_synonym ('a, 'w) effect = "'a outcome \<times> 'w monitor \<times> 'w monitor_action list"

definition new_monitor :: "(rat \<Rightarrow> rat) \<Rightarrow> 'w monitor" where
  "new_monitor rnd =
     \<lparr>nm_client = None, nm_server = None, nm_config = default_config rnd, nm_network = empty_network,
      nm_connectedClients = {}, nm_lastErrorCode = NetworkMonitorError.kUndefinedError,
      nm_lastTravelRoute = empty_travel_route\<rparr>"

definition networkEventsEndpoint :: string where "networkEventsEndpoint = ''/network-events''"
definition networkLayoutEndpoint :: string where "networkLayoutEndpoint = ''/network-layout.json''"
definition subscriptionDestination :: string where "subscriptionDestination = ''/passengers''"
definition quietRouteDestination :: string where "quietRouteDestination = ''/quiet-route''"

text \<open>Calls in sequence; a call that throws ends the handler.\<close>

fun bindE :: "('a, 'w) effect \<Rightarrow> ('a \<Rightarrow> 'w monitor \<Rightarrow> ('b, 'w) effect) \<Rightarrow> ('b, 'w) effect" where
  "bindE (Returns x, m, acts) f = (let (res, m', acts') = f x m in (res, m', acts @ acts'))"
| "bindE (Fault e, m, acts) f = (Fault e, m, acts)"
| "bindE (Diverges, m, acts) f = (Diverges, m, acts)"

definition finish :: "'w monitor \<Rightarrow> (unit, 'w) effect" where
  "finish m = (Returns (), m, [])"

definition set_error :: "NetworkMonitorError \<Rightarrow> 'w monitor \<Rightarrow> (unit, 'w) effect" where
  "set_error e m = finish (m\<lparr>nm_lastErrorCode := e\<rparr>)"

text \<open>Calls through the two pointers; a null pointer is undefined behaviour.\<close>

definition client_close :: "'w monitor \<Rightarrow> (unit, 'w) effect" where
  "client_close m =
     (case nm_client m of
        None \<Rightarrow> (Fault Undefined_Behaviour, m, [])
      | Some cl \<Rightarrow>
          let (cl', acts) = client_Close False cl
          in (Returns (), m\<lparr>nm_client := Some cl'\<rparr>, map By_Client acts))"

definition client_subscribe ::
  "('j, 'pt) monitor_lib \<Rightarrow> string \<Rightarrow> string \<Rightarrow> 'w monitor \<Rightarrow> (string, 'w) effect" where
  "client_subscribe lib newId destination m =
     (case nm_client m of
        None \<Rightarrow> (Fault Undefined_Behaviour, m, [])
      | Some cl \<Rightarrow>
          let (res, acts) = client_Subscribe (ml_order lib) newId destination True True
          in (res, m, map By_Client acts))"

definition server_stop :: "'w monitor \<Rightarrow> (unit, 'w) effect" where
  "server_stop m =
     (case nm_server m of
        None \<Rightarrow> (Fault Undefined_Behaviour, m, [])
      | Some st \<Rightarrow>
          let (st', acts) = server_Stop st
          in (Returns (), m\<lparr>nm_server := Some st'\<rparr>, map By_Server acts))"

definition server_close ::
  "('j, 'pt) monitor_lib \<Rightarrow> string \<Rightarrow> 'w monitor \<Rightarrow> (unit, 'w) effect" where
  "server_close lib connectionId m =
     (case nm_server m of
        None \<Rightarrow> (Fault Undefined_Behaviour, m, [])
      | Some st \<Rightarrow>
          let (res, st', acts) = server_Close (ml_order lib) connectionId False st
          in (res, m\<lparr>nm_server := Some st'\<rparr>, map By_Server acts))"

definition server_send ::
  "('j, 'pt) monitor_lib \<Rightarrow> string \<Rightarrow> string \<Rightarrow> string \<Rightarrow> string \<Rightarrow> string \<Rightarrow> 'w monitor \<Rightarrow>
   (string, 'w) effect" where
  "server_send lib newId connectionId destination content requestId m =
     (case nm_server m of
        None \<Rightarrow> (Fault Undefined_Behaviour, m, [])
      | Some st \<Rightarrow>
          let (res, acts) = server_Send (ml_order lib) newId connectionId destination content False
                requestId st
          in (res, m, map By_Server acts))"

section \<open>Handlers of the client\<close>

text \<open>\<open>newId\<close> is the ID that the client generates for the subscription.\<close>

definition OnNetworkEventsConnect ::
  "('j, 'pt) monitor_lib \<Rightarrow> string \<Rightarrow> StompClientError \<Rightarrow> 'w monitor \<Rightarrow> (unit, 'w) effect" where
  "OnNetworkEventsConnect lib newId ec m =
     (if ec \<noteq> StompClientError.kOk then
        bindE (client_close (m\<lparr>nm_lastErrorCode := kCouldNotConnectToStompClient\<rparr>)) (\<lambda>_. server_stop)
      else
        bindE (client_subscribe lib newId subscriptionDestination m) (\<lambda>i m.
        bindE (if i = '''' then
                 bindE (client_close (m\<lparr>nm_lastErrorCode := kCouldNotSubscribeToPassengerEvents\<rparr>))
                   (\<lambda>_. server_stop)
               else finish m) (\<lambda>_.
          set_error NetworkMonitorError.kOk)))"

definition OnNetworkEventsDisconnect :: "StompClientError \<Rightarrow> 'w monitor \<Rightarrow> (unit, 'w) effect" where
  "OnNetworkEventsDisconnect ec m = set_error kStompClientDisconnected m"

definition OnSubscribe :: "StompClientError \<Rightarrow> string \<Rightarrow> 'w monitor \<Rightarrow> (unit, 'w) effect" where
  "OnSubscribe ec subscriptionId m =
     (let m' = (if ec \<noteq> StompClientError.kOk
                then m\<lparr>nm_lastErrorCode := kCouldNotSubscribeToPassengerEvents\<rparr> else m)
      in set_error NetworkMonitorError.kOk m')"

text \<open>
  The passenger event of a message: every exception of the parser and of the conversion is caught,
  undefined behaviour is not.
\<close>

definition read_event :: "('j, 'pt) monitor_lib \<Rightarrow> string \<Rightarrow> 'pt PassengerEvent outcome" where
  "read_event lib msg =
     bindO (or_throw (ml_parse lib msg)) (passenger_event_from_json (ml_json lib) (ml_time lib))"

definition OnNetworkEventsMessage ::
  "('j, 'pt) monitor_lib \<Rightarrow> StompClientError \<Rightarrow> string \<Rightarrow> 'w monitor \<Rightarrow> (unit, 'w) effect" where
  "OnNetworkEventsMessage lib ec msg m =
     (case read_event lib msg of
        Diverges \<Rightarrow> (Diverges, m, [])
      | Fault x \<Rightarrow>
          if x = Undefined_Behaviour then (Fault x, m, []) else set_error kCouldNotParsePassengerEvent m
      | Returns event \<Rightarrow>
          let (res, net') = RecordPassengerEvent event (nm_network m); m' = m\<lparr>nm_network := net'\<rparr>
          in bindE (res, m', []) (\<lambda>ok.
               set_error (if \<not> ok then kCouldNotRecordPassengerEvent else NetworkMonitorError.kOk)))"

section \<open>Handlers of the server\<close>

definition OnQuietRouteClientConnect :: "StompServerError \<Rightarrow> string \<Rightarrow> 'w monitor \<Rightarrow> (unit, 'w) effect" where
  "OnQuietRouteClientConnect ec connectionId m =
     set_error NetworkMonitorError.kOk
       (m\<lparr>nm_connectedClients := insert connectionId (nm_connectedClients m)\<rparr>)"

definition drop_client ::
  "('j, 'pt) monitor_lib \<Rightarrow> string \<Rightarrow> 'w monitor \<Rightarrow> (unit, 'w) effect" where
  "drop_client lib connectionId m =
     bindE (server_close lib connectionId m) (\<lambda>_ m.
       finish (m\<lparr>nm_connectedClients := nm_connectedClients m - {connectionId}\<rparr>))"

text \<open>
  The two stations of a request. \<open>newId\<close> is the ID the server generates for the reply if the
  request has none.
\<close>

definition read_request :: "('j, 'pt) monitor_lib \<Rightarrow> string \<Rightarrow> (Id \<times> Id) outcome" where
  "read_request lib message =
     bindO (or_throw (ml_parse lib message)) (\<lambda>messageJson.
     bindO (string_at (ml_json lib) messageJson ''start_station_id'') (\<lambda>startStationId.
     bindO (string_at (ml_json lib) messageJson ''end_station_id'') (\<lambda>endStationId.
       Returns (startStationId, endStationId))))"

definition OnQuietRouteClientMessage ::
  "('j, 'pt) monitor_lib \<Rightarrow> string \<Rightarrow> StompServerError \<Rightarrow> string \<Rightarrow> string \<Rightarrow> string \<Rightarrow> string \<Rightarrow>
   'w monitor \<Rightarrow> (unit, 'w) effect" where
  "OnQuietRouteClientMessage lib newId ec connectionId destination requestId message m =
     (if destination \<noteq> quietRouteDestination then drop_client lib connectionId m
      else
        (case read_request lib message of
           Diverges \<Rightarrow> (Diverges, m, [])
         | Fault x \<Rightarrow>
             if x = Undefined_Behaviour then (Fault x, m, [])
             else drop_client lib connectionId (m\<lparr>nm_lastErrorCode := kCouldNotParseQuietRouteRequest\<rparr>)
         | Returns (startStationId, endStationId) \<Rightarrow>
             bindE (GetQuietTravelRoute (ml_stl lib) (ml_rnd lib) (nm_network m) startStationId
                      endStationId (nc_quietRouteMaxSlowdownPc (nm_config m))
                      (nc_quietRouteMinQuietnessPc (nm_config m))
                      (nc_quietRouteMaxNPaths (nm_config m)), m, []) (\<lambda>travelRoute m.
             bindE (or_throw (ml_dump lib (travel_route_to_json (ml_json lib) travelRoute)), m, [])
               (\<lambda>text m.
             bindE (server_send lib newId connectionId quietRouteDestination text requestId m) (\<lambda>_ m.
               finish (m\<lparr>nm_lastErrorCode := NetworkMonitorError.kOk, nm_lastTravelRoute := travelRoute\<rparr>))))))"

definition OnQuietRouteClientDisconnect :: "StompServerError \<Rightarrow> string \<Rightarrow> 'w monitor \<Rightarrow> (unit, 'w) effect" where
  "OnQuietRouteClientDisconnect ec connectionId m =
     set_error kStompServerClientDisconnected
       (m\<lparr>nm_connectedClients := nm_connectedClients m - {connectionId}\<rparr>)"

definition OnQuietRouteDisconnect :: "StompServerError \<Rightarrow> 'w monitor \<Rightarrow> (unit, 'w) effect" where
  "OnQuietRouteDisconnect ec m = set_error kStompServerDisconnected m"

section \<open>Operations\<close>

definition start_services ::
  "(string \<Rightarrow> unit outcome) \<Rightarrow> unit outcome \<Rightarrow> bool \<Rightarrow> NetworkMonitorConfig \<Rightarrow> 'w monitor \<Rightarrow>
   (NetworkMonitorError, 'w) effect" where
  "start_services verify certificate wsFailed config m =
     bindE (verify (nc_caCertFile config), m, []) (\<lambda>_ m.
       let (cl, acts) = client_Connect (nc_networkEventsUsername config)
             (nc_networkEventsPassword config) True False True (new_client (nc_networkEventsUrl config))
       in
     bindE (Returns (), m\<lparr>nm_client := Some cl\<rparr>, map By_Client acts) (\<lambda>_ m.
     bindE (verify (nc_caCertFile config), m, []) (\<lambda>_ m.
     bindE (certificate, m, []) (\<lambda>_ m.
       let (serverEc, st) = server_Run True True True True wsFailed
             (new_server (nc_quietRouteHostname config));
           m' = m\<lparr>nm_server := Some st\<rparr>
       in if serverEc \<noteq> StompServerError.kOk then (Returns kCouldNotStartStompServer, m', [])
          else (Returns NetworkMonitorError.kOk, m'\<lparr>nm_config := config\<rparr>, [])))))"

text \<open>The exceptions of the construction are caught, and leave what was loaded before.\<close>

definition load_network ::
  "('j, 'pt) monitor_lib \<Rightarrow> (string \<Rightarrow> unit outcome) \<Rightarrow> unit outcome \<Rightarrow> bool \<Rightarrow> NetworkMonitorConfig \<Rightarrow>
   'j \<Rightarrow> 'w monitor \<Rightarrow> (NetworkMonitorError, 'w) effect" where
  "load_network lib verify certificate wsFailed config parsed m =
     (let (res, net') = FromJson (ml_json lib) parsed (nm_network m); m' = m\<lparr>nm_network := net'\<rparr>
      in case res of
           Diverges \<Rightarrow> (Diverges, m', [])
         | Fault x \<Rightarrow>
             if x = Undefined_Behaviour then (Fault x, m', [])
             else (Returns kFailedTransportNetworkConstruction, m', [])
         | Returns networkLoaded \<Rightarrow>
             if \<not> networkLoaded then (Returns kFailedTransportNetworkConstruction, m', [])
             else start_services verify certificate wsFailed config m')"

text \<open>
  Loading the two certificates may throw (\<open>verify\<close>, \<open>certificate\<close>), and the WebSocket server
  may fail to start. The handlers run later, from the I/O context.
\<close>

definition Configure ::
  "('j, 'pt) monitor_lib \<Rightarrow> 'j world \<Rightarrow> (string \<Rightarrow> unit outcome) \<Rightarrow> unit outcome \<Rightarrow> bool \<Rightarrow>
   NetworkMonitorConfig \<Rightarrow> files \<Rightarrow> 'w monitor \<Rightarrow> (NetworkMonitorError, 'w) effect \<times> files" where
  "Configure lib w verify certificate wsFailed config fs m =
     (if fs (nc_caCertFile config) = None then ((Returns kMissingCaCertFile, m, []), fs)
      else if nc_networkLayoutFile config \<noteq> '''' \<and> fs (nc_networkLayoutFile config) = None
        then ((Returns kMissingNetworkLayoutFile, m, []), fs)
      else
        let networkLayoutFile = (if nc_networkLayoutFile config = ''''
              then w_temp_dir w @ ''/network-layout.json'' else nc_networkLayoutFile config);
            (downloaded, fs') = (if nc_networkLayoutFile config = ''''
              then DownloadFile w (''https://'' @ nc_networkEventsUrl config @ networkLayoutEndpoint)
                     networkLayoutFile (nc_caCertFile config) fs
              else (True, fs))
        in if \<not> downloaded then ((Returns kFailedNetworkLayoutFileDownload, m, []), fs')
           else
             let parsed = ParseJsonFile w networkLayoutFile fs'
             in if w_empty w parsed then ((Returns kFailedNetworkLayoutFileParsing, m, []), fs')
                else (load_network lib verify certificate wsFailed config parsed m, fs'))"

text \<open>\<^verbatim>\<open>Run\<close> up to the I/O context; \<^verbatim>\<open>Stop\<close> only stops the context.\<close>

definition monitor_Run :: "'w monitor \<Rightarrow> 'w monitor" where
  "monitor_Run m = m\<lparr>nm_lastErrorCode := NetworkMonitorError.kOk\<rparr>"

definition GetLastErrorCode :: "'w monitor \<Rightarrow> NetworkMonitorError" where
  "GetLastErrorCode m = nm_lastErrorCode m"

definition GetLastTravelRoute :: "'w monitor \<Rightarrow> TravelRoute" where
  "GetLastTravelRoute m = nm_lastTravelRoute m"

definition GetNetworkRepresentation :: "'w monitor \<Rightarrow> network" where
  "GetNetworkRepresentation m = nm_network m"

definition GetConnectedClients :: "'w monitor \<Rightarrow> string set" where
  "GetConnectedClients m = nm_connectedClients m"

text \<open>
  \<^verbatim>\<open>SetNetworkCrowding\<close>, over the counts in iteration order; \<open>now\<close> is the default timestamp.
  Counts are 32-bit, so the absolute value of the least one is undefined. The results of the
  events are ignored.
\<close>

fun record_events :: "nat \<Rightarrow> 'pt PassengerEvent \<Rightarrow> network \<Rightarrow> unit outcome \<times> network" where
  "record_events 0 event net = (Returns (), net)"
| "record_events (Suc n) event net =
     thenS (RecordPassengerEvent event net) (\<lambda>_. record_events n event)"

fun crowd_network :: "'pt \<Rightarrow> (Id \<times> int) list \<Rightarrow> network \<Rightarrow> unit outcome \<times> network" where
  "crowd_network now [] net = (Returns (), net)"
| "crowd_network now ((stationId, passengerCount) # rest) net =
     (if passengerCount = - (2 ^ 31) then (Fault Undefined_Behaviour, net)
      else
        thenS (record_events (nat \<bar>passengerCount\<bar>)
                 \<lparr>ev_stationId = stationId, ev_type = (if passengerCount > 0 then In else Out),
                  ev_timestamp = now\<rparr> net)
          (\<lambda>_. crowd_network now rest))"

definition SetNetworkCrowding :: "'pt \<Rightarrow> (Id \<times> int) list \<Rightarrow> 'w monitor \<Rightarrow> (unit, 'w) effect" where
  "SetNetworkCrowding now passengerCounts m =
     (let (res, net') = crowd_network now passengerCounts (nm_network m)
      in (res, m\<lparr>nm_network := net'\<rparr>, []))"

end
