(* ===== verification/Monitor_System.thy ===== *)
theory Monitor_System
  imports Network_Monitor
begin

text \<open>
  The running monitor: the client, the server and the monitor's handlers in one I/O context. The
  callbacks that the client and the server post wait in the queue of their strand; the context
  takes events of the WebSocket layer and waiting callbacks in any order, each strand first in,
  first out. An exception that leaves a handler ends the run.
\<close>

record 'w system =
  sys_monitor :: "'w monitor"
  sys_client_posts :: "client_action list"
  sys_server_posts :: "'w server_action list"
  sys_trace :: "'w monitor_action list"
  sys_failed :: bool

definition by_client :: "'w monitor_action list \<Rightarrow> client_action list" where
  "by_client acts = concat (map (\<lambda>a. case a of By_Client c \<Rightarrow> [c] | By_Server _ \<Rightarrow> []) acts)"

definition by_server :: "'w monitor_action list \<Rightarrow> 'w server_action list" where
  "by_server acts = concat (map (\<lambda>a. case a of By_Client _ \<Rightarrow> [] | By_Server c \<Rightarrow> [c]) acts)"

definition absorb :: "('a, 'w) effect \<Rightarrow> 'w system \<Rightarrow> 'w system" where
  "absorb eff s =
     (let (res, m, acts) = eff
      in \<lparr>sys_monitor = m,
          sys_client_posts = sys_client_posts s @ filter client_post (by_client acts),
          sys_server_posts = sys_server_posts s @ filter server_post (by_server acts),
          sys_trace = sys_trace s @ acts,
          sys_failed = (\<not> returned res)\<rparr>)"

text \<open>The events of the WebSocket layer, with the result of the call.\<close>

definition client_event_effect ::
  "('j, 'pt) monitor_lib \<Rightarrow> client_event \<Rightarrow> 'w monitor \<Rightarrow> (unit, 'w) effect" where
  "client_event_effect lib e m =
     (case nm_client m of
        None \<Rightarrow> (Fault Undefined_Behaviour, m, [])
      | Some cl \<Rightarrow>
          let (cl', acts) = client_effect (ml_order lib) e cl
          in (client_result (ml_order lib) e cl, m\<lparr>nm_client := Some cl'\<rparr>, map By_Client acts))"

definition server_event_effect ::
  "('j, 'pt) monitor_lib \<Rightarrow> 'w server_event \<Rightarrow> 'w monitor \<Rightarrow> (unit, 'w) effect" where
  "server_event_effect lib e m =
     (case nm_server m of
        None \<Rightarrow> (Fault Undefined_Behaviour, m, [])
      | Some st \<Rightarrow>
          let (st', acts) = server_step (ml_order lib) e (st, [])
          in (server_result (ml_order lib) e st, m\<lparr>nm_server := Some st'\<rparr>, map By_Server acts))"

definition server_down_effect :: "bool \<Rightarrow> 'w monitor \<Rightarrow> (unit, 'w) effect" where
  "server_down_effect failed m =
     (case nm_server m of
        None \<Rightarrow> (Fault Undefined_Behaviour, m, [])
      | Some st \<Rightarrow> (Returns (), m, map By_Server (server_OnWsDisconnect failed st)))"

text \<open>
  The callbacks that \<^verbatim>\<open>Configure\<close> gives to the client and the server: the client has no
  handler for messages outside of subscriptions. \<open>newId\<close> is the next ID that is generated.
\<close>

fun call_client_handler ::
  "('j, 'pt) monitor_lib \<Rightarrow> string \<Rightarrow> client_action \<Rightarrow> 'w monitor \<Rightarrow> (unit, 'w) effect" where
  "call_client_handler lib newId (On_Connect e) m = OnNetworkEventsConnect lib newId e m"
| "call_client_handler lib newId (On_Disconnect e) m = OnNetworkEventsDisconnect e m"
| "call_client_handler lib newId (On_Subscribed i e x) m = OnSubscribe e x m"
| "call_client_handler lib newId (On_Subscription_Message i e msg) m = OnNetworkEventsMessage lib e msg m"
| "call_client_handler lib newId _ m = finish m"

fun call_server_handler ::
  "('j, 'pt) monitor_lib \<Rightarrow> string \<Rightarrow> 'w server_action \<Rightarrow> 'w monitor \<Rightarrow> (unit, 'w) effect" where
  "call_server_handler lib newId (Client_Connected e i) m = OnQuietRouteClientConnect e i m"
| "call_server_handler lib newId (Client_Message e i d r msg) m =
     OnQuietRouteClientMessage lib newId e i d r msg m"
| "call_server_handler lib newId (Client_Disconnected e i) m = OnQuietRouteClientDisconnect e i m"
| "call_server_handler lib newId (Server_Disconnected e) m = OnQuietRouteDisconnect e m"
| "call_server_handler lib newId _ m = finish m"

datatype 'w sys_event =
    Client_Event client_event
  | Server_Event "'w server_event"
  | Server_Down bool
  | Deliver_Client string
  | Deliver_Server string

fun sys_step :: "('j, 'pt) monitor_lib \<Rightarrow> 'w sys_event \<Rightarrow> 'w system \<Rightarrow> 'w system" where
  "sys_step lib e s =
     (if sys_failed s then s
      else
        (case e of
           Client_Event ce \<Rightarrow> absorb (client_event_effect lib ce (sys_monitor s)) s
         | Server_Event se \<Rightarrow> absorb (server_event_effect lib se (sys_monitor s)) s
         | Server_Down failed \<Rightarrow> absorb (server_down_effect failed (sys_monitor s)) s
         | Deliver_Client newId \<Rightarrow>
             (case sys_client_posts s of
                [] \<Rightarrow> s
              | a # rest \<Rightarrow>
                  absorb (call_client_handler lib newId a (sys_monitor s)) (s\<lparr>sys_client_posts := rest\<rparr>))
         | Deliver_Server newId \<Rightarrow>
             (case sys_server_posts s of
                [] \<Rightarrow> s
              | a # rest \<Rightarrow>
                  absorb (call_server_handler lib newId a (sys_monitor s)) (s\<lparr>sys_server_posts := rest\<rparr>))))"

declare sys_step.simps [simp del]

text \<open>
  What the environment guarantees: the events are those of the WebSocket layer, new sessions and
  IDs are new, completions are of sends that were made.
\<close>

fun ws_client_event :: "client_event \<Rightarrow> bool" where
  "ws_client_event (Cl_WsConnected failed) = True"
| "ws_client_event (Cl_Sent failed h) = True"
| "ws_client_event (Cl_WsMessage failed msg) = True"
| "ws_client_event (Cl_WsDisconnected failed) = True"
| "ws_client_event (Cl_WsClosed failed h) = True"
| "ws_client_event _ = False"

fun ws_server_event :: "'w server_event \<Rightarrow> bool" where
  "ws_server_event (Ev_Connect failed w i) = True"
| "ws_server_event (Ev_Message failed w msg) = True"
| "ws_server_event (Ev_Disconnect failed w) = True"
| "ws_server_event _ = False"

fun sys_allowed :: "'w sys_event \<Rightarrow> 'w system \<Rightarrow> bool" where
  "sys_allowed (Client_Event e) s \<longleftrightarrow>
     ws_client_event e \<and> client_allowed e (the (nm_client (sys_monitor s)), by_client (sys_trace s))"
| "sys_allowed (Server_Event e) s \<longleftrightarrow>
     ws_server_event e \<and> server_allowed e (the (nm_server (sys_monitor s)), by_server (sys_trace s))"
| "sys_allowed (Server_Down failed) s \<longleftrightarrow> True"
| "sys_allowed (Deliver_Client newId) s \<longleftrightarrow> id_ok newId"
| "sys_allowed (Deliver_Server newId) s \<longleftrightarrow> id_ok newId"

text \<open>A system at the start of \<^verbatim>\<open>Run\<close>: nothing is posted, the actions of \<^verbatim>\<open>Configure\<close> are the trace.\<close>

definition booted :: "'w monitor \<Rightarrow> 'w monitor_action list \<Rightarrow> 'w system" where
  "booted m acts =
     \<lparr>sys_monitor = monitor_Run m, sys_client_posts = [], sys_server_posts = [], sys_trace = acts,
      sys_failed = False\<rparr>"

end
