(* ===== verification/Server_Table.thy ===== *)
theory Server_Table
  imports Stomp_Server_Props
begin

text \<open>
  Which sessions are in the table of the STOMP server after each operation: those that were, but for
  the ones that the operation closes.
\<close>

section \<open>The calls of the user\<close>

fun user_call :: "'w server_event \<Rightarrow> bool" where
  "user_call (Ev_Send newId cid dest content onSend rid) = True"
| "user_call (Ev_Close cid onClose) = True"
| "user_call Ev_Stop = True"
| "user_call _ = False"

section \<open>What an operation does to the table\<close>

definition table :: "'w stomp_server \<Rightarrow> 'w set" where
  "table st = dom (map_of (sv_connections st))"

definition closes :: "'w server_action list \<Rightarrow> 'w set" where
  "closes acts = {w. \<exists>h. Ws_Close w h \<in> set acts}"

lemma closes_simps [simp]:
  "closes [] = {}" "closes (xs @ ys) = closes xs \<union> closes ys"
  "closes (a # xs) = (case a of Ws_Close w h \<Rightarrow> insert w (closes xs) | _ \<Rightarrow> closes xs)"
  by (auto simp: closes_def split: server_action.split)

lemma table_drop: "table (drop_session i w st) = table st - {w}"
  by (auto simp: table_def drop_session_def delete_conv')

context header_layout
begin

lemma CloseConnection_table:
  assumes "CloseConnection ord i w error onClose st = (res, st', acts)"
  shows "table st' = table st - closes acts \<and> closes acts = {w}"
proof (cases "error = StompServerError.kUndefinedError")
  case True
  then show ?thesis
    using assms by (auto simp: CloseConnection_def table_def delete_conv' split: if_splits)
next
  case False
  then obtain reply where "st' = drop_session i w st" "acts = [Ws_Send w reply None, Ws_Close w onClose]"
    using CloseConnection_error [of error i w onClose st] unfolding assms by blast
  then show ?thesis by (simp add: table_drop)
qed

lemma message_table:
  assumes m: "maps_agree st" and op: "OnWsSessionMessage ord False w msg st = (Returns (), st', acts)"
  shows "table st' = table st - closes acts \<and> closes acts \<subseteq> {w}"
proof (cases "map_of (sv_connections st) w")
  case None
  then show ?thesis using op by (auto simp: OnWsSessionMessage_def table_def)
next
  case (Some c)
  have same: "table (connect_client w c st) = table st" using Some by (auto simp: table_def update_conv')
  have stomp: ?thesis if "HandleStomp ord w c f st = (res, st', acts)" for f res
    using m Some that
  proof (cases rule: HandleStomp_cases)
    case (closed error)
    from CloseConnection_table [OF this(2)] show ?thesis by simp
  next
    case (connected g)
    show ?thesis unfolding connected(5,6) same by simp
  qed
  have send: ?thesis if "HandleSend ord w c f st = (res, st', acts)" for f res
  proof (cases "cn_status c = ConnectionStatus.kConnected")
    case False
    then show ?thesis using that CloseConnection_table [of "cn_id c" w] by (simp add: HandleSend_def)
  qed (use that in \<open>auto simp: HandleSend_def split: if_splits\<close>)
  obtain res f where p: "StompFrame_parse msg = (res, f)" by fastforce
  then obtain e where e: "res = Returns e" using op Some by (cases res) (auto simp: OnWsSessionMessage_def)
  show ?thesis
  proof (cases "e = StompError.kOk")
    case False
    then show ?thesis
      using op Some p e CloseConnection_table [of "cn_id c" w] by (simp add: OnWsSessionMessage_def)
  next
    case True
    note op' = op [unfolded OnWsSessionMessage_def Some p e True]
    show ?thesis
      using op' stomp send CloseConnection_table [of "cn_id c" w StompServerError.kUnsupportedFrame None st]
      by (cases "GetCommand f") simp_all
  qed
qed

end

lemma OnWsSessionConnect_table:
  "OnWsSessionConnect failed w newId st = (st', acts) \<Longrightarrow>
   (if failed then table st' = table st \<and> closes acts = {w}
    else table st' = insert w (table st) \<and> closes acts = {})"
  by (auto simp: OnWsSessionConnect_def table_def update_conv' split: if_splits)

lemma OnWsSessionDisconnect_table:
  "OnWsSessionDisconnect failed w st = (st', acts) \<Longrightarrow> table st' = table st - {w} \<and> closes acts = {}"
  by (auto simp: OnWsSessionDisconnect_def table_def delete_conv' split: option.splits if_splits)

lemma user_call_table:
  assumes m: "maps_agree st" and e: "user_call e" and op: "server_step ord e (st, []) = (st', acts)"
  shows "table st' = table st - closes acts \<and> closes acts \<subseteq> table st"
proof (cases e)
  case (Ev_Send newId cid dest content onSend rid)
  have "map_of (sv_connections st) w \<noteq> None" if "map_of (sv_sessions st) cid = Some w" for w
    using maps_agree_session [OF m that] by auto
  then have "closes (snd (server_Send ord newId cid dest content onSend rid st)) = {}"
    by (auto simp: server_Send_def Let_def split: option.splits prod.splits outcome.splits)
  then show ?thesis using op Ev_Send by auto
next
  case (Ev_Close cid h)
  then obtain res where c: "server_Close ord cid h st = (res, st', acts)"
    using op by (auto split: prod.splits)
  show ?thesis
  proof (cases "map_of (sv_sessions st) cid")
    case None
    then show ?thesis using c by (simp add: server_Close_def)
  next
    case (Some w)
    then obtain x where x: "map_of (sv_connections st) w = Some x"
      using maps_agree_session [OF m] by blast
    then have "w \<in> table st" by (auto simp: table_def)
    then show ?thesis
      using c Some x by (auto simp: server_Close_def CloseConnection_def table_def delete_conv' split: if_splits)
  qed
next
  case Ev_Stop
  then have st: "st' = st\<lparr>sv_connections := [], sv_sessions := []\<rparr>"
    "acts = Ws_Stop # map (\<lambda>(w, _). Ws_Close w None) (sv_connections st)"
    using op by (auto simp: server_Stop_def)
  have "closes acts = fst ` set (sv_connections st)" by (force simp: closes_def st)
  then show ?thesis by (simp add: st table_def dom_map_of_conv_image_fst)
qed (use e in auto)

end
