(* ===== verification/Monitor_Laws.thy ===== *)
theory Monitor_Laws
  imports Monitor_System Server_Table
begin

text \<open>
  What every run of the monitor keeps: the network it has loaded, but for the passenger counts;
  the invariants of the client and of the server, over their shares of the actions; and connected
  clients that were announced.
\<close>

section \<open>Shares of the actions\<close>

lemma by_client_simps [simp]:
  "by_client [] = []" "by_client (xs @ ys) = by_client xs @ by_client ys"
  "by_client (map By_Client acts) = acts" "by_client (map By_Server acts') = []"
  by (induction acts) (simp_all add: by_client_def comp_def)

lemma by_server_simps [simp]:
  "by_server [] = []" "by_server (xs @ ys) = by_server xs @ by_server ys"
  "by_server (map By_Server acts') = acts'" "by_server (map By_Client acts) = []"
  by (induction acts') (simp_all add: by_server_def comp_def)

lemma server_step_acts:
  "server_step ord e (st, tr) = (fst (server_step ord e (st, [])), tr @ snd (server_step ord e (st, [])))"
  by (cases e) (simp_all split: prod.splits)

section \<open>The layout of the network\<close>

definition same_layout :: "network \<Rightarrow> network \<Rightarrow> bool" where
  "same_layout net0 net \<longleftrightarrow> same_shape net0 net \<and> edges net = edges net0"

lemma same_layout_refl [simp]: "same_layout net net"
  by (simp add: same_layout_def)

lemma same_layout_record:
  assumes "same_layout net0 net" and "RecordPassengerEvent ev net = (res, net')"
  shows "same_layout net0 net'"
proof -
  have "edges net' = edges net"
    using assms(2)
    by (auto simp: RecordPassengerEvent_def Let_def set_count_def split: option.splits EventType.splits if_splits)
  then show ?thesis
    using assms(1) RecordPassengerEvent_shape [OF assms(2)] same_shape_trans by (auto simp: same_layout_def)
qed

section \<open>The invariant\<close>

definition monitor_ok :: "network \<Rightarrow> 'w monitor_action list \<Rightarrow> 'w monitor \<Rightarrow> bool" where
  "monitor_ok net0 tr m \<longleftrightarrow>
     (\<exists>cl. nm_client m = Some cl \<and> client_inv (cl, by_client tr)) \<and>
     (\<exists>st. nm_server m = Some st \<and> server_inv (st, by_server tr)) \<and>
     same_layout net0 (nm_network m) \<and>
     (\<forall>i \<in> nm_connectedClients m. announced i (by_server tr))"

text \<open>A call that keeps it, whatever its outcome, and posts no callback.\<close>

definition silent :: "'w monitor_action list \<Rightarrow> bool" where
  "silent acts \<longleftrightarrow>
     filter client_post (by_client acts) = [] \<and> filter server_post (by_server acts) = []"

lemma silent_simps [simp]:
  "silent []" "silent (xs @ ys) \<longleftrightarrow> silent xs \<and> silent ys"
  by (auto simp: silent_def)

lemma silent_map:
  "silent (map By_Server acts) \<longleftrightarrow> filter server_post acts = []"
  "silent (map By_Client acts') \<longleftrightarrow> filter client_post acts' = []"
  by (simp_all add: silent_def)

lemma silent_server_acts:
  "filter server_post (snd (server_Send ord n i d c False r st)) = []"
  "filter server_post (snd (snd (server_Close ord i False st))) = []"
  "filter server_post (snd (server_Stop st)) = []"
  by (auto simp: server_Send_def server_Close_def server_Stop_def CloseConnection_def Let_def
      filter_empty_conv split: option.splits if_splits prod.splits outcome.splits)

lemma silent_client_acts:
  "filter client_post (snd (client_Subscribe ord i d s m)) = [] \<and> Wc_Connect \<notin> set (snd (client_Subscribe ord i d s m))"
  "filter client_post (snd (client_Close h cl)) = [] \<and> Wc_Connect \<notin> set (snd (client_Close h cl))"
  by (auto simp: client_Subscribe_def client_Close_def Let_def split: prod.splits outcome.splits)

text \<open>Nor does it open a connection, and it takes out of the table of the server what it closes.\<close>

definition server_table :: "'w monitor \<Rightarrow> 'w set" where
  "server_table m = (case nm_server m of None \<Rightarrow> {} | Some st \<Rightarrow> table st)"

definition calm :: "'w monitor \<Rightarrow> 'w monitor_action list \<Rightarrow> 'w monitor \<Rightarrow> bool" where
  "calm m acts m' \<longleftrightarrow>
     silent acts \<and> Wc_Connect \<notin> set (by_client acts) \<and>
     server_table m' = server_table m - closes (by_server acts) \<and> closes (by_server acts) \<subseteq> server_table m"

lemma calm_nothing: "nm_server m' = nm_server m \<Longrightarrow> calm m [] m'"
  by (simp add: calm_def server_table_def)

lemma calm_trans: "calm m acts m' \<Longrightarrow> calm m' acts' m'' \<Longrightarrow> calm m (acts @ acts') m''"
  by (auto simp: calm_def)

lemma calm_client:
  "filter client_post acts = [] \<Longrightarrow> Wc_Connect \<notin> set acts \<Longrightarrow> nm_server m' = nm_server m \<Longrightarrow>
   calm m (map By_Client acts) m'"
  by (simp add: calm_def silent_map server_table_def)

lemma calm_server:
  assumes "nm_server m = Some st" and "maps_agree st" and "user_call e"
    and "server_step ord e (st, []) = (st', acts)" and "filter server_post acts = []"
  shows "calm m (map By_Server acts) (m\<lparr>nm_server := Some st'\<rparr>)"
  using user_call_table [OF assms(2-4)] assms(1,5) by (simp add: calm_def silent_map server_table_def)

definition keeps_ok :: "network \<Rightarrow> ('w monitor \<Rightarrow> ('a, 'w) effect) \<Rightarrow> bool" where
  "keeps_ok net0 f \<longleftrightarrow>
     (\<forall>tr m res m' acts. monitor_ok net0 tr m \<longrightarrow> f m = (res, m', acts) \<longrightarrow>
        monitor_ok net0 (tr @ acts) m' \<and> calm m acts m')"

lemma keeps_okI:
  "(\<And>tr m res m' acts. monitor_ok net0 tr m \<Longrightarrow> f m = (res, m', acts) \<Longrightarrow>
      monitor_ok net0 (tr @ acts) m' \<and> calm m acts m') \<Longrightarrow>
   keeps_ok net0 f"
  by (simp add: keeps_ok_def)

lemma keeps_okD:
  "keeps_ok net0 f \<Longrightarrow> monitor_ok net0 tr m \<Longrightarrow> f m = (res, m', acts) \<Longrightarrow>
   monitor_ok net0 (tr @ acts) m' \<and> calm m acts m'"
  by (simp add: keeps_ok_def)

lemma keeps_bind:
  assumes f: "keeps_ok net0 f" and g: "\<And>x. keeps_ok net0 (g x)"
  shows "keeps_ok net0 (\<lambda>m. bindE (f m) g)"
proof (rule keeps_okI)
  fix tr m res m' acts assume ok: "monitor_ok net0 tr m" and e: "bindE (f m) g = (res, m', acts)"
  obtain res1 m1 acts1 where f1: "f m = (res1, m1, acts1)" by (metis prod_cases3)
  note ok1 = keeps_okD [OF f ok f1]
  show "monitor_ok net0 (tr @ acts) m' \<and> calm m acts m'"
  proof (cases res1)
    case (Returns x)
    obtain res2 m2 acts2 where g2: "g x m1 = (res2, m2, acts2)" by (metis prod_cases3)
    have "m' = m2" "acts = acts1 @ acts2" using e by (simp_all add: f1 Returns g2)
    then show ?thesis using keeps_okD [OF g conjunct1 [OF ok1] g2] ok1 calm_trans by fastforce
  qed (use e ok1 in \<open>auto simp: f1\<close>)
qed

text \<open>A change that the invariant does not see, before a call, and a call that changes nothing else.\<close>

definition unseen :: "('w monitor \<Rightarrow> 'w monitor) \<Rightarrow> bool" where
  "unseen h \<longleftrightarrow>
     (\<forall>m. nm_client (h m) = nm_client m \<and> nm_server (h m) = nm_server m \<and>
        nm_network (h m) = nm_network m \<and> nm_connectedClients (h m) \<subseteq> nm_connectedClients m)"

lemma unseen_ok: "unseen h \<Longrightarrow> monitor_ok net0 tr m \<Longrightarrow> monitor_ok net0 tr (h m)"
  unfolding unseen_def monitor_ok_def by (metis subsetD)

lemma unseen_calm: "unseen h \<Longrightarrow> calm (h m) acts m' \<longleftrightarrow> calm m acts m'"
  by (simp add: unseen_def calm_def server_table_def)

lemma keeps_after: "keeps_ok net0 f \<Longrightarrow> unseen h \<Longrightarrow> keeps_ok net0 (\<lambda>m. f (h m))"
  unfolding keeps_ok_def by (metis unseen_ok unseen_calm)

lemma keeps_finish: "unseen h \<Longrightarrow> keeps_ok net0 (\<lambda>m. finish (h m))"
  by (rule keeps_okI) (auto simp: finish_def unseen_def intro: unseen_ok calm_nothing)

lemma keeps_value: "keeps_ok net0 (\<lambda>m. (res, m, []))"
  by (rule keeps_okI) (simp add: calm_nothing)

lemma unseen_id: "unseen (\<lambda>m. m)"
  and unseen_error: "unseen (\<lambda>m. m\<lparr>nm_lastErrorCode := e\<rparr>)"
  and unseen_route: "unseen (\<lambda>m. m\<lparr>nm_lastErrorCode := e, nm_lastTravelRoute := r\<rparr>)"
  and unseen_drop: "unseen (\<lambda>m. m\<lparr>nm_connectedClients := nm_connectedClients m - A\<rparr>)"
  and unseen_drop_error: "unseen (\<lambda>m. m\<lparr>nm_connectedClients := nm_connectedClients m - A, nm_lastErrorCode := e\<rparr>)"
  by (auto simp: unseen_def)

lemma keeps_set_error: "keeps_ok net0 (set_error e)"
  using keeps_finish [OF unseen_error] by (simp add: set_error_def [abs_def])

lemma announced_mono: "announced i tr \<Longrightarrow> announced i (tr @ acts)"
  by simp

lemma client_step_ok:
  assumes "monitor_ok net0 tr m" and "nm_client m = Some cl" and "client_inv (cl', by_client tr @ acts)"
  shows "monitor_ok net0 (tr @ map By_Client acts) (m\<lparr>nm_client := Some cl'\<rparr>)"
  using assms by (auto simp: monitor_ok_def)

lemma server_step_ok:
  assumes "monitor_ok net0 tr m" and "nm_server m = Some st" and "server_inv (st', by_server tr @ acts)"
  shows "monitor_ok net0 (tr @ map By_Server acts) (m\<lparr>nm_server := Some st'\<rparr>)"
  using assms by (auto simp: monitor_ok_def)

lemma monitor_ok_client:
  "monitor_ok net0 tr m \<Longrightarrow> nm_client m = Some cl \<Longrightarrow> client_inv (cl, by_client tr)"
  by (auto simp: monitor_ok_def)

lemma monitor_ok_server:
  "monitor_ok net0 tr m \<Longrightarrow> nm_server m = Some st \<Longrightarrow> server_inv (st, by_server tr)"
  by (auto simp: monitor_ok_def)

lemma same_client: "nm_client m = Some cl \<Longrightarrow> m\<lparr>nm_client := Some cl\<rparr> = m"
  by simp

lemma same_server: "nm_server m = Some st \<Longrightarrow> m\<lparr>nm_server := Some st\<rparr> = m"
  by simp

section \<open>Every handler keeps it\<close>

locale monitor_service =
  fixes lib :: "('j, 'pt) monitor_lib"
  assumes order: "mset (ml_order lib hs) = mset hs"

sublocale monitor_service \<subseteq> order: header_layout "ml_order lib"
  by unfold_locales (rule order)

lemma destination_ok: "newLine \<notin> set subscriptionDestination"
  by (simp add: subscriptionDestination_def newLine_def)

context monitor_service
begin

lemma client_effect_ok:
  assumes ok: "monitor_ok net0 tr m" and cl: "nm_client m = Some cl"
    and al: "client_allowed e (cl, by_client tr)" and eff: "client_effect (ml_order lib) e cl = (cl', acts)"
  shows "monitor_ok net0 (tr @ map By_Client acts) (m\<lparr>nm_client := Some cl'\<rparr>)"
proof (rule client_step_ok [OF ok cl])
  have "client_inv (client_step (ml_order lib) e (cl, by_client tr))"
    by (rule client_step_inv [OF order.header_layout_axioms monitor_ok_client [OF ok cl] al])
  then show "client_inv (cl', by_client tr @ acts)" using eff by (simp add: client_step_def)
qed

lemma server_effect_ok:
  assumes ok: "monitor_ok net0 tr m" and st: "nm_server m = Some st"
    and al: "server_allowed e (st, by_server tr)" and eff: "server_step (ml_order lib) e (st, []) = (st', acts)"
  shows "monitor_ok net0 (tr @ map By_Server acts) (m\<lparr>nm_server := Some st'\<rparr>)"
proof (rule server_step_ok [OF ok st])
  have "server_inv (server_step (ml_order lib) e (st, by_server tr))"
    by (rule order.server_step_inv [OF monitor_ok_server [OF ok st] al])
  then show "server_inv (st', by_server tr @ acts)"
    using eff server_step_acts [of "ml_order lib" e st "by_server tr"] by simp
qed

lemma keeps_client_close: "keeps_ok net0 client_close"
proof (rule keeps_okI)
  fix tr m res m' acts assume ok: "monitor_ok net0 tr m" and e: "client_close m = (res, m', acts)"
  obtain cl where cl: "nm_client m = Some cl" using ok by (auto simp: monitor_ok_def)
  obtain cl' acts' where eff: "client_effect (ml_order lib) (Cl_Close False) cl = (cl', acts')" by fastforce
  then show "monitor_ok net0 (tr @ acts) m' \<and> calm m acts m'"
    using client_effect_ok [OF ok cl _ eff] e cl silent_client_acts(2) [of False cl]
    by (auto simp: client_close_def intro: calm_client)
qed

lemma keeps_client_subscribe:
  assumes "id_ok newId"
  shows "keeps_ok net0 (client_subscribe lib newId subscriptionDestination)"
proof (rule keeps_okI)
  fix tr m res m' acts
  assume ok: "monitor_ok net0 tr m"
    and e: "client_subscribe lib newId subscriptionDestination m = (res, m', acts)"
  obtain cl where cl: "nm_client m = Some cl" using ok by (auto simp: monitor_ok_def)
  let ?e = "Cl_Subscribe newId subscriptionDestination True True"
  obtain cl' acts' where eff: "client_effect (ml_order lib) ?e cl = (cl', acts')" by fastforce
  have "client_allowed ?e (cl, by_client tr)" using assms destination_ok by simp
  from client_effect_ok [OF ok cl this eff] show "monitor_ok net0 (tr @ acts) m' \<and> calm m acts m'"
    using e cl eff silent_client_acts(1) [of "ml_order lib" newId subscriptionDestination True True]
    by (auto simp: client_subscribe_def same_client split: prod.splits intro: calm_client)
qed

lemma keeps_server_stop: "keeps_ok net0 server_stop"
proof (rule keeps_okI)
  fix tr m res m' acts assume ok: "monitor_ok net0 tr m" and e: "server_stop m = (res, m', acts)"
  obtain st where st: "nm_server m = Some st" using ok by (auto simp: monitor_ok_def)
  have agree: "maps_agree st" using monitor_ok_server [OF ok st] by (simp add: server_inv_def)
  obtain st' acts' where eff: "server_step (ml_order lib) Ev_Stop (st, []) = (st', acts')" by fastforce
  then show "monitor_ok net0 (tr @ acts) m' \<and> calm m acts m'"
    using server_effect_ok [OF ok st _ eff] calm_server [OF st agree _ eff] e st silent_server_acts(3) [of st]
    by (auto simp: server_stop_def)
qed

lemma keeps_server_close: "keeps_ok net0 (server_close lib i)"
proof (rule keeps_okI)
  fix tr m res m' acts assume ok: "monitor_ok net0 tr m" and e: "server_close lib i m = (res, m', acts)"
  obtain st where st: "nm_server m = Some st" using ok by (auto simp: monitor_ok_def)
  have agree: "maps_agree st" using monitor_ok_server [OF ok st] by (simp add: server_inv_def)
  obtain st' acts' where eff: "server_step (ml_order lib) (Ev_Close i False) (st, []) = (st', acts')" by fastforce
  then show "monitor_ok net0 (tr @ acts) m' \<and> calm m acts m'"
    using server_effect_ok [OF ok st _ eff] calm_server [OF st agree _ eff] e st
      silent_server_acts(2) [of "ml_order lib" i st]
    by (auto simp: server_close_def split: prod.splits)
qed

lemma keeps_server_send: "keeps_ok net0 (server_send lib newId i dest content rid)"
proof (rule keeps_okI)
  fix tr m res m' acts
  assume ok: "monitor_ok net0 tr m" and e: "server_send lib newId i dest content rid m = (res, m', acts)"
  obtain st where st: "nm_server m = Some st" using ok by (auto simp: monitor_ok_def)
  have agree: "maps_agree st" using monitor_ok_server [OF ok st] by (simp add: server_inv_def)
  obtain st' acts' where eff:
    "server_step (ml_order lib) (Ev_Send newId i dest content False rid) (st, []) = (st', acts')" by fastforce
  then show "monitor_ok net0 (tr @ acts) m' \<and> calm m acts m'"
    using server_effect_ok [OF ok st _ eff] calm_server [OF st agree _ eff] e st
      silent_server_acts(1) [of "ml_order lib" newId i dest content rid st]
    by (auto simp: server_send_def same_server split: prod.splits)
qed

lemma keeps_stop_all: "keeps_ok net0 (\<lambda>m. bindE (client_close m) (\<lambda>_. server_stop))"
  by (rule keeps_bind [OF keeps_client_close keeps_server_stop])

lemma keeps_drop_client: "keeps_ok net0 (drop_client lib i)"
  unfolding drop_client_def [abs_def]
  by (rule keeps_bind [OF keeps_server_close keeps_finish [OF unseen_drop]])

lemma keeps_OnNetworkEventsConnect: "id_ok newId \<Longrightarrow> keeps_ok net0 (OnNetworkEventsConnect lib newId ec)"
proof (cases "ec = StompClientError.kOk")
  case False
  then show ?thesis
    using keeps_after [OF keeps_stop_all unseen_error] by (simp add: OnNetworkEventsConnect_def [abs_def])
next
  case True
  assume "id_ok newId"
  have "keeps_ok net0 (\<lambda>m. if i = [] then bindE (client_close
      (m\<lparr>nm_lastErrorCode := kCouldNotSubscribeToPassengerEvents\<rparr>)) (\<lambda>_. server_stop) else finish m)" for i :: string
    using keeps_after [OF keeps_stop_all unseen_error] keeps_finish [OF unseen_id] by (cases "i = []") simp_all
  then have "keeps_ok net0 (\<lambda>m. bindE (client_subscribe lib newId subscriptionDestination m) (\<lambda>i m.
      bindE (if i = [] then bindE (client_close (m\<lparr>nm_lastErrorCode := kCouldNotSubscribeToPassengerEvents\<rparr>))
        (\<lambda>_. server_stop) else finish m) (\<lambda>_. set_error NetworkMonitorError.kOk)))"
    by (intro keeps_bind keeps_client_subscribe \<open>id_ok newId\<close> keeps_set_error)
  then show ?thesis using True by (simp add: OnNetworkEventsConnect_def [abs_def])
qed

lemma keeps_OnSubscribe: "keeps_ok net0 (OnSubscribe ec i)"
  using keeps_after [OF keeps_set_error unseen_error] keeps_set_error
  by (cases "ec = StompClientError.kOk") (simp_all add: OnSubscribe_def [abs_def])

lemma keeps_OnNetworkEventsMessage: "keeps_ok net0 (OnNetworkEventsMessage lib ec msg)"
proof (cases "read_event lib msg")
  case (Fault x)
  then show ?thesis
    using keeps_value keeps_set_error
    by (cases "x = Undefined_Behaviour") (simp_all add: OnNetworkEventsMessage_def [abs_def])
next
  case Diverges
  then show ?thesis using keeps_value by (simp add: OnNetworkEventsMessage_def [abs_def])
next
  case (Returns event)
  have "keeps_ok net0 (\<lambda>m. case RecordPassengerEvent event (nm_network m) of
      (res, net') \<Rightarrow> (res, m\<lparr>nm_network := net'\<rparr>, []))"
    by (rule keeps_okI) (auto simp: monitor_ok_def same_layout_record split: prod.splits intro: calm_nothing)
  from keeps_bind [OF this keeps_set_error] show ?thesis
    by (simp add: OnNetworkEventsMessage_def [abs_def] Returns split_beta cong: if_cong)
qed

lemma keeps_OnQuietRouteClientMessage:
  "keeps_ok net0 (OnQuietRouteClientMessage lib newId ec i dest rid msg)"
proof (cases "dest = quietRouteDestination")
  case False
  then show ?thesis using keeps_drop_client by (simp add: OnQuietRouteClientMessage_def [abs_def])
next
  case dest: True
  show ?thesis
  proof (cases "read_request lib msg")
    case (Fault x)
    then show ?thesis
      using dest keeps_value keeps_after [OF keeps_drop_client unseen_error]
      by (cases "x = Undefined_Behaviour") (simp_all add: OnQuietRouteClientMessage_def [abs_def])
  next
    case Diverges
    then show ?thesis using dest keeps_value by (simp add: OnQuietRouteClientMessage_def [abs_def])
  next
    case (Returns ab)
    obtain a b where ab: "ab = (a, b)" by fastforce
    have q: "keeps_ok net0 (\<lambda>m. (f m, m, []))" for f :: "'w monitor \<Rightarrow> 'c outcome"
      by (rule keeps_okI) (simp add: calm_nothing)
    show ?thesis
      using dest unfolding OnQuietRouteClientMessage_def [abs_def] Returns ab
      by (simp, intro keeps_bind q keeps_server_send keeps_finish unseen_route)
  qed
qed

lemma keeps_call_client_handler: "id_ok newId \<Longrightarrow> keeps_ok net0 (call_client_handler lib newId a)"
  by (cases a)
    (simp_all add: call_client_handler.simps [abs_def] keeps_OnNetworkEventsConnect keeps_OnSubscribe keeps_OnNetworkEventsMessage
      OnNetworkEventsDisconnect_def [abs_def] keeps_set_error keeps_finish [OF unseen_id])

lemma keeps_call_server_handler:
  assumes "\<And>e i. a \<noteq> Client_Connected e i"
  shows "keeps_ok net0 (call_server_handler lib newId a)"
proof (cases a)
  case (Client_Connected e i)
  then show ?thesis using assms by blast
qed (use keeps_after [OF keeps_set_error unseen_drop] in
    \<open>simp_all add: call_server_handler.simps [abs_def] keeps_OnQuietRouteClientMessage
      OnQuietRouteClientDisconnect_def [abs_def] OnQuietRouteDisconnect_def [abs_def] keeps_set_error
      keeps_finish [OF unseen_id]\<close>)

end

section \<open>Every step keeps it\<close>

definition sys_ok :: "network \<Rightarrow> 'w system \<Rightarrow> bool" where
  "sys_ok net0 s \<longleftrightarrow>
     monitor_ok net0 (sys_trace s) (sys_monitor s) \<and>
     (\<forall>e i. Client_Connected e i \<in> set (sys_server_posts s) \<longrightarrow> announced i (by_server (sys_trace s)))"

lemma absorb_fields [simp]:
  "sys_monitor (absorb (res, m, acts) s) = m"
  "sys_trace (absorb (res, m, acts) s) = sys_trace s @ acts"
  "sys_server_posts (absorb (res, m, acts) s) = sys_server_posts s @ filter server_post (by_server acts)"
  "sys_client_posts (absorb (res, m, acts) s) = sys_client_posts s @ filter client_post (by_client acts)"
  "sys_failed (absorb (res, m, acts) s) \<longleftrightarrow> \<not> returned res"
  by (simp_all add: absorb_def)

lemma absorb_ok:
  assumes "monitor_ok net0 (sys_trace s @ acts) m"
    and "\<And>e i. Client_Connected e i \<in> set (sys_server_posts s) \<Longrightarrow> announced i (by_server (sys_trace s))"
    and "\<And>e i. Client_Connected e i \<in> set (by_server acts) \<Longrightarrow> e = StompServerError.kOk"
  shows "sys_ok net0 (absorb (res, m, acts) s)"
  using assms by (auto simp: sys_ok_def announced_def)

context monitor_service
begin

lemma client_event_ok:
  assumes ok: "sys_ok net0 s" and al: "sys_allowed (Client_Event e) s"
  shows "sys_ok net0 (absorb (client_event_effect lib e (sys_monitor s)) s)"
proof -
  have m: "monitor_ok net0 (sys_trace s) (sys_monitor s)" using ok by (simp add: sys_ok_def)
  obtain cl where cl: "nm_client (sys_monitor s) = Some cl" using m by (auto simp: monitor_ok_def)
  obtain cl' acts where eff: "client_effect (ml_order lib) e cl = (cl', acts)" by fastforce
  have a: "client_allowed e (cl, by_client (sys_trace s))" using al cl by simp
  show ?thesis
    using client_effect_ok [OF m cl a eff] ok
    by (simp add: client_event_effect_def cl eff, intro absorb_ok) (auto simp: sys_ok_def)
qed

lemma server_event_ok:
  assumes ok: "sys_ok net0 s" and al: "sys_allowed (Server_Event e) s"
  shows "sys_ok net0 (absorb (server_event_effect lib e (sys_monitor s)) s)"
proof -
  have m: "monitor_ok net0 (sys_trace s) (sys_monitor s)" using ok by (simp add: sys_ok_def)
  obtain st where st: "nm_server (sys_monitor s) = Some st" using m by (auto simp: monitor_ok_def)
  obtain st' acts where eff: "server_step (ml_order lib) e (st, []) = (st', acts)" by fastforce
  have a: "server_allowed e (st, by_server (sys_trace s))" using al st by simp
  have c: "Client_Connected ec i \<in> set acts \<Longrightarrow> ec = StompServerError.kOk" for ec i
    using server_connects_ok [of ec i "ml_order lib" e st] eff by simp
  show ?thesis
    using server_effect_ok [OF m st a eff] ok c
    by (simp add: server_event_effect_def st eff, intro absorb_ok) (auto simp: sys_ok_def)
qed

lemma server_down_ok:
  assumes ok: "sys_ok net0 s"
  shows "sys_ok net0 (absorb (server_down_effect failed (sys_monitor s)) s)"
proof -
  have m: "monitor_ok net0 (sys_trace s) (sys_monitor s)" using ok by (simp add: sys_ok_def)
  obtain st where st: "nm_server (sys_monitor s) = Some st" using m by (auto simp: monitor_ok_def)
  have "server_inv (st, by_server (sys_trace s) @ server_OnWsDisconnect failed st)"
    by (rule same_state_inv [OF monitor_ok_server [OF m st]]) (auto simp: server_OnWsDisconnect_def)
  from server_step_ok [OF m st this]
  have "monitor_ok net0 (sys_trace s @ map By_Server (server_OnWsDisconnect failed st)) (sys_monitor s)"
    by (simp add: same_server [OF st])
  then show ?thesis
    using ok by (simp add: server_down_effect_def st, intro absorb_ok)
      (auto simp: sys_ok_def server_OnWsDisconnect_def)
qed

lemma deliver_ok:
  assumes k: "keeps_ok net0 f" and m: "monitor_ok net0 (sys_trace s) (sys_monitor s)"
    and p: "\<And>e i. Client_Connected e i \<in> set (sys_server_posts s) \<Longrightarrow> announced i (by_server (sys_trace s))"
  shows "sys_ok net0 (absorb (f (sys_monitor s)) s)"
proof -
  obtain res m' acts where e: "f (sys_monitor s) = (res, m', acts)" by (metis prod_cases3)
  note r = keeps_okD [OF k m e]
  have "Client_Connected ec i \<notin> set (by_server acts)" for ec i
    using r by (auto simp: calm_def silent_def filter_empty_conv)
  then show ?thesis unfolding e using r p by (intro absorb_ok) auto
qed

lemma deliver_connect_ok:
  assumes m: "monitor_ok net0 (sys_trace s) (sys_monitor s)" and a: "announced i (by_server (sys_trace s))"
    and p: "\<And>e i. Client_Connected e i \<in> set (sys_server_posts s) \<Longrightarrow> announced i (by_server (sys_trace s))"
  shows "sys_ok net0 (absorb (OnQuietRouteClientConnect ec i (sys_monitor s)) s)"
  unfolding OnQuietRouteClientConnect_def set_error_def finish_def
  by (rule absorb_ok) (use m a p in \<open>auto simp: monitor_ok_def\<close>)

lemma sys_step_ok:
  assumes ok: "sys_ok net0 s" and al: "sys_allowed e s"
  shows "sys_ok net0 (sys_step lib e s)"
proof (cases "sys_failed s")
  case True
  then show ?thesis using ok by (simp add: sys_step.simps)
next
  case False
  have m: "monitor_ok net0 (sys_trace s) (sys_monitor s)"
    and p: "\<And>e i. Client_Connected e i \<in> set (sys_server_posts s) \<Longrightarrow> announced i (by_server (sys_trace s))"
    using ok by (auto simp: sys_ok_def)
  show ?thesis
  proof (cases e)
    case (Client_Event ce)
    then show ?thesis using client_event_ok [OF ok] al False by (simp add: sys_step.simps)
  next
    case (Server_Event se)
    then show ?thesis using server_event_ok [OF ok] al False by (simp add: sys_step.simps)
  next
    case (Server_Down failed)
    then show ?thesis using server_down_ok [OF ok] False by (simp add: sys_step.simps)
  next
    case (Deliver_Client newId)
    then show ?thesis
      using ok False al m p deliver_ok [OF keeps_call_client_handler, of newId net0 "s\<lparr>sys_client_posts := _\<rparr>"]
      by (auto simp: sys_step.simps split: list.split)
  next
    case (Deliver_Server newId)
    show ?thesis
    proof (cases "sys_server_posts s")
      case Nil
      then show ?thesis using ok False by (simp add: sys_step.simps Deliver_Server)
    next
      case (Cons a rest)
      let ?s = "s\<lparr>sys_server_posts := rest\<rparr>"
      have step: "sys_step lib e s = absorb (call_server_handler lib newId a (sys_monitor ?s)) ?s"
        using False Cons by (simp add: sys_step.simps Deliver_Server)
      have m': "monitor_ok net0 (sys_trace ?s) (sys_monitor ?s)" using m by simp
      have p': "announced i (by_server (sys_trace ?s))"
        if "Client_Connected e i \<in> set (sys_server_posts ?s)" for e i
        using p [of e i] that by (simp add: Cons)
      show ?thesis
      proof (cases "\<exists>ec i. a = Client_Connected ec i")
        case True
        then obtain ec i where a: "a = Client_Connected ec i" by blast
        have "announced i (by_server (sys_trace ?s))" using p [of ec i] by (simp add: Cons a)
        from deliver_connect_ok [OF m' this p'] show ?thesis by (simp add: step a)
      next
        case False
        then have "keeps_ok net0 (call_server_handler lib newId a)" by (intro keeps_call_server_handler) blast
        from deliver_ok [OF this m' p'] show ?thesis by (simp add: step)
      qed
    qed
  qed
qed

end

end
