(* ===== verification/Monitor_Props.thy ===== *)
theory Monitor_Props
  imports Monitor_Laws
begin

text \<open>
  The properties of the monitor as a whole: how it is configured, what every run keeps, and what a
  passenger event does from the text of the frame to the count of the station. The requests of
  clients are in \<open>Monitor_Requests\<close>.
\<close>

section \<open>Configuration\<close>

definition layout_path :: "'j world \<Rightarrow> NetworkMonitorConfig \<Rightarrow> string" where
  "layout_path w config =
     (if nc_networkLayoutFile config = [] then w_temp_dir w @ ''/network-layout.json''
      else nc_networkLayoutFile config)"

definition configured ::
  "('j, 'pt) monitor_lib \<Rightarrow> 'j world \<Rightarrow> NetworkMonitorConfig \<Rightarrow> files \<Rightarrow> 'w monitor \<Rightarrow> bool" where
  "configured lib w config fs m \<longleftrightarrow>
     FromJson (ml_json lib) (ParseJsonFile w (layout_path w config) fs) empty_network =
       (Returns True, nm_network m) \<and>
     \<not> w_empty w (ParseJsonFile w (layout_path w config) fs) \<and>
     nm_client m = Some (fst (client_Connect (nc_networkEventsUsername config)
       (nc_networkEventsPassword config) True False True (new_client (nc_networkEventsUrl config)))) \<and>
     nm_server m = Some (fst (started (nc_quietRouteHostname config) True True True)) \<and>
     nm_config m = config \<and> nm_connectedClients m = {}"

lemma start_services_ok:
  assumes "start_services verify certificate wsFailed config m = (Returns NetworkMonitorError.kOk, m', acts)"
  shows "\<not> wsFailed \<and> acts = [By_Client Wc_Connect] \<and>
    m' = m\<lparr>nm_client := Some (fst (client_Connect (nc_networkEventsUsername config)
        (nc_networkEventsPassword config) True False True (new_client (nc_networkEventsUrl config)))),
      nm_server := Some (fst (started (nc_quietRouteHostname config) True True True)),
      nm_config := config\<rparr>"
  using assms
  by (cases "verify (nc_caCertFile config)"; cases certificate; cases wsFailed)
    (simp_all add: start_services_def client_Connect_def server_Run_def started_def Let_def)

lemma start_services_other:
  assumes "start_services verify certificate wsFailed config m = (res, m', acts)"
  shows "res \<noteq> Returns kFailedTransportNetworkConstruction"
  using assms
  by (cases "verify (nc_caCertFile config)"; cases certificate; cases wsFailed)
    (auto simp: start_services_def client_Connect_def server_Run_def Let_def)

lemma load_network_ok:
  assumes "load_network lib verify certificate wsFailed config parsed m =
      (Returns NetworkMonitorError.kOk, m', acts)"
  shows "FromJson (ml_json lib) parsed (nm_network m) = (Returns True, nm_network m') \<and> \<not> wsFailed \<and>
    acts = [By_Client Wc_Connect] \<and>
    nm_client m' = Some (fst (client_Connect (nc_networkEventsUsername config)
      (nc_networkEventsPassword config) True False True (new_client (nc_networkEventsUrl config)))) \<and>
    nm_server m' = Some (fst (started (nc_quietRouteHostname config) True True True)) \<and>
    nm_config m' = config \<and> nm_connectedClients m' = nm_connectedClients m"
  using assms
  by (auto simp: load_network_def Let_def dest!: start_services_ok split: prod.splits outcome.splits if_splits)

lemma load_network_failed:
  assumes "load_network lib verify certificate wsFailed config parsed m =
      (Returns kFailedTransportNetworkConstruction, m', acts)"
  shows "acts = [] \<and> nm_client m' = nm_client m"
  using assms
  by (auto simp: load_network_def Let_def dest!: start_services_other split: prod.splits outcome.splits if_splits)

lemma Configure_parse:
  assumes "Configure lib w verify certificate wsFailed config fs m = ((res, m', acts), fs')"
  obtains (early) e where "res = Returns e" "m' = m" "acts = []" "e \<noteq> NetworkMonitorError.kOk"
  | (load) "fs (nc_caCertFile config) \<noteq> None" "\<not> w_empty w (ParseJsonFile w (layout_path w config) fs')"
      "load_network lib verify certificate wsFailed config (ParseJsonFile w (layout_path w config) fs') m =
        (res, m', acts)"
  using assms
  by (auto simp: Configure_def layout_path_def Let_def split: prod.splits if_splits)

lemma Configure_outcome:
  assumes "Configure lib w verify certificate wsFailed config fs (new_monitor rnd) = ((res, m, acts), fs')"
  shows "(res = Returns NetworkMonitorError.kOk \<longrightarrow>
      configured lib w config fs' m \<and> \<not> wsFailed \<and> acts = [By_Client Wc_Connect] \<and>
      wf_network (nm_network m) \<and> edges_registered (nm_network m) \<and> times_uniform (nm_network m)) \<and>
    (res \<in> Returns ` {kMissingCaCertFile, kMissingNetworkLayoutFile, kFailedNetworkLayoutFileDownload,
        kFailedNetworkLayoutFileParsing, kFailedTransportNetworkConstruction} \<longrightarrow>
      acts = [] \<and> nm_client m = None)"
  using assms
proof (cases rule: Configure_parse)
  case (early e)
  then show ?thesis by (auto simp: new_monitor_def)
next
  case load
  have "configured lib w config fs' m \<and> \<not> wsFailed \<and> acts = [By_Client Wc_Connect]"
    if "res = Returns NetworkMonitorError.kOk"
    using load_network_ok [OF load(3) [unfolded that]] load(2)
    by (auto simp: configured_def new_monitor_def)
  moreover have "wf_network (nm_network m) \<and> edges_registered (nm_network m) \<and> times_uniform (nm_network m)"
    if "configured lib w config fs' m"
    using that loaded_network by (fastforce simp: configured_def)
  moreover have "acts = [] \<and> nm_client m = None" if "res = Returns kFailedTransportNetworkConstruction"
    using load_network_failed [OF load(3) [unfolded that]] by (simp add: new_monitor_def)
  moreover have "res \<noteq> Returns e"
    if "e \<in> {kMissingCaCertFile, kMissingNetworkLayoutFile, kFailedNetworkLayoutFileDownload,
      kFailedNetworkLayoutFileParsing}" for e
    using load(3) that
    by (cases "verify (nc_caCertFile config)"; cases certificate; cases wsFailed)
      (auto simp: load_network_def start_services_def client_Connect_def server_Run_def Let_def
        split: prod.splits outcome.splits if_splits)
  ultimately show ?thesis by blast
qed

lemma configure_ok:
  assumes "Configure lib w verify certificate wsFailed config fs (new_monitor rnd) =
      ((Returns NetworkMonitorError.kOk, m, acts), fs')"
  shows "configured lib w config fs' m \<and> \<not> wsFailed \<and> acts = [By_Client Wc_Connect] \<and>
    wf_network (nm_network m) \<and> edges_registered (nm_network m) \<and> times_uniform (nm_network m)"
  using Configure_outcome [OF assms] by simp


text \<open>The small network's layout, from a file; one request and one passenger event can be read.\<close>

definition example_request :: json_value where
  "example_request = JObject [(''start_station_id'', JString ''A''), (''end_station_id'', JString ''B'')]"

definition example_event :: json_value where
  "example_event = JObject [(''station_id'', JString ''B''), (''passenger_event'', JString ''in''),
     (''datetime'', JString ''2020-11-01T07:18:50.234000Z'')]"

definition example_lib :: "(json_value, unit) monitor_lib" where
  "example_lib =
     \<lparr>ml_stl = ref_stl, ml_rnd = example_rnd, ml_json = ref_json,
      ml_parse = (\<lambda>s. if s = ''request'' then Some example_request
                     else if s = ''event'' then Some example_event else None),
      ml_dump = (\<lambda>_. Some ''route''), ml_time = (\<lambda>_. Some ()), ml_order = rev\<rparr>"

definition example_world :: "json_value world" where
  "example_world =
     \<lparr>w_get = (\<lambda>_ _. (404, [])), w_writable = (\<lambda>_. True), w_read_json = (\<lambda>_. example_layout),
      w_null = JObject [], w_empty = (\<lambda>j. j = JObject []), w_temp_dir = ''/tmp''\<rparr>"

definition example_config :: NetworkMonitorConfig where
  "example_config = (default_config example_rnd)\<lparr>nc_networkEventsUrl := ''h'',
     nc_networkEventsUsername := ''u'', nc_networkEventsPassword := ''p'', nc_caCertFile := ''ca'',
     nc_networkLayoutFile := ''layout'', nc_quietRouteHostname := ''h''\<rparr>"

definition example_files :: files where
  "example_files = [''ca'' \<mapsto> [], ''layout'' \<mapsto> ''{}'']"

definition example_configure :: "(NetworkMonitorError, nat) effect \<times> files" where
  "example_configure = Configure example_lib example_world (\<lambda>_. Returns ()) (Returns ()) False
     example_config example_files (new_monitor example_rnd)"

lemma example_configured: "fst (fst example_configure) = Returns NetworkMonitorError.kOk"
  by code_simp

definition example_monitor :: "nat monitor" where
  "example_monitor = fst (snd (fst example_configure))"

lemma example_configure_eq:
  "Configure example_lib example_world (\<lambda>_. Returns ()) (Returns ()) False example_config example_files
     (new_monitor example_rnd) =
   ((Returns NetworkMonitorError.kOk, example_monitor, snd (snd (fst example_configure))),
    snd example_configure)"
  using example_configured by (simp add: example_monitor_def example_configure_def prod_eq_iff)


section \<open>Every run\<close>

text \<open>A monitor that is about to run, with what it has asked for so far.\<close>

locale running_monitor = monitor_service lib for lib :: "('j, 'pt) monitor_lib" +
  fixes m :: "'w monitor" and acts :: "'w monitor_action list"
  assumes ready: "monitor_ok (nm_network m) acts m"

sublocale running_monitor \<subseteq>
  machine: invariant_machine "booted m acts" "sys_step lib" sys_allowed "sys_ok (nm_network m)"
proof unfold_locales
  have "unseen monitor_Run" by (simp add: unseen_def monitor_Run_def)
  from unseen_ok [OF this ready] show "sys_ok (nm_network m) (booted m acts)"
    by (simp add: sys_ok_def booted_def)
qed (rule sys_step_ok)

context running_monitor
begin

lemma every_state:
  assumes "all_allowed (sys_step lib) sys_allowed es (booted m acts)"
  shows "sys_ok (nm_network m) (run_all (sys_step lib) es (booted m acts))"
  by (rule machine.run_from_init [OF assms])

end

lemma configured_ready:
  assumes "configured lib w config fs m"
  shows "monitor_ok (nm_network m) [By_Client Wc_Connect] m"
proof -
  have "client_inv (fst (client_Connect u p True False True (new_client url)), [Wc_Connect])" for u p url
    by (simp add: client_inv_def client_Connect_def new_client_def heard_ok_def each_after_def)
  moreover have "server_inv (fst (started host True True True), [] :: 'w server_action list)" for host
    using started_inv [of host True True True] by (simp add: started_def)
  ultimately show ?thesis
    using assms by (simp add: monitor_ok_def configured_def by_client_def by_server_def)
qed

lemma same_layout_ready:
  assumes "same_layout net0 net" and "wf_network net0" and "edges_registered net0" and "times_uniform net0"
  shows "wf_network net \<and> edges_registered net \<and> times_uniform net"
proof -
  have sh: "same_shape net0 net" and ed: "edges net = edges net0" using assms(1) by (simp_all add: same_layout_def)
  have gr: "GetRoute net = GetRoute net0"
    by (simp add: fun_eq_iff GetRoute_def GetLine_def same_shapeD [OF sh] cong: option.case_cong)
  have "edges_registered net"
    using assms(3) unfolding edges_registered_def same_shape_edge_at [OF sh] gr ed by blast
  moreover have "times_uniform net"
    using assms(4) unfolding times_uniform_def connects_def same_shape_edge_at [OF sh] ed by blast
  ultimately show ?thesis using same_shape_wf [OF sh assms(2)] by blast
qed

lemma configured_runs:
  assumes "\<And>hs. mset (ml_order lib hs) = mset hs"
    and "Configure lib w verify certificate wsFailed config fs (new_monitor rnd) =
      ((Returns NetworkMonitorError.kOk, m, acts), fs')"
  shows "running_monitor lib m acts"
  unfolding running_monitor_def running_monitor_axioms_def monitor_service_def
  using assms(1) configured_ready configure_ok [OF assms(2)] by blast

text \<open>Any libraries will do, as long as the headers of a frame are written out in some order.\<close>

interpretation any_lib: monitor_service "lib\<lparr>ml_order := rev\<rparr>" for lib :: "('j, 'pt) monitor_lib"
  by unfold_locales simp

interpretation example_run:
  running_monitor example_lib example_monitor "snd (snd (fst example_configure))"
  by (rule configured_runs [OF _ example_configure_eq]) (simp add: example_lib_def)

lemma by_server_mem: "a \<in> set (by_server tr) \<longleftrightarrow> By_Server a \<in> set tr"
  by (auto simp: by_server_def split: monitor_action.splits)

text \<open>C16: over any run of a monitor that was configured without an error, whatever the clients, the
  event service and the WebSocket layer do and in whatever order callbacks are called, the network
  keeps the stations, lines, routes and travel times it has loaded and stays ready for the route
  searches, the server's maps stay inverse to each other, and every client that is listed as
  connected was announced by the server.\<close>

theorem monitor_keeps_network:
  assumes "\<And>hs. mset (ml_order lib hs) = mset hs"
    and "Configure lib w verify certificate wsFailed config fs (new_monitor rnd) =
      ((Returns NetworkMonitorError.kOk, m, acts), fs')"
    and "all_allowed (sys_step lib) sys_allowed es (booted m acts)"
    and "run_all (sys_step lib) es (booted m acts) = s"
  shows "same_layout (nm_network m) (nm_network (sys_monitor s)) \<and> wf_network (nm_network (sys_monitor s)) \<and>
    edges_registered (nm_network (sys_monitor s)) \<and> times_uniform (nm_network (sys_monitor s)) \<and>
    (\<exists>st. nm_server (sys_monitor s) = Some st \<and> maps_agree st) \<and>
    (\<forall>i \<in> nm_connectedClients (sys_monitor s).
       By_Server (Client_Connected StompServerError.kOk i) \<in> set (sys_trace s))"
proof -
  have c: "configured lib w config fs' m" "acts = [By_Client Wc_Connect]"
    "wf_network (nm_network m)" "edges_registered (nm_network m)" "times_uniform (nm_network m)"
    using configure_ok [OF assms(2)] by blast+
  have "running_monitor lib m acts" by (rule configured_runs [OF assms(1,2)])
  from running_monitor.every_state [OF this assms(3)] have "sys_ok (nm_network m) s" by (simp add: assms(4))
  then have ok: "monitor_ok (nm_network m) (sys_trace s) (sys_monitor s)" by (simp add: sys_ok_def)
  then show ?thesis
    using same_layout_ready [OF _ c(3-5)]
    by (auto simp: monitor_ok_def server_inv_def announced_def by_server_mem)
qed

definition example_run_events :: "nat sys_event list" where
  "example_run_events =
     [Client_Event (Cl_WsConnected False), Server_Event (Ev_Connect False 0 ''i''),
      Server_Event (Ev_Message False 0 example_stomp), Deliver_Server ''x'']"

definition example_start :: "nat system" where
  "example_start = booted example_monitor (snd (snd (fst example_configure)))"

lemma example_run_allowed: "all_allowed (sys_step example_lib) sys_allowed example_run_events example_start"
  by code_simp

lemma example_connected_client:
  "''i'' \<in> nm_connectedClients (sys_monitor (run_all (sys_step example_lib) example_run_events example_start))"
  by code_simp

lemma monitor_keeps_network_witness:
  "By_Server (Client_Connected StompServerError.kOk ''i'') \<in>
     set (sys_trace (run_all (sys_step example_lib) example_run_events example_start))"
proof -
  have "mset (ml_order example_lib hs) = mset hs" for hs by (simp add: example_lib_def)
  from monitor_keeps_network [OF this example_configure_eq
      example_run_allowed [unfolded example_start_def] refl] show ?thesis
    using example_connected_client unfolding example_start_def by blast
qed

section \<open>Passenger events\<close>

text \<open>
  A message on the subscription of the monitor, and the callback that it posts. \<open>Process_Requests\<close>
  has the same from the read of the socket on.
\<close>

lemma passenger_event_counted:
  assumes "\<not> sys_failed s" and "sys_client_posts s = []" and "wf_network (nm_network (sys_monitor s))"
    and "nm_client (sys_monitor s) = Some cl" and "map_of (cl_subscriptions cl) i = Some sub"
    and "sub_onMessage sub" and "sub_destination sub = subscriptionDestination"
    and "StompFrame_parse msg = (Returns StompError.kOk, f)" and "GetCommand f = StompCommand.kMessage"
    and "GetHeaderValue f kSubscription = i" and "GetHeaderValue f kDestination = subscriptionDestination"
    and "read_event lib (GetBody f) = Returns ev"
    and "GetPassengerCount (nm_network (sys_monitor s)) (ev_stationId ev) = Returns c"
    and "\<bar>c\<bar> < llong_max"
  shows "\<exists>s'. run_all (sys_step lib) [Client_Event (Cl_WsMessage False msg), Deliver_Client newId] s = s' \<and>
    \<not> sys_failed s' \<and> sys_client_posts s' = [] \<and>
    sys_trace s' = sys_trace s @ [By_Client (On_Subscription_Message i StompClientError.kOk (GetBody f))] \<and>
    nm_lastErrorCode (sys_monitor s') = NetworkMonitorError.kOk \<and>
    GetPassengerCount (nm_network (sys_monitor s')) (ev_stationId ev) =
      Returns (case ev_type ev of In \<Rightarrow> c + 1 | Out \<Rightarrow> c - 1) \<and>
    (\<forall>sid. sid \<noteq> ev_stationId ev \<longrightarrow>
       GetPassengerCount (nm_network (sys_monitor s')) sid = GetPassengerCount (nm_network (sys_monitor s)) sid)"
proof -
  let ?m = "sys_monitor s" and ?net = "nm_network (sys_monitor s)"
  have parsed: "client_OnWsMessage False msg cl =
      (Returns (), [On_Subscription_Message i StompClientError.kOk (GetBody f)])"
    using assms(5-11) by (simp add: client_OnWsMessage_def HandleSubscriptionMessage_def notify_def)
  let ?s1 = "s\<lparr>sys_client_posts := [On_Subscription_Message i StompClientError.kOk (GetBody f)],
    sys_trace := sys_trace s @ [By_Client (On_Subscription_Message i StompClientError.kOk (GetBody f))]\<rparr>"
  have s1: "sys_step lib (Client_Event (Cl_WsMessage False msg)) s = ?s1"
    using assms(1,2,4)
    by (simp add: sys_step.simps client_event_effect_def parsed absorb_def same_client by_client_def by_server_def)
  obtain n where n: "GetStation ?net (ev_stationId ev) = Some n" "gn_passengerCount (nodes ?net ! n) = c"
    using assms(13) by (auto simp: GetPassengerCount_def split: option.splits)
  have lt: "n < length (nodes ?net)" using n wf_GetStation [OF assms(3)] by auto
  let ?c = "case ev_type ev of In \<Rightarrow> c + 1 | Out \<Rightarrow> c - 1"
  have rec: "RecordPassengerEvent ev ?net = (Returns True, set_count n ?c ?net)"
    using n assms(14) by (cases "ev_type ev") (auto simp: RecordPassengerEvent_def llong_max_def llong_min_def)
  let ?s2 = "?s1\<lparr>sys_client_posts := [],
    sys_monitor := ?m\<lparr>nm_network := set_count n ?c ?net, nm_lastErrorCode := NetworkMonitorError.kOk\<rparr>\<rparr>"
  have s2: "sys_step lib (Deliver_Client newId) ?s1 = ?s2"
    using assms(1)
    by (simp add: sys_step.simps OnNetworkEventsMessage_def assms(12) rec set_error_def finish_def absorb_def)
  have st: "GetStation (set_count n ?c ?net) = GetStation ?net"
    by (simp add: fun_eq_iff GetStation_def set_count_def)
  have other: "GetPassengerCount (set_count n ?c ?net) sid = GetPassengerCount ?net sid"
    if "sid \<noteq> ev_stationId ev" for sid
  proof (cases "GetStation ?net sid")
    case (Some k)
    then have "k \<noteq> n" using that n(1) wf_GetStation [OF assms(3)] by metis
    then show ?thesis using Some by (simp add: GetPassengerCount_def st) (simp add: set_count_def)
  qed (simp add: GetPassengerCount_def st)
  have "GetPassengerCount (set_count n ?c ?net) (ev_stationId ev) = Returns ?c"
    using n(1) lt by (simp add: GetPassengerCount_def st) (simp add: set_count_def)
  then show ?thesis
    using assms(1) other by (intro exI [of _ ?s2]) (simp add: s1 s2)
qed

end
