(* ===== verification/Web_Socket.thy ===== *)
theory Web_Socket
  imports Tube_Prelude
begin

text \<open>
  The WebSocket layer, \<^verbatim>\<open>inc/network-monitor/websocket-client.h\<close> and
  \<^verbatim>\<open>inc/network-monitor/websocket-server.h\<close>: a client, a session of the server, and the server
  that accepts connections. Each is a chain of asynchronous operations of the socket libraries,
  which are outside: starting one is an action, and its completion, with any error code, calls the
  handler given to it. A user handler is there or not; its calls are actions.
\<close>

section \<open>Shared by client and session\<close>

text \<open>The error codes that the code tells apart.\<close>

datatype ws_error = No_Error | Operation_Aborted | Websocket_Closed | Other_Error nat

text \<open>
  An operation of the libraries; a write and a close carry the name of the handler they were given.
\<close>

datatype 'h ws_op =
    Resolve string string
  | Tcp_Connect
  | Dispatch
  | Tls_Handshake
  | Ws_Handshake
  | Read
  | Write string "'h option"
  | Shut "'h option"

datatype ws_option =
    Expires_After nat
  | Expires_Never
  | Suggested_Timeout
  | Host_Name string
  | Text_Mode

datatype 'h ws_action =
    Start "'h ws_op"
  | Option ws_option
  | User_Connect ws_error
  | User_Message string
  | User_Disconnect ws_error
  | User_Sent 'h ws_error
  | User_Closed 'h ws_error

record ws_peer =
  wp_onConnect :: bool
  wp_onMessage :: bool
  wp_onDisconnect :: bool
  wp_closed :: bool
  wp_rBuffer :: string

definition call :: "bool \<Rightarrow> 'h ws_action \<Rightarrow> 'h ws_action list" where
  "call there a = (if there then [a] else [])"

text \<open>
  \<^verbatim>\<open>OnRead\<close>: the message is the whole buffer, from which the octets of this read are consumed.
\<close>

definition OnRead :: "ws_error \<Rightarrow> nat \<Rightarrow> ws_peer \<Rightarrow> ws_peer \<times> 'h ws_action list" where
  "OnRead ec nBytes p =
     (if ec \<noteq> No_Error then (p, [])
      else
        let message = wp_rBuffer p
        in (p\<lparr>wp_rBuffer := drop nBytes (wp_rBuffer p)\<rparr>, call (wp_onMessage p) (User_Message message)))"

text \<open>The completion of a write or a close.\<close>

definition OnWritten :: "'h option \<Rightarrow> ws_error \<Rightarrow> 'h ws_action list" where
  "OnWritten onSend ec = (case onSend of None \<Rightarrow> [] | Some h \<Rightarrow> [User_Sent h ec])"

definition OnShut :: "'h option \<Rightarrow> ws_error \<Rightarrow> 'h ws_action list" where
  "OnShut onClose ec = (case onClose of None \<Rightarrow> [] | Some h \<Rightarrow> [User_Closed h ec])"

definition ws_Send :: "string \<Rightarrow> 'h option \<Rightarrow> 'h ws_action list" where
  "ws_Send message onSend = [Start (Write message onSend)]"

definition ws_Close :: "'h option \<Rightarrow> ws_peer \<Rightarrow> ws_peer \<times> 'h ws_action list" where
  "ws_Close onClose p = (p\<lparr>wp_closed := True\<rparr>, [Start (Shut onClose)])"

section \<open>The client\<close>

record ws_client =
  wc_url :: string
  wc_endpoint :: string
  wc_port :: string

definition new_ws_client :: ws_peer where
  "new_ws_client =
     \<lparr>wp_onConnect = False, wp_onMessage = False, wp_onDisconnect = False, wp_closed = True, wp_rBuffer = []\<rparr>"

definition wc_Connect ::
  "ws_client \<Rightarrow> bool \<Rightarrow> bool \<Rightarrow> bool \<Rightarrow> ws_peer \<Rightarrow> ws_peer \<times> 'h ws_action list" where
  "wc_Connect c onConnect onMessage onDisconnect p =
     (p\<lparr>wp_onConnect := onConnect, wp_onMessage := onMessage, wp_onDisconnect := onDisconnect,
        wp_closed := False\<rparr>,
      [Start (Resolve (wc_url c) (wc_port c))])"

definition wc_OnResolve :: "ws_error \<Rightarrow> ws_peer \<Rightarrow> 'h ws_action list" where
  "wc_OnResolve ec p =
     (if ec \<noteq> No_Error then call (wp_onConnect p) (User_Connect ec)
      else [Option (Expires_After 5), Start Tcp_Connect])"

definition wc_OnConnect :: "ws_client \<Rightarrow> ws_error \<Rightarrow> ws_peer \<Rightarrow> 'h ws_action list" where
  "wc_OnConnect c ec p =
     (if ec \<noteq> No_Error then call (wp_onConnect p) (User_Connect ec)
      else [Option Expires_Never, Option Suggested_Timeout, Option (Host_Name (wc_url c)),
            Start Tls_Handshake])"

definition wc_OnTlsHandshake :: "ws_error \<Rightarrow> ws_peer \<Rightarrow> 'h ws_action list" where
  "wc_OnTlsHandshake ec p =
     (if ec \<noteq> No_Error then call (wp_onConnect p) (User_Connect ec) else [Start Ws_Handshake])"

definition wc_ListenToIncomingMessage :: "ws_error \<Rightarrow> ws_peer \<Rightarrow> 'h ws_action list" where
  "wc_ListenToIncomingMessage ec p =
     (if ec = Operation_Aborted then call (wp_onDisconnect p \<and> \<not> wp_closed p) (User_Disconnect ec)
      else [Start Read])"

definition wc_OnHandshake :: "ws_error \<Rightarrow> ws_peer \<Rightarrow> 'h ws_action list" where
  "wc_OnHandshake ec p =
     (if ec \<noteq> No_Error then call (wp_onConnect p) (User_Connect ec)
      else Option Text_Mode # wc_ListenToIncomingMessage ec p @ call (wp_onConnect p) (User_Connect ec))"

text \<open>
  The completion of an operation: a read puts \<open>bytes\<close> into the buffer, also when it fails.
\<close>

fun wc_complete ::
  "ws_client \<Rightarrow> 'h ws_op \<Rightarrow> ws_error \<Rightarrow> string \<Rightarrow> ws_peer \<Rightarrow> ws_peer \<times> 'h ws_action list" where
  "wc_complete c (Resolve u pt) ec bytes p = (p, wc_OnResolve ec p)"
| "wc_complete c Tcp_Connect ec bytes p = (p, wc_OnConnect c ec p)"
| "wc_complete c Tls_Handshake ec bytes p = (p, wc_OnTlsHandshake ec p)"
| "wc_complete c Ws_Handshake ec bytes p = (p, wc_OnHandshake ec p)"
| "wc_complete c Read ec bytes p =
     (let (p', acts) = OnRead ec (length bytes) (p\<lparr>wp_rBuffer := wp_rBuffer p @ bytes\<rparr>)
      in (p', acts @ wc_ListenToIncomingMessage ec p'))"
| "wc_complete c (Write m h) ec bytes p = (p, OnWritten h ec)"
| "wc_complete c (Shut h) ec bytes p = (p, OnShut h ec)"
| "wc_complete c Dispatch ec bytes p = (p, [])"

section \<open>A session of the server\<close>

definition new_session :: ws_peer where
  "new_session =
     \<lparr>wp_onConnect = False, wp_onMessage = False, wp_onDisconnect = False, wp_closed = False, wp_rBuffer = []\<rparr>"

definition ss_Connect :: "bool \<Rightarrow> bool \<Rightarrow> bool \<Rightarrow> ws_peer \<Rightarrow> ws_peer \<times> 'h ws_action list" where
  "ss_Connect onConnect onMessage onDisconnect p =
     (p\<lparr>wp_onConnect := onConnect, wp_onMessage := onMessage, wp_onDisconnect := onDisconnect,
        wp_closed := False\<rparr>,
      [Start Dispatch])"

definition ss_OnConnect :: "'h ws_action list" where
  "ss_OnConnect = [Option (Expires_After 30), Start Tls_Handshake]"

definition ss_OnTlsHandshake :: "ws_error \<Rightarrow> ws_peer \<Rightarrow> 'h ws_action list" where
  "ss_OnTlsHandshake ec p =
     (if ec \<noteq> No_Error then call (wp_onConnect p) (User_Connect ec)
      else [Option Expires_Never, Option Suggested_Timeout, Start Ws_Handshake])"

definition ss_ListenToIncomingMessage :: "ws_error \<Rightarrow> ws_peer \<Rightarrow> 'h ws_action list" where
  "ss_ListenToIncomingMessage ec p =
     (if ec = Websocket_Closed \<or> ec = Operation_Aborted
      then call (wp_onDisconnect p \<and> \<not> wp_closed p) (User_Disconnect ec)
      else [Start Read])"

definition ss_OnHandshake :: "ws_error \<Rightarrow> ws_peer \<Rightarrow> 'h ws_action list" where
  "ss_OnHandshake ec p =
     (if ec \<noteq> No_Error then call (wp_onConnect p) (User_Connect ec)
      else Option Text_Mode # ss_ListenToIncomingMessage ec p @ call (wp_onConnect p) (User_Connect ec))"

definition ss_OnRead :: "ws_error \<Rightarrow> nat \<Rightarrow> ws_peer \<Rightarrow> ws_peer \<times> 'h ws_action list" where
  "ss_OnRead ec nBytes p =
     (if ec \<noteq> No_Error then (p, [])
      else
        let message = wp_rBuffer p
        in (p\<lparr>wp_rBuffer := drop nBytes (wp_rBuffer p)\<rparr>, call (wp_onMessage p) (User_Message message)))"

definition ss_Send :: "string \<Rightarrow> 'h option \<Rightarrow> 'h ws_action list" where
  "ss_Send message onSend = [Start (Write message onSend)]"

definition ss_Close :: "'h option \<Rightarrow> ws_peer \<Rightarrow> ws_peer \<times> 'h ws_action list" where
  "ss_Close onClose p = (p\<lparr>wp_closed := True\<rparr>, [Start (Shut onClose)])"

text \<open>The session has code of its own for what the client does in the same way.\<close>

lemma session_as_client: "ss_OnRead = OnRead" "ss_Send = ws_Send" "ss_Close = ws_Close"
  by (simp_all add: fun_eq_iff ss_OnRead_def OnRead_def ss_Send_def ws_Send_def ss_Close_def ws_Close_def)

fun ss_complete ::
  "'h ws_op \<Rightarrow> ws_error \<Rightarrow> string \<Rightarrow> ws_peer \<Rightarrow> ws_peer \<times> 'h ws_action list" where
  "ss_complete Dispatch ec bytes p = (p, ss_OnConnect)"
| "ss_complete Tls_Handshake ec bytes p = (p, ss_OnTlsHandshake ec p)"
| "ss_complete Ws_Handshake ec bytes p = (p, ss_OnHandshake ec p)"
| "ss_complete Read ec bytes p =
     (let (p', acts) = ss_OnRead ec (length bytes) (p\<lparr>wp_rBuffer := wp_rBuffer p @ bytes\<rparr>)
      in (p', acts @ ss_ListenToIncomingMessage ec p'))"
| "ss_complete (Write m h) ec bytes p = (p, OnWritten h ec)"
| "ss_complete (Shut h) ec bytes p = (p, OnShut h ec)"
| "ss_complete (Resolve u pt) ec bytes p = (p, [])"
| "ss_complete Tcp_Connect ec bytes p = (p, [])"

section \<open>The server\<close>

record ws_server =
  ws_ip :: string
  ws_port :: "16 word"
  ws_stopped :: bool
  ws_onSessionConnect :: bool
  ws_onSessionMessage :: bool
  ws_onSessionDisconnect :: bool
  ws_onDisconnect :: bool

datatype 's acceptor_action =
    Open_Endpoint string "16 word"
  | Reuse_Address
  | Bind string "16 word"
  | Listen
  | Accept
  | Close_Acceptor
  | New_Session 's ws_peer "string ws_action list"
  | Server_Disconnect ws_error

definition new_ws_server :: "string \<Rightarrow> 16 word \<Rightarrow> ws_server" where
  "new_ws_server ip port =
     \<lparr>ws_ip = ip, ws_port = port, ws_stopped = False, ws_onSessionConnect = False,
      ws_onSessionMessage = False, ws_onSessionDisconnect = False, ws_onDisconnect = False\<rparr>"

definition AcceptConnection :: "ws_error \<Rightarrow> ws_server \<Rightarrow> 's acceptor_action list" where
  "AcceptConnection ec sv =
     (if ec \<noteq> No_Error
      then (if ws_onDisconnect sv \<and> \<not> ws_stopped sv then [Server_Disconnect ec] else [])
      else [Accept])"

text \<open>
  \<^verbatim>\<open>Run\<close>: parsing the address may throw, and each of four calls may fail with an error code.
\<close>

definition ws_Run ::
  "bool \<Rightarrow> ws_error \<Rightarrow> ws_error \<Rightarrow> ws_error \<Rightarrow> ws_error \<Rightarrow> bool \<Rightarrow> bool \<Rightarrow> bool \<Rightarrow> bool \<Rightarrow> ws_server \<Rightarrow>
   ws_error outcome \<times> ws_server \<times> 's acceptor_action list" where
  "ws_Run addressOk openEc optionEc bindEc listenEc onConnect onMessage onSessionDisconnect onDisconnect sv =
     (let sv1 = sv\<lparr>ws_onSessionConnect := onConnect, ws_onSessionMessage := onMessage,
                   ws_onSessionDisconnect := onSessionDisconnect, ws_onDisconnect := onDisconnect\<rparr>;
          a1 = [Open_Endpoint (ws_ip sv) (ws_port sv)]; a2 = a1 @ [Reuse_Address];
          a3 = a2 @ [Bind (ws_ip sv) (ws_port sv)]; a4 = a3 @ [Listen]
      in if \<not> addressOk then (Fault (Runtime_Error ''make_address''), sv1, [])
         else if openEc \<noteq> No_Error then (Returns openEc, sv1, a1)
         else if optionEc \<noteq> No_Error then (Returns optionEc, sv1, a2)
         else if bindEc \<noteq> No_Error then (Returns bindEc, sv1, a3)
         else if listenEc \<noteq> No_Error then (Returns listenEc, sv1, a4)
         else
           let sv2 = sv1\<lparr>ws_stopped := False\<rparr>
           in (Returns listenEc, sv2, a4 @ AcceptConnection listenEc sv2))"

definition ws_Stop :: "ws_server \<Rightarrow> ws_server \<times> 's acceptor_action list" where
  "ws_Stop sv = (sv\<lparr>ws_stopped := True\<rparr>, [Close_Acceptor])"

definition OnConnectionAccepted :: "ws_error \<Rightarrow> 's \<Rightarrow> ws_server \<Rightarrow> 's acceptor_action list" where
  "OnConnectionAccepted ec socket sv =
     (if ec \<noteq> No_Error then []
      else
        let (session, acts) = ss_Connect (ws_onSessionConnect sv) (ws_onSessionMessage sv)
              (ws_onSessionDisconnect sv) new_session
        in [New_Session socket session acts])"

definition ws_accepted :: "ws_error \<Rightarrow> 's \<Rightarrow> ws_server \<Rightarrow> 's acceptor_action list" where
  "ws_accepted ec socket sv = OnConnectionAccepted ec socket sv @ AcceptConnection ec sv"

end
