(* ===== verification/Web_Socket_Laws.thy ===== *)
theory Web_Socket_Laws
  imports Web_Socket
begin

text \<open>
  What the WebSocket layer promises to its user. The client and the session of the server are run
  against socket libraries that may complete any operation that was started, in any order and with
  any error code, and against a user who may send, close and, once the last connection is over,
  connect again. Both refine one contract, a small automaton over the calls of the user's handlers.
\<close>

section \<open>Runs and simulations\<close>

lemma filter_remove1_eq: "filter P (remove1 x xs) = remove1 x (filter P xs)"
  by (induction xs) (auto simp: remove1_filter_not)

inductive runs ::
  "('s \<Rightarrow> 'l \<Rightarrow> 'v \<Rightarrow> 's \<Rightarrow> bool) \<Rightarrow> 's \<Rightarrow> ('l \<times> 'v) list \<Rightarrow> 's \<Rightarrow> bool" for move where
  runs_none: "runs move s [] s"
| runs_next: "runs move s es t \<Longrightarrow> move t l v u \<Longrightarrow> es' = es @ [(l, v)] \<Longrightarrow> runs move s es' u"

inductive_simps runs_Nil [simp]: "runs move s [] t"

lemma runs_simulation:
  assumes "runs move s es t" and "I s"
    and step: "\<And>t l v u. I t \<Longrightarrow> move t l v u \<Longrightarrow> I u \<and> spec (f t) l v (f u)"
  shows "I t \<and> runs spec (f s) es (f t)"
  using assms(1,2) by (induction rule: runs.induct) (auto intro: runs.intros dest: step)

section \<open>The machine\<close>

datatype 'h ws_label =
    Do_Connect
  | Do_Send string "'h option"
  | Do_Close "'h option"
  | Completes "'h ws_op" ws_error string

record 'h ws_state =
  st_peer :: ws_peer
  st_pending :: "'h ws_op list"

text \<open>The operations that a list of actions starts, and the user handlers that it calls.\<close>

fun begun :: "'h ws_action list \<Rightarrow> 'h ws_op list" where
  "begun [] = []"
| "begun (Start op # acts) = op # begun acts"
| "begun (_ # acts) = begun acts"

fun called :: "'h ws_action list \<Rightarrow> 'h ws_action list" where
  "called [] = []"
| "called (Start op # acts) = called acts"
| "called (Option opt # acts) = called acts"
| "called (a # acts) = a # called acts"

lemma started_append [simp]: "begun (xs @ ys) = begun xs @ begun ys"
  by (induction xs rule: begun.induct) auto

lemma called_append [simp]: "called (xs @ ys) = called xs @ called ys"
  by (induction xs rule: called.induct) auto

text \<open>
  A write and a close run beside the chain of operations that opens the connection and then reads.
\<close>

fun transfer :: "'h ws_op \<Rightarrow> bool" where
  "transfer (Write m h) \<longleftrightarrow> True"
| "transfer (Shut h) \<longleftrightarrow> True"
| "transfer _ \<longleftrightarrow> False"

definition chain :: "'h ws_state \<Rightarrow> 'h ws_op list" where
  "chain s = filter (Not \<circ> transfer) (st_pending s)"

type_synonym 'h ws_connect = "bool \<Rightarrow> bool \<Rightarrow> bool \<Rightarrow> ws_peer \<Rightarrow> ws_peer \<times> 'h ws_action list"
type_synonym 'h ws_complete = "'h ws_op \<Rightarrow> ws_error \<Rightarrow> string \<Rightarrow> ws_peer \<Rightarrow> ws_peer \<times> 'h ws_action list"

inductive endpoint_step ::
  "'h ws_connect \<Rightarrow> 'h ws_complete \<Rightarrow> 'h ws_state \<Rightarrow> 'h ws_label \<Rightarrow> 'h ws_action list \<Rightarrow> 'h ws_state \<Rightarrow> bool"
  for connect complete where
  step_connect:
    "chain s = [] \<Longrightarrow> connect True True True (st_peer s) = (p, acts) \<Longrightarrow>
     endpoint_step connect complete s Do_Connect (called acts)
       (s\<lparr>st_peer := p, st_pending := st_pending s @ begun acts\<rparr>)"
| step_send:
    "ws_Send m h = acts \<Longrightarrow>
     endpoint_step connect complete s (Do_Send m h) (called acts)
       (s\<lparr>st_pending := st_pending s @ begun acts\<rparr>)"
| step_close:
    "ws_Close h (st_peer s) = (p, acts) \<Longrightarrow>
     endpoint_step connect complete s (Do_Close h) (called acts)
       (s\<lparr>st_peer := p, st_pending := st_pending s @ begun acts\<rparr>)"
| step_completes:
    "op \<in> set (st_pending s) \<Longrightarrow> (op = Dispatch \<longrightarrow> ec = No_Error) \<Longrightarrow>
     complete op ec bytes (st_peer s) = (p, acts) \<Longrightarrow>
     endpoint_step connect complete s (Completes op ec bytes) (called acts)
       (s\<lparr>st_peer := p, st_pending := remove1 op (st_pending s) @ begun acts\<rparr>)"

text \<open>The relation is a partial function of the label, which runs it.\<close>

fun endpoint_exec ::
  "'h ws_connect \<Rightarrow> 'h ws_complete \<Rightarrow> 'h ws_label \<Rightarrow> 'h ws_state \<Rightarrow> ('h ws_state \<times> 'h ws_action list) option" where
  "endpoint_exec connect complete Do_Connect s =
     (if chain s \<noteq> [] then None
      else
        let (p, acts) = connect True True True (st_peer s)
        in Some (s\<lparr>st_peer := p, st_pending := st_pending s @ begun acts\<rparr>, called acts))"
| "endpoint_exec connect complete (Do_Send m h) s =
     (let acts = ws_Send m h in Some (s\<lparr>st_pending := st_pending s @ begun acts\<rparr>, called acts))"
| "endpoint_exec connect complete (Do_Close h) s =
     (let (p, acts) = ws_Close h (st_peer s)
      in Some (s\<lparr>st_peer := p, st_pending := st_pending s @ begun acts\<rparr>, called acts))"
| "endpoint_exec connect complete (Completes op ec bytes) s =
     (if op \<notin> set (st_pending s) \<or> op = Dispatch \<and> ec \<noteq> No_Error then None
      else
        let (p, acts) = complete op ec bytes (st_peer s)
        in Some (s\<lparr>st_peer := p, st_pending := remove1 op (st_pending s) @ begun acts\<rparr>, called acts))"

lemma endpoint_exec_iff:
  "endpoint_step connect complete s l v u \<longleftrightarrow> endpoint_exec connect complete l s = Some (u, v)"
  by (cases l)
     (auto simp: endpoint_step.simps Let_def split: prod.splits if_splits)

fun exec_run ::
  "'h ws_connect \<Rightarrow> 'h ws_complete \<Rightarrow> 'h ws_label list \<Rightarrow> 'h ws_state \<Rightarrow>
   (('h ws_label \<times> 'h ws_action list) list \<times> 'h ws_state) option" where
  "exec_run connect complete [] s = Some ([], s)"
| "exec_run connect complete (l # ls) s =
     (case endpoint_exec connect complete l s of
        None \<Rightarrow> None
      | Some (t, v) \<Rightarrow> map_option (\<lambda>(es, u). ((l, v) # es, u)) (exec_run connect complete ls t))"

lemma runs_prepend: "runs move t es u \<Longrightarrow> move s l v t \<Longrightarrow> runs move s ((l, v) # es) u"
  by (induction rule: runs.induct) (auto intro: runs.intros)

lemma exec_runs:
  "exec_run connect complete ls s = Some (es, t) \<Longrightarrow> runs (endpoint_step connect complete) s es t"
  by (induction ls arbitrary: s es)
     (auto simp: endpoint_exec_iff intro: runs.intros intro!: runs_prepend split: option.splits prod.splits)

section \<open>The contract\<close>

text \<open>
  A connection is down, being opened or up; the user has closed it or not; and the octets that
  failed reads have left in the buffer precede the next message.
\<close>

datatype ws_phase = Down | Opening | Up

record ws_contract =
  ct_phase :: ws_phase
  ct_closed :: bool
  ct_left :: string

definition reports :: "ws_error \<Rightarrow> 'h ws_action list \<Rightarrow> bool" where
  "reports ec v \<longleftrightarrow> v = [] \<or> (\<exists>h. v = [User_Sent h ec]) \<or> (\<exists>h. v = [User_Closed h ec])"

inductive contract_step :: "ws_contract \<Rightarrow> 'h ws_label \<Rightarrow> 'h ws_action list \<Rightarrow> ws_contract \<Rightarrow> bool" where
  ct_connect:
    "ct_phase c = Down \<Longrightarrow> contract_step c Do_Connect [] (c\<lparr>ct_phase := Opening, ct_closed := False\<rparr>)"
| ct_send: "contract_step c (Do_Send m h) [] c"
| ct_close: "contract_step c (Do_Close h) [] (c\<lparr>ct_closed := True\<rparr>)"
| ct_report: "transfer op \<Longrightarrow>
    reports ec v \<Longrightarrow>
    contract_step c (Completes op ec b) v c"
| ct_progress: "ct_phase c = Opening \<Longrightarrow> op \<noteq> Read \<Longrightarrow>
    contract_step c (Completes op No_Error b) [] c"
| ct_opened: "ct_phase c = Opening \<Longrightarrow> op \<noteq> Read \<Longrightarrow>
    contract_step c (Completes op No_Error b) [User_Connect No_Error] (c\<lparr>ct_phase := Up\<rparr>)"
| ct_refused: "ct_phase c = Opening \<Longrightarrow> op \<noteq> Read \<Longrightarrow> ec \<noteq> No_Error \<Longrightarrow>
    contract_step c (Completes op ec b) [User_Connect ec] (c\<lparr>ct_phase := Down\<rparr>)"
| ct_message: "ct_phase c = Up \<Longrightarrow>
    contract_step c (Completes Read No_Error b) [User_Message (ct_left c @ b)]
      (c\<lparr>ct_left := drop (length b) (ct_left c @ b)\<rparr>)"
| ct_unread: "ct_phase c = Up \<Longrightarrow> ec \<noteq> No_Error \<Longrightarrow>
    contract_step c (Completes Read ec b) [] (c\<lparr>ct_left := ct_left c @ b\<rparr>)"
| ct_dropped: "ct_phase c = Up \<Longrightarrow> ec \<noteq> No_Error \<Longrightarrow>
    contract_step c (Completes Read ec b) (if ct_closed c then [] else [User_Disconnect ec])
      (c\<lparr>ct_phase := Down, ct_left := ct_left c @ b\<rparr>)"

inductive_cases contract_completesE: "contract_step c (Completes op ec b) v d"

definition phase_of :: "'h ws_state \<Rightarrow> ws_phase" where
  "phase_of s = (case chain s of [] \<Rightarrow> Down | op # _ \<Rightarrow> if op = Read then Up else Opening)"

definition contract_of :: "'h ws_state \<Rightarrow> ws_contract" where
  "contract_of s =
     \<lparr>ct_phase = phase_of s, ct_closed = wp_closed (st_peer s), ct_left = wp_rBuffer (st_peer s)\<rparr>"

text \<open>What the contract says of a completion, by the phases before and after it.\<close>

lemma completion_cases:
  assumes "contract_step (contract_of s) (Completes op ec b) v (contract_of s')"
  shows "wp_closed (st_peer s') = wp_closed (st_peer s)"
    and "(\<And>h. phase_of s' = phase_of s \<Longrightarrow> v \<in> {[], [User_Sent h ec], [User_Closed h ec]} \<Longrightarrow> P) \<Longrightarrow>
      (phase_of s = Opening \<Longrightarrow> phase_of s' = Up \<Longrightarrow> v = [User_Connect No_Error] \<Longrightarrow> P) \<Longrightarrow>
      (phase_of s = Opening \<Longrightarrow> phase_of s' = Down \<Longrightarrow> ec \<noteq> No_Error \<Longrightarrow> v = [User_Connect ec] \<Longrightarrow> P) \<Longrightarrow>
      (\<And>m. phase_of s = Up \<Longrightarrow> phase_of s' = Up \<Longrightarrow> v = [User_Message m] \<Longrightarrow> P) \<Longrightarrow>
      (phase_of s = Up \<Longrightarrow> phase_of s' = Down \<Longrightarrow> wp_closed (st_peer s) \<Longrightarrow> v = [] \<Longrightarrow> P) \<Longrightarrow>
      (phase_of s = Up \<Longrightarrow> phase_of s' = Down \<Longrightarrow> \<not> wp_closed (st_peer s) \<Longrightarrow> ec \<noteq> No_Error \<Longrightarrow>
        v = [User_Disconnect ec] \<Longrightarrow> P) \<Longrightarrow> P"
  using assms
  by (elim contract_completesE; force simp: contract_of_def reports_def split: if_splits)+

lemma single_call:
  assumes "contract_step (contract_of s) (Completes op ec b) v (contract_of s')"
  shows "v = [] \<or> (\<exists>a. v = [a])"
  by (rule completion_cases(2) [OF assms]) auto

lemma completion_message:
  "contract_step (contract_of s) (Completes op ec b) [User_Message m] c \<Longrightarrow>
   op = Read \<and> ec = No_Error \<and> m = wp_rBuffer (st_peer s) @ b"
  by (elim contract_completesE) (auto simp: contract_of_def reports_def split: if_splits)

section \<open>Endpoints\<close>

definition listens :: "ws_peer \<Rightarrow> bool" where
  "listens p \<longleftrightarrow> wp_onConnect p \<and> wp_onMessage p \<and> wp_onDisconnect p"

lemma listensD [dest]: "listens p \<Longrightarrow> wp_onConnect p \<and> wp_onMessage p \<and> wp_onDisconnect p"
  by (simp add: listens_def)

text \<open>The chain of an opening is one operation at a time, and ends in the first read.\<close>

definition opening_result :: "('h ws_op \<Rightarrow> bool) \<Rightarrow> ws_error \<Rightarrow> 'h ws_action list \<Rightarrow> bool" where
  "opening_result opener ec acts \<longleftrightarrow>
     (if ec \<noteq> No_Error then begun acts = [] \<and> called acts = [User_Connect ec]
      else (\<exists>op. opener op \<and> begun acts = [op] \<and> called acts = []) \<or>
           begun acts = [Read] \<and> called acts = [User_Connect No_Error])"

definition read_result :: "ws_error \<Rightarrow> string \<Rightarrow> ws_peer \<Rightarrow> 'h ws_action list \<Rightarrow> ws_peer \<Rightarrow> bool" where
  "read_result ec bytes p acts p' \<longleftrightarrow>
     (let buffer = wp_rBuffer p @ bytes
      in if ec = No_Error then
           p' = p\<lparr>wp_rBuffer := drop (length bytes) buffer\<rparr> \<and> begun acts = [Read] \<and>
           called acts = [User_Message buffer]
         else
           p' = p\<lparr>wp_rBuffer := buffer\<rparr> \<and>
           (begun acts = [Read] \<and> called acts = [] \<or>
            begun acts = [] \<and> called acts = (if wp_closed p then [] else [User_Disconnect ec])))"

locale ws_endpoint =
  fixes connect :: "'h ws_connect" and complete :: "'h ws_complete" and opener :: "'h ws_op \<Rightarrow> bool"
  assumes opening_op: "opener op \<Longrightarrow> \<not> transfer op \<and> op \<noteq> Read"
    and connects: "connect True True True p = (p', acts) \<Longrightarrow>
      listens p' \<and> \<not> wp_closed p' \<and> wp_rBuffer p' = wp_rBuffer p \<and>
      called acts = [] \<and> (\<exists>op. opener op \<and> begun acts = [op])"
    and opens: "opener op \<Longrightarrow> listens p \<Longrightarrow> (op = Dispatch \<longrightarrow> ec = No_Error) \<Longrightarrow>
      complete op ec bytes p = (p', acts) \<Longrightarrow>
      p' = p \<and> opening_result opener ec acts"
    and reads: "listens p \<Longrightarrow> complete Read ec bytes p = (p', acts) \<Longrightarrow> read_result ec bytes p acts p'"
    and transfers: "transfer op \<Longrightarrow> complete op ec bytes p = (p', acts) \<Longrightarrow>
      p' = p \<and> begun acts = [] \<and>
      reports ec (called acts)"
begin

definition chain_ok :: "'h ws_state \<Rightarrow> bool" where
  "chain_ok s \<longleftrightarrow>
     chain s = [] \<or> (\<exists>op. chain s = [op] \<and> (op = Read \<or> opener op) \<and> listens (st_peer s))"

lemma chain_member:
  assumes "chain_ok s" and "op \<in> set (st_pending s)" and "\<not> transfer op"
  shows "chain s = [op] \<and> (op = Read \<or> opener op) \<and> listens (st_peer s)"
proof -
  have "op \<in> set (chain s)" using assms by (simp add: chain_def)
  then show ?thesis using assms(1) by (auto simp: chain_ok_def)
qed

text \<open>A read of an open connection brings in one message, and the next read is started.\<close>

lemma open_reads:
  assumes "chain_ok s" and "phase_of s = Up"
  obtains s' where "endpoint_exec connect complete (Completes Read No_Error bytes) s =
      Some (s', [User_Message (wp_rBuffer (st_peer s) @ bytes)])"
    and "Read \<in> set (st_pending s')"
proof -
  have c: "chain s = [Read]" and l: "listens (st_peer s)"
    using assms by (auto simp: chain_ok_def phase_of_def split: list.splits if_splits)
  have "Read \<in> set (chain s)" by (simp add: c)
  then have pending: "Read \<in> set (st_pending s)" by (simp add: chain_def)
  obtain p' acts where r: "complete Read No_Error bytes (st_peer s) = (p', acts)" by fastforce
  from reads [OF l r] have "begun acts = [Read]" "called acts = [User_Message (wp_rBuffer (st_peer s) @ bytes)]"
    by (simp_all add: read_result_def Let_def)
  then show thesis
    using pending
    by (intro that [of "s\<lparr>st_peer := p', st_pending := remove1 Read (st_pending s) @ begun acts\<rparr>"])
      (simp_all add: r)
qed

lemma endpoint_refines:
  assumes ok: "chain_ok s" and st: "endpoint_step connect complete s l v u"
  shows "chain_ok u \<and> contract_step (contract_of s) l v (contract_of u)"
  using st
proof cases
  case (step_connect p acts)
  from connects [OF step_connect(5)] obtain op
    where p: "listens p" "\<not> wp_closed p" "wp_rBuffer p = wp_rBuffer (st_peer s)"
      and a: "called acts = []" "begun acts = [op]" "opener op" by blast
  have "chain u = [op]"
    using step_connect(4) opening_op [OF a(3)] by (simp add: step_connect(3) chain_def a(2))
  then show ?thesis
    using p a opening_op [OF a(3)] step_connect(4) contract_step.ct_connect [of "contract_of s"]
    by (simp add: step_connect(1,2,3) chain_ok_def contract_of_def phase_of_def)
next
  case (step_send m h acts)
  then have "chain u = chain s" by (auto simp: chain_def ws_Send_def)
  then show ?thesis
    using ok step_send contract_step.ct_send
    by (auto simp: chain_ok_def contract_of_def phase_of_def ws_Send_def)
next
  case (step_close h p acts)
  then have c: "chain u = chain s" "st_peer u = st_peer s\<lparr>wp_closed := True\<rparr>" "v = []"
    by (auto simp: chain_def ws_Close_def)
  then show ?thesis
    using ok contract_step.ct_close [of "contract_of s" h] step_close(1)
    by (simp add: chain_ok_def contract_of_def phase_of_def listens_def)
next
  case (step_completes op ec bytes p acts)
  show ?thesis
  proof (cases "transfer op")
    case True
    have p: "p = st_peer s" and a: "begun acts = []"
      and v: "reports ec v"
      using transfers [OF True step_completes(6)] unfolding step_completes(2) by blast+
    have "chain u = chain s"
      by (simp add: step_completes(3) a chain_def True filter_remove1_eq remove1_filter_not)
    then have "contract_of u = contract_of s" "chain_ok u"
      using ok by (simp_all add: contract_of_def phase_of_def chain_ok_def step_completes(3) p)
    then show ?thesis using contract_step.ct_report [OF True v] step_completes(1) by simp
  next
    case False
    have c: "chain s = [op]" "op = Read \<or> opener op" and l: "listens (st_peer s)"
      using chain_member [OF ok step_completes(4) False] by auto
    have cu: "chain u = filter (Not \<circ> transfer) (begun acts)"
      using c(1) by (simp add: chain_def step_completes(3) filter_remove1_eq)
    show ?thesis
    proof (cases "op = Read")
      case True
      have r: "read_result ec bytes (st_peer s) acts p"
        using reads [OF l] step_completes(6) True by simp
      show ?thesis
        using r cu c l step_completes(1,2,3) True contract_step.ct_message [of "contract_of s" bytes]
          contract_step.ct_unread [of "contract_of s" ec bytes]
          contract_step.ct_dropped [of "contract_of s" ec bytes]
        by (auto simp: read_result_def Let_def contract_of_def phase_of_def chain_ok_def listens_def
            split: if_splits)
    next
      case False
      with c have o: "opener op" by blast
      have r: "p = st_peer s" "opening_result opener ec acts"
        using opens [OF o l step_completes(5,6)] by blast+
      show ?thesis
        using r cu c l False step_completes(1,2,3) contract_step.ct_progress [of "contract_of s" op bytes]
          contract_step.ct_opened [of "contract_of s" op bytes]
          contract_step.ct_refused [of "contract_of s" op ec bytes]
        by (auto simp: opening_result_def contract_of_def phase_of_def chain_ok_def
            dest: opening_op split: if_splits)
    qed
  qed
qed

lemma runs_refine:
  assumes "runs (endpoint_step connect complete) s es t" and "st_pending s = []"
  shows "runs contract_step (contract_of s) es (contract_of t)"
  using runs_simulation [OF assms(1), of chain_ok contract_step contract_of] assms(2) endpoint_refines
  by (auto simp: chain_ok_def chain_def)

end

section \<open>The client and the session are endpoints\<close>

fun client_opening :: "'h ws_op \<Rightarrow> bool" where
  "client_opening (Resolve u pt) \<longleftrightarrow> True"
| "client_opening Tcp_Connect \<longleftrightarrow> True"
| "client_opening Tls_Handshake \<longleftrightarrow> True"
| "client_opening Ws_Handshake \<longleftrightarrow> True"
| "client_opening _ \<longleftrightarrow> False"

fun session_opening :: "'h ws_op \<Rightarrow> bool" where
  "session_opening Dispatch \<longleftrightarrow> True"
| "session_opening Tls_Handshake \<longleftrightarrow> True"
| "session_opening Ws_Handshake \<longleftrightarrow> True"
| "session_opening _ \<longleftrightarrow> False"

lemma OnRead_result:
  assumes "listens p"
  shows "OnRead ec (length bytes) (p\<lparr>wp_rBuffer := wp_rBuffer p @ bytes\<rparr>) =
    (if ec = No_Error
     then (p\<lparr>wp_rBuffer := drop (length bytes) (wp_rBuffer p @ bytes)\<rparr>,
           [User_Message (wp_rBuffer p @ bytes)])
     else (p\<lparr>wp_rBuffer := wp_rBuffer p @ bytes\<rparr>, []))"
  using assms by (simp add: OnRead_def call_def listens_def)

lemma transfers_report:
  "reports ec (called (OnWritten h ec))"
  "reports ec (called (OnShut h ec))"
  "begun (OnWritten h ec) = []" "begun (OnShut h ec) = []"
  by (auto simp: reports_def OnWritten_def OnShut_def split: option.splits)

lemmas client_defs = wc_Connect_def wc_OnResolve_def wc_OnConnect_def wc_OnTlsHandshake_def
  wc_OnHandshake_def wc_ListenToIncomingMessage_def call_def

lemmas session_defs = ss_Connect_def ss_OnConnect_def ss_OnTlsHandshake_def
  ss_OnHandshake_def ss_ListenToIncomingMessage_def call_def

interpretation client: ws_endpoint "wc_Connect c" "wc_complete c" client_opening for c
proof unfold_locales
  fix op assume "client_opening op"
  then show "\<not> transfer op \<and> op \<noteq> Read" by (cases op) auto
next
  fix p p' acts assume "wc_Connect c True True True p = (p', acts)"
  then show "listens p' \<and> \<not> wp_closed p' \<and> wp_rBuffer p' = wp_rBuffer p \<and> called acts = [] \<and>
      (\<exists>op. client_opening op \<and> begun acts = [op])"
    by (auto simp: wc_Connect_def listens_def)
next
  fix op p ec bytes p' acts
  assume "client_opening op" "listens p" "wc_complete c op ec bytes p = (p', acts)"
  then show "p' = p \<and> opening_result client_opening ec acts"
    by (cases op) (auto simp: client_defs opening_result_def listens_def split: if_splits)
next
  fix p ec bytes p' acts
  assume "listens p" "wc_complete c Read ec bytes p = (p', acts)"
  then show "read_result ec bytes p acts p'"
    by (auto simp: OnRead_result client_defs read_result_def Let_def listens_def split: if_splits)
next
  fix op ec bytes p p' acts
  assume "transfer op" "wc_complete c op ec bytes p = (p', acts)"
  then show "p' = p \<and> begun acts = [] \<and>
      reports ec (called acts)"
    using transfers_report by (cases op) auto
qed

interpretation session: ws_endpoint ss_Connect ss_complete session_opening
proof unfold_locales
  fix op assume "session_opening op"
  then show "\<not> transfer op \<and> op \<noteq> Read" by (cases op) auto
next
  fix p p' acts assume "ss_Connect True True True p = (p', acts)"
  then show "listens p' \<and> \<not> wp_closed p' \<and> wp_rBuffer p' = wp_rBuffer p \<and> called acts = [] \<and>
      (\<exists>op. session_opening op \<and> begun acts = [op])"
    by (auto simp: ss_Connect_def listens_def)
next
  fix op p ec bytes p' acts
  assume "session_opening op" "listens p" "op = Dispatch \<longrightarrow> ec = No_Error" "ss_complete op ec bytes p = (p', acts)"
  then show "p' = p \<and> opening_result session_opening ec acts"
    by (cases op) (auto simp: session_defs opening_result_def listens_def split: if_splits)
next
  fix p ec bytes p' acts
  assume "listens p" "ss_complete Read ec bytes p = (p', acts)"
  then show "read_result ec bytes p acts p'"
    by (auto simp: session_as_client OnRead_result session_defs read_result_def Let_def listens_def split: if_splits)
next
  fix op ec bytes p p' acts
  assume "transfer op" "ss_complete op ec bytes p = (p', acts)"
  then show "p' = p \<and> begun acts = [] \<and>
      reports ec (called acts)"
    using transfers_report by (cases op) auto
qed

section \<open>What the contract says of a whole run\<close>

fun is_connect_call :: "'h ws_action \<Rightarrow> bool" where
  "is_connect_call (User_Connect ec) \<longleftrightarrow> True"
| "is_connect_call _ \<longleftrightarrow> False"

fun is_disconnect_call :: "'h ws_action \<Rightarrow> bool" where
  "is_disconnect_call (User_Disconnect ec) \<longleftrightarrow> True"
| "is_disconnect_call _ \<longleftrightarrow> False"

fun message_of :: "'h ws_action \<Rightarrow> string option" where
  "message_of (User_Message m) = Some m"
| "message_of _ = None"

fun bytes_read :: "'h ws_label \<Rightarrow> string option" where
  "bytes_read (Completes op ec b) = (if op = Read \<and> ec = No_Error then Some b else None)"
| "bytes_read _ = None"

fun broken_read :: "'h ws_label \<Rightarrow> bool" where
  "broken_read (Completes op ec b) \<longleftrightarrow> op = Read \<and> ec \<noteq> No_Error \<and> b \<noteq> []"
| "broken_read _ \<longleftrightarrow> False"

type_synonym 'h ws_run = "('h ws_label \<times> 'h ws_action list) list"

definition connects_asked :: "'h ws_run \<Rightarrow> nat" where
  "connects_asked es = length (filter (\<lambda>(l, v). l = Do_Connect) es)"

definition calls :: "('h ws_action \<Rightarrow> bool) \<Rightarrow> 'h ws_run \<Rightarrow> nat" where
  "calls P es = length (filter P (concat (map snd es)))"

definition messages :: "'h ws_run \<Rightarrow> string list" where
  "messages es = List.map_filter message_of (concat (map snd es))"

definition reads_ok :: "'h ws_run \<Rightarrow> string list" where
  "reads_ok es = List.map_filter (bytes_read \<circ> fst) es"

lemmas run_counts = connects_asked_def calls_def messages_def reads_ok_def map_filter_simps

lemma run_snoc:
  "connects_asked (es @ [e]) = connects_asked es + connects_asked [e]"
  "calls P (es @ [e]) = calls P es + calls P [e]"
  by (simp_all add: connects_asked_def calls_def)

lemma contract_step_counts:
  assumes "contract_step c l v d"
  shows "connects_asked [(l, v)] + (if ct_phase c = Opening then 1 else 0) =
      calls is_connect_call [(l, v)] + (if ct_phase d = Opening then 1 else 0)"
    and "calls is_disconnect_call [(l, v)] + (if ct_phase d = Up then 1 else 0) \<le>
      calls (\<lambda>a. a = User_Connect No_Error) [(l, v)] + (if ct_phase c = Up then 1 else 0)"
  using assms by (cases rule: contract_step.cases; auto simp: connects_asked_def calls_def reports_def)+

lemma contract_counts:
  assumes "runs contract_step c es d" and "ct_phase c = Down"
  shows "connects_asked es = calls is_connect_call es + (if ct_phase d = Opening then 1 else 0)
    \<and> calls is_disconnect_call es + (if ct_phase d = Up then 1 else 0) \<le>
      calls (\<lambda>a. a = User_Connect No_Error) es"
  using assms
proof (induction rule: runs.induct)
  case (runs_none s)
  then show ?case by (simp add: run_counts)
next
  case (runs_next s es t l v u es')
  then show ?case
    using contract_step_counts [OF runs_next(2)] unfolding runs_next(3) run_snoc by linarith
qed

lemma contract_messages:
  assumes "runs contract_step c es d" and "ct_left c = []" and "\<forall>(l, v) \<in> set es. \<not> broken_read l"
  shows "ct_left d = [] \<and> messages es = reads_ok es"
  using assms
proof (induction rule: runs.induct)
  case (runs_none s)
  then show ?case by (simp add: run_counts)
next
  case (runs_next s es t l v u es')
  then have "ct_left t = []" "messages es = reads_ok es" by auto
  moreover have "List.map_filter message_of v = List.map_filter (bytes_read \<circ> fst) [(l, v)] \<and> ct_left u = []"
    using runs_next(2,5,6) \<open>ct_left t = []\<close> runs_next(3)
    by (cases rule: contract_step.cases) (auto simp: reports_def map_filter_simps)
  ultimately show ?case by (simp add: messages_def reads_ok_def runs_next(3) map_filter_def)
qed

section \<open>Properties\<close>

definition client_start :: "'h ws_state" where
  "client_start = \<lparr>st_peer = new_ws_client, st_pending = []\<rparr>"

definition session_start :: "'h ws_state" where
  "session_start = \<lparr>st_peer = new_session, st_pending = []\<rparr>"

text \<open>C22: Whatever the resolver, the socket, TLS and the WebSocket stream report and in whatever
  order, and whatever the user does, the WebSocket client keeps to the contract: after a call of
  Connect, exactly one of the operations that open the connection is under way until onConnect is
  called once, with success or with the error; only after a success is there a read, always one at
  a time, and every message that is read reaches onMessage; a failed read calls nothing, except for
  one call of onDisconnect when the listening ends, and none if the user has closed the connection.\<close>
theorem ws_client_protocol:
  assumes "runs (endpoint_step (wc_Connect c) (wc_complete c)) client_start es s"
  shows "runs contract_step \<lparr>ct_phase = Down, ct_closed = True, ct_left = []\<rparr> es (contract_of s)"
  using client.runs_refine [OF assms]
  by (simp add: client_start_def contract_of_def phase_of_def chain_def new_ws_client_def)

text \<open>C23: In every run of a session of the server, onConnect is called exactly once for each Connect
  that is not under way any more; onDisconnect is called at most once for each connection that was
  opened, and not while it is up; and as long as no failed read leaves octets behind, the user gets
  exactly the messages that were read, in their order.\<close>
theorem ws_session_calls:
  assumes "runs (endpoint_step ss_Connect ss_complete) session_start es s"
  shows "connects_asked es = calls is_connect_call es + (if phase_of s = Opening then 1 else 0)
    \<and> calls is_disconnect_call es + (if phase_of s = Up then 1 else 0) \<le>
      calls (\<lambda>a. a = User_Connect No_Error) es
    \<and> ((\<forall>(l, v) \<in> set es. \<not> broken_read l) \<longrightarrow> messages es = reads_ok es)"
proof -
  let ?c = "\<lparr>ct_phase = Down, ct_closed = False, ct_left = []\<rparr>"
  have run: "runs contract_step ?c es (contract_of s)"
    using session.runs_refine [OF assms]
    by (simp add: session_start_def contract_of_def phase_of_def chain_def new_session_def)
  show ?thesis
    using contract_counts [OF run] contract_messages [OF run] by (simp add: contract_of_def)
qed

section \<open>Witnesses\<close>

text \<open>A client that connects, sends and receives a message, and is cut off by the server.\<close>

definition example_client :: ws_client where
  "example_client = \<lparr>wc_url = ''ltnm'', wc_endpoint = ''/network-events'', wc_port = ''443''\<rparr>"

definition client_labels :: "string ws_label list" where
  "client_labels =
     [Do_Connect, Completes (Resolve ''ltnm'' ''443'') No_Error [], Completes Tcp_Connect No_Error [],
      Completes Tls_Handshake No_Error [], Completes Ws_Handshake No_Error [],
      Do_Send ''hi'' (Some ''h''), Completes Read No_Error ''there'',
      Completes (Write ''hi'' (Some ''h'')) No_Error [], Completes Read (Other_Error 1) ''xy'',
      Completes Read Operation_Aborted []]"

definition client_events :: "string ws_run" where
  "client_events = zip client_labels
     [[], [], [], [], [User_Connect No_Error], [], [User_Message ''there''],
      [User_Sent ''h'' No_Error], [], [User_Disconnect Operation_Aborted]]"

definition client_finish :: "string ws_state" where
  "client_finish =
     \<lparr>st_peer = \<lparr>wp_onConnect = True, wp_onMessage = True, wp_onDisconnect = True, wp_closed = False,
                wp_rBuffer = ''xy''\<rparr>, st_pending = []\<rparr>"

lemma client_run:
  "exec_run (wc_Connect example_client) (wc_complete example_client) client_labels client_start =
   Some (client_events, client_finish)"
  by code_simp

theorem ws_client_protocol_witness:
  "runs contract_step \<lparr>ct_phase = Down, ct_closed = True, ct_left = []\<rparr> client_events
     (contract_of client_finish)"
  by (rule ws_client_protocol [OF exec_runs [OF client_run]])

text \<open>A session that is opened, receives two messages, and is closed by the client.\<close>

definition session_labels :: "string ws_label list" where
  "session_labels =
     [Do_Connect, Completes Dispatch No_Error [], Completes Tls_Handshake No_Error [],
      Completes Ws_Handshake No_Error [], Completes Read No_Error ''a'', Completes Read No_Error ''b'',
      Completes Read Websocket_Closed []]"

definition session_events :: "string ws_run" where
  "session_events = zip session_labels
     [[], [], [], [User_Connect No_Error], [User_Message ''a''], [User_Message ''b''],
      [User_Disconnect Websocket_Closed]]"

definition session_finish :: "string ws_state" where
  "session_finish =
     \<lparr>st_peer = \<lparr>wp_onConnect = True, wp_onMessage = True, wp_onDisconnect = True, wp_closed = False,
                wp_rBuffer = []\<rparr>, st_pending = []\<rparr>"

lemma session_run:
  "exec_run ss_Connect ss_complete session_labels session_start = Some (session_events, session_finish)"
  by code_simp

theorem ws_session_calls_witness:
  "connects_asked session_events = 1 \<and> calls is_connect_call session_events = 1 \<and>
   calls is_disconnect_call session_events \<le> 1 \<and> messages session_events = [''a'', ''b'']"
proof -
  have "\<forall>(l, v) \<in> set session_events. \<not> broken_read l" by code_simp
  moreover have "connects_asked session_events = 1" "reads_ok session_events = [''a'', ''b'']"
    "phase_of session_finish = Down" "calls (\<lambda>a. a = User_Connect No_Error) session_events = 1"
    by code_simp+
  ultimately show ?thesis using ws_session_calls [OF exec_runs [OF session_run]] by simp
qed

end
