(* ===== verification/Client_Sockets.thy ===== *)
theory Client_Sockets
  imports Stomp_Client_Laws Web_Socket_Laws
begin

text \<open>
  The STOMP client on the WebSocket client: the handlers that the WebSocket client calls are the
  STOMP client's, and what the STOMP client asks of it is done. The socket libraries complete what
  was started, in any order and with any error. So the completions that the STOMP client relies on
  are those of its own sends, and its login frame goes out before anything of the server comes in.
\<close>

section \<open>The stack\<close>

text \<open>The completion handlers that the STOMP client gives to the WebSocket client.\<close>

datatype client_handler = Of_Send on_sent | Of_Close bool

text \<open>\<open>ck_calls\<close> is a history variable: what the user has called.\<close>

record client_stack =
  ck_wc :: ws_client
  ck_socket :: "client_handler ws_state"
  ck_client :: stomp_client
  ck_trace :: "client_action list"
  ck_calls :: "client_event list"
  ck_failed :: bool

fun socket_event :: "client_handler ws_action \<Rightarrow> client_event option" where
  "socket_event (User_Connect ec) = Some (Cl_WsConnected (ec \<noteq> No_Error))"
| "socket_event (User_Message msg) = Some (Cl_WsMessage False msg)"
| "socket_event (User_Disconnect ec) = Some (Cl_WsDisconnected (ec \<noteq> No_Error))"
| "socket_event (User_Sent (Of_Send h) ec) = Some (Cl_Sent (ec \<noteq> No_Error) h)"
| "socket_event (User_Closed (Of_Close onClose) ec) = Some (Cl_WsClosed (ec \<noteq> No_Error) onClose)"
| "socket_event _ = None"

fun_cases socket_eventE: "socket_event a = Some e"

fun handler_of :: "on_sent \<Rightarrow> client_handler option" where
  "handler_of Sent_Nothing = None"
| "handler_of h = Some (Of_Send h)"

text \<open>What the STOMP client asks of the WebSocket client.\<close>

definition socket_do ::
  "ws_client \<Rightarrow> client_handler ws_label \<Rightarrow> client_handler ws_state \<Rightarrow> client_handler ws_state" where
  "socket_do c l s =
     (case endpoint_exec (wc_Connect c) (wc_complete c) l s of None \<Rightarrow> s | Some (s', _) \<Rightarrow> s')"

fun ask_socket ::
  "ws_client \<Rightarrow> client_action \<Rightarrow> client_handler ws_state \<Rightarrow> client_handler ws_state" where
  "ask_socket c Wc_Connect s = socket_do c Do_Connect s"
| "ask_socket c (Wc_Send msg h) s = socket_do c (Do_Send msg (handler_of h)) s"
| "ask_socket c (Wc_Close onClose) s = socket_do c (Do_Close (Some (Of_Close onClose))) s"
| "ask_socket c _ s = s"

definition ck_run :: "header_order \<Rightarrow> client_event \<Rightarrow> client_stack \<Rightarrow> client_stack" where
  "ck_run ord e k =
     (let (cl', acts) = client_effect ord e (ck_client k)
      in k\<lparr>ck_client := cl', ck_trace := ck_trace k @ acts,
           ck_socket := fold (ask_socket (ck_wc k)) acts (ck_socket k),
           ck_failed := \<not> returned (client_result ord e (ck_client k))\<rparr>)"

fun ck_runs :: "header_order \<Rightarrow> client_event list \<Rightarrow> client_stack \<Rightarrow> client_stack" where
  "ck_runs ord [] k = k"
| "ck_runs ord (e # es) k = (let k' = ck_run ord e k in if ck_failed k' then k' else ck_runs ord es k')"

datatype client_stack_event =
    Io "client_handler ws_op" ws_error string
  | User client_event

text \<open>
  One turn: an operation of the WebSocket client completes, or the user calls the STOMP client. An
  exception that leaves a handler ends the run.
\<close>

fun ck_step :: "header_order \<Rightarrow> client_stack_event \<Rightarrow> client_stack \<Rightarrow> client_stack" where
  "ck_step ord (Io op ec bytes) k =
     (if ck_failed k then k
      else
        (case endpoint_exec (wc_Connect (ck_wc k)) (wc_complete (ck_wc k)) (Completes op ec bytes)
                (ck_socket k) of
           None \<Rightarrow> k
         | Some (s', v) \<Rightarrow> ck_runs ord (List.map_filter socket_event v) (k\<lparr>ck_socket := s'\<rparr>)))"
| "ck_step ord (User e) k =
     (if ck_failed k then k else ck_run ord e (k\<lparr>ck_calls := ck_calls k @ [e]\<rparr>))"

text \<open>
  What is relied on: the user connects only while no connection is open or being opened, and what
  becomes the value of a header can be one.
\<close>

fun ck_allowed :: "client_stack_event \<Rightarrow> client_stack \<Rightarrow> bool" where
  "ck_allowed (Io op ec bytes) k \<longleftrightarrow> True"
| "ck_allowed (User (Cl_Connect u p c m d)) k \<longleftrightarrow> chain (ck_socket k) = [] \<and> id_ok u \<and> id_ok p"
| "ck_allowed (User (Cl_Close h)) k \<longleftrightarrow> True"
| "ck_allowed (User (Cl_Subscribe i dest s m)) k \<longleftrightarrow> id_ok i \<and> newLine \<notin> set dest"
| "ck_allowed (User (Cl_Send i dest content h)) k \<longleftrightarrow> id_ok i \<and> id_ok dest \<and> fits_size (length content)"
| "ck_allowed (User _) k \<longleftrightarrow> False"

definition ck_start :: "string \<Rightarrow> string \<Rightarrow> string \<Rightarrow> client_stack" where
  "ck_start url endpoint port =
     \<lparr>ck_wc = \<lparr>wc_url = url, wc_endpoint = endpoint, wc_port = port\<rparr>, ck_socket = client_start,
      ck_client = new_client url, ck_trace = [], ck_calls = [], ck_failed = False\<rparr>"

section \<open>What the requests do to the socket\<close>

lemma ask_socket_quiet:
  assumes "a \<noteq> Wc_Connect"
  shows "chain (ask_socket c a s) = chain s \<and> phase_of (ask_socket c a s) = phase_of s \<and>
    (client.chain_ok s \<longrightarrow> client.chain_ok (ask_socket c a s))"
  using assms
  by (cases a)
    (auto simp: socket_do_def ws_Send_def ws_Close_def phase_of_def chain_def client.chain_ok_def listens_def)

lemma ask_sockets_quiet:
  "Wc_Connect \<notin> set acts \<Longrightarrow>
   phase_of (fold (ask_socket c) acts s) = phase_of s \<and>
   (client.chain_ok s \<longrightarrow> client.chain_ok (fold (ask_socket c) acts s))"
  by (induction acts arbitrary: s) (use ask_socket_quiet in auto)

lemma ask_socket_connect:
  "chain s = [] \<Longrightarrow> phase_of (ask_socket c Wc_Connect s) = Opening \<and> client.chain_ok (ask_socket c Wc_Connect s)"
  by (simp add: socket_do_def wc_Connect_def phase_of_def chain_def client.chain_ok_def listens_def)

lemma ask_sockets_writes:
  "Write m h \<in> set (st_pending (fold (ask_socket c) acts s)) \<Longrightarrow>
   Write m h \<in> set (st_pending s) \<or> (\<exists>h'. Wc_Send m h' \<in> set acts \<and> h = handler_of h')"
proof (induction acts arbitrary: s)
  case (Cons a acts)
  have "Write m h \<in> set (st_pending s) \<or> (\<exists>h'. a = Wc_Send m h' \<and> h = handler_of h')"
    if "Write m h \<in> set (st_pending (ask_socket c a s))"
    using that by (cases a)
      (auto simp: socket_do_def wc_Connect_def ws_Send_def ws_Close_def split: if_splits)
  then show ?case using Cons by fastforce
qed simp

text \<open>An operation that completes starts no write, and calls the handler that it was given.\<close>

lemma wc_complete_acts:
  assumes "wc_complete c op ec b p = (p', acts)"
  shows "Write m h \<notin> set (begun acts)"
    and "User_Sent h' ec' \<in> set (called acts) \<Longrightarrow> \<exists>m. op = Write m (Some h')"
  using assms
  by (cases op; auto simp: client_defs OnRead_def OnWritten_def OnShut_def Let_def
      split: if_splits option.splits)+

section \<open>What the client sends and tells\<close>

text \<open>What the user is told because a frame came in.\<close>

fun from_server :: "client_action \<Rightarrow> bool" where
  "from_server (On_Connect e) \<longleftrightarrow> e = StompClientError.kOk \<or> e = kCouldNotParseMessageAsStompFrame"
| "from_server (On_Message e d m) \<longleftrightarrow> True"
| "from_server (On_Subscribed i e j) \<longleftrightarrow> e = StompClientError.kOk"
| "from_server (On_Subscription_Message i e m) \<longleftrightarrow> True"
| "from_server _ \<longleftrightarrow> False"

definition logged_in :: "string \<Rightarrow> client_action list \<Rightarrow> bool" where
  "logged_in url tr \<longleftrightarrow>
     (\<exists>msg f. Wc_Send msg Sent_Stomp \<in> set tr \<and> StompFrame_parse msg = (Returns StompError.kOk, f) \<and>
        GetCommand f = StompCommand.kStomp \<and> GetHeaderValue f kHost = url)"

lemma logged_in_append [simp]: "logged_in url tr \<Longrightarrow> logged_in url (tr @ acts)"
  by (auto simp: logged_in_def)

text \<open>The text of a message that the user has sent, or of another frame.\<close>

definition authored :: "client_event list \<Rightarrow> string \<Rightarrow> bool" where
  "authored asked msg \<longleftrightarrow>
     (\<exists>f. StompFrame_parse msg = (Returns StompError.kOk, f) \<and>
        (GetCommand f = StompCommand.kSend \<longrightarrow>
           (\<exists>h. Cl_Send (GetHeaderValue f kId) (GetHeaderValue f kDestination) (GetBody f) h \<in> set asked)))"

lemma authored_append [simp]: "authored asked msg \<Longrightarrow> authored (asked @ asked') msg"
  by (auto simp: authored_def)

fun event_ok :: "client_event \<Rightarrow> stomp_client \<Rightarrow> bool" where
  "event_ok (Cl_Connect u p c m d) cl \<longleftrightarrow> id_ok u \<and> id_ok p"
| "event_ok (Cl_Subscribe i dest s m) cl \<longleftrightarrow> id_ok i \<and> newLine \<notin> set dest"
| "event_ok (Cl_Send i dest content h) cl \<longleftrightarrow> id_ok i \<and> id_ok dest \<and> length content < 2 ^ 64"
| "event_ok (Cl_WsConnected failed) cl \<longleftrightarrow>
     id_ok (cl_url cl) \<and> id_ok (cl_username cl) \<and> id_ok (cl_password cl)"
| "event_ok _ cl \<longleftrightarrow> True"

fun is_connect :: "client_event \<Rightarrow> bool" where
  "is_connect (Cl_Connect u p c m d) \<longleftrightarrow> True"
| "is_connect _ \<longleftrightarrow> False"

fun is_message :: "client_event \<Rightarrow> bool" where
  "is_message (Cl_WsMessage failed msg) \<longleftrightarrow> True"
| "is_message _ \<longleftrightarrow> False"

lemmas client_op_defs = client_Connect_def client_Close_def client_Subscribe_def client_Send_def
  client_OnWsConnect_def client_OnWsDisconnect_def OnWsSendStomp_def OnWsSendSubscribe_def
  client_OnSend_def OnWsClose_def notify_def

lemmas client_message_defs = client_OnWsMessage_def notify_def HandleConnected_def HandleError_def
  HandleSubscriptionMessage_def HandleSubscriptionReceipt_def HandleMessage_def Let_def

lemma effect_from_server:
  assumes "a \<in> set (snd (client_effect ord e cl))" and "from_server a"
  shows "is_message e"
proof (cases e)
  case (Cl_Sent failed h)
  then show ?thesis using assms by (cases h) (auto simp: client_op_defs split: if_splits)
qed (use assms in \<open>auto simp: client_op_defs Let_def split: prod.splits outcome.splits if_splits\<close>)

lemma effect_message:
  assumes "On_Message err dest content \<in> set (snd (client_effect ord e cl))"
  shows "\<exists>failed msg g. e = Cl_WsMessage failed msg \<and> StompFrame_parse msg = (Returns StompError.kOk, g) \<and>
    GetCommand g = StompCommand.kSend \<and> GetHeaderValue g kDestination = dest \<and> GetBody g = content"
proof -
  obtain failed msg where e: "e = Cl_WsMessage failed msg"
    using effect_from_server [OF assms] by (cases e) auto
  show ?thesis
    using assms unfolding e
    by (auto simp: client_message_defs
        split: prod.splits outcome.splits StompCommand.splits option.splits if_splits)
qed

lemma effect_no_connect: "\<not> is_connect e \<Longrightarrow> Wc_Connect \<notin> set (snd (client_effect ord e cl))"
proof (cases e)
  case (Cl_Sent failed h)
  then show ?thesis by (cases h) (auto simp: client_op_defs)
next
  case (Cl_WsMessage failed msg)
  then show ?thesis
    by (auto simp: client_message_defs
        split: prod.splits outcome.splits StompCommand.splits option.splits if_splits)
qed (auto simp: client_op_defs Let_def split: prod.splits outcome.splits if_splits)

lemma effect_account:
  "cl_url (fst (client_effect ord e cl)) = cl_url cl \<and>
   (\<not> is_connect e \<longrightarrow> cl_username (fst (client_effect ord e cl)) = cl_username cl \<and>
     cl_password (fst (client_effect ord e cl)) = cl_password cl)"
proof (cases e)
  case (Cl_Sent failed h)
  then show ?thesis by (cases h) (auto simp: client_op_defs)
qed (auto simp: client_op_defs)

context header_layout
begin

lemma effect_sends:
  assumes "Wc_Send msg h \<in> set (snd (client_effect ord e cl))" and "event_ok e cl"
  shows "\<exists>f. StompFrame_parse msg = (Returns StompError.kOk, f) \<and>
    (GetCommand f = StompCommand.kSend \<longrightarrow> (\<exists>h'. e =
       Cl_Send (GetHeaderValue f kId) (GetHeaderValue f kDestination) (GetBody f) h'))"
proof (cases e)
  case (Cl_Subscribe i dest s m)
  then show ?thesis
    using client_Subscribe_acts [OF header_layout_axioms, of i dest s m] assms
    by (fastforce simp: requested_def subscribe_frame_def)
next
  case (Cl_Send i dest content oh)
  then show ?thesis
    using client_Send_frame [of i dest content oh] assms by auto
next
  case (Cl_WsConnected failed)
  then show ?thesis
    using client_login_frame [of cl] assms
    by (cases failed) (auto simp: login_frame_def client_OnWsConnect_def notify_def split: if_splits)
next
  case (Cl_Sent failed oh)
  then show ?thesis using assms by (cases oh) (auto simp: client_op_defs split: if_splits)
next
  case (Cl_WsMessage failed m)
  then show ?thesis
    using assms
    by (auto simp: client_message_defs
        split: prod.splits outcome.splits StompCommand.splits option.splits if_splits)
qed (use assms in \<open>auto simp: client_op_defs split: if_splits\<close>)

end

section \<open>Every turn\<close>

definition writes_ok :: "client_handler ws_state \<Rightarrow> client_action list \<Rightarrow> bool" where
  "writes_ok s tr \<longleftrightarrow>
     (\<forall>m h. Write m h \<in> set (st_pending s) \<longrightarrow> (\<exists>h'. Wc_Send m h' \<in> set tr \<and> h = handler_of h'))"

lemma client_moves:
  assumes ch: "client.chain_ok s" and wr: "writes_ok s tr"
    and st: "endpoint_step (wc_Connect c) (wc_complete c) s (Completes op ec b) v s'"
  shows "client.chain_ok s'" and "contract_step (contract_of s) (Completes op ec b) v (contract_of s')"
    and "writes_ok s' tr" and "User_Sent (Of_Send h) ec' \<in> set v \<Longrightarrow> list_ex (sent_with h) tr"
proof -
  show "client.chain_ok s'" and "contract_step (contract_of s) (Completes op ec b) v (contract_of s')"
    using client.endpoint_refines [OF ch st] by simp_all
  have "op \<in> set (st_pending s) \<and> (\<exists>p acts. wc_complete c op ec b (st_peer s) = (p, acts) \<and> v = called acts \<and>
      s' = s\<lparr>st_peer := p, st_pending := remove1 op (st_pending s) @ begun acts\<rparr>)"
    using st by (cases rule: endpoint_step.cases) auto
  then obtain p acts where op: "op \<in> set (st_pending s)"
    and acts: "wc_complete c op ec b (st_peer s) = (p, acts)" "v = called acts"
    and s': "st_pending s' = remove1 op (st_pending s) @ begun acts" by auto
  show "writes_ok s' tr"
    using wr wc_complete_acts(1) [OF acts(1)] set_remove1_subset [of op "st_pending s"]
    by (fastforce simp: writes_ok_def s')
  assume v: "User_Sent (Of_Send h) ec' \<in> set v"
  obtain m where "op = Write m (Some (Of_Send h))" using wc_complete_acts(2) [OF acts(1)] v acts(2) by blast
  then obtain h' where "Wc_Send m h' \<in> set tr" "handler_of h' = Some (Of_Send h)"
    using op wr unfolding writes_ok_def by metis
  moreover from this(2) have "h' = h" by (cases h') auto
  ultimately show "list_ex (sent_with h) tr" by (auto simp: list_ex_iff sent_with_iff)
qed

definition ck_inv :: "string \<Rightarrow> client_stack \<Rightarrow> bool" where
  "ck_inv url k \<longleftrightarrow>
     client_inv (ck_client k, ck_trace k) \<and> client.chain_ok (ck_socket k) \<and>
     writes_ok (ck_socket k) (ck_trace k) \<and>
     each_after (\<lambda>a tr. from_server a \<longrightarrow> logged_in url tr) (ck_trace k) \<and>
     (\<forall>m h. Wc_Send m h \<in> set (ck_trace k) \<longrightarrow> authored (ck_calls k) m) \<and>
     cl_url (ck_client k) = url \<and> id_ok url \<and>
     (phase_of (ck_socket k) \<noteq> Down \<longrightarrow> id_ok (cl_username (ck_client k)) \<and> id_ok (cl_password (ck_client k)))"

text \<open>While the connection is up, the login frame has been sent.\<close>

definition ck_up :: "string \<Rightarrow> client_stack \<Rightarrow> bool" where
  "ck_up url k \<longleftrightarrow> (phase_of (ck_socket k) = Up \<longrightarrow> logged_in url (ck_trace k))"

lemma ck_run_fields:
  assumes "client_effect ord e (ck_client k) = (cl', acts)"
  shows "ck_client (ck_run ord e k) = cl'" "ck_trace (ck_run ord e k) = ck_trace k @ acts"
    "ck_socket (ck_run ord e k) = fold (ask_socket (ck_wc k)) acts (ck_socket k)"
    "ck_calls (ck_run ord e k) = ck_calls k" "ck_wc (ck_run ord e k) = ck_wc k"
  by (simp_all add: ck_run_def assms)

lemma ck_run_phase:
  assumes "is_connect e \<Longrightarrow> chain (ck_socket k) = []" and "client.chain_ok (ck_socket k)"
  shows "phase_of (ck_socket (ck_run ord e k)) = (if is_connect e then Opening else phase_of (ck_socket k)) \<and>
    client.chain_ok (ck_socket (ck_run ord e k))"
proof (cases "is_connect e")
  case True
  then obtain u p c m d where e: "e = Cl_Connect u p c m d" by (cases e) auto
  show ?thesis
    using ask_socket_connect [OF assms(1) [OF True]] by (simp add: ck_run_def e client_Connect_def)
next
  case False
  from ask_sockets_quiet [OF effect_no_connect [OF False]] show ?thesis
    using assms(2) False by (simp add: ck_run_def split_beta)
qed

context header_layout
begin

lemma ck_run_inv:
  assumes inv: "ck_inv url k" and al: "client_allowed e (ck_client k, ck_trace k)" and ok: "event_ok e (ck_client k)"
    and send: "\<And>i dest content h. e = Cl_Send i dest content h \<Longrightarrow> e \<in> set (ck_calls k)"
    and msg: "is_message e \<Longrightarrow> logged_in url (ck_trace k)"
    and conn: "is_connect e \<Longrightarrow> chain (ck_socket k) = []"
  shows "ck_inv url (ck_run ord e k)"
proof -
  obtain cl' acts where eff: "client_effect ord e (ck_client k) = (cl', acts)" by fastforce
  note f = ck_run_fields [OF eff]
  have ph: "phase_of (ck_socket (ck_run ord e k)) = (if is_connect e then Opening else phase_of (ck_socket k))"
    and ch: "client.chain_ok (ck_socket (ck_run ord e k))"
    using ck_run_phase [OF conn] inv by (simp_all add: ck_inv_def)
  have ci: "client_inv (cl', ck_trace k @ acts)"
    using client_step_inv [OF header_layout_axioms _ al] inv eff by (simp add: ck_inv_def client_step_def)
  have tell: "each_after (\<lambda>a tr. from_server a \<longrightarrow> logged_in url tr) (ck_trace k @ acts)"
    using inv msg effect_from_server [of _ ord e "ck_client k"] eff
    by (intro each_after_append) (auto simp: ck_inv_def)
  have "authored (ck_calls k) m" if "Wc_Send m h \<in> set acts" for m h
    using effect_sends [of m h e "ck_client k"] that eff ok send by (fastforce simp: authored_def)
  then have au: "authored (ck_calls k) m" if "Wc_Send m h \<in> set (ck_trace k @ acts)" for m h
    using that inv by (auto simp: ck_inv_def)
  have wr: "writes_ok (fold (ask_socket (ck_wc k)) acts (ck_socket k)) (ck_trace k @ acts)"
    using inv ask_sockets_writes [of _ _ "ck_wc k" acts "ck_socket k"] by (fastforce simp: ck_inv_def writes_ok_def)
  have "id_ok (cl_username cl') \<and> id_ok (cl_password cl')" if "phase_of (ck_socket (ck_run ord e k)) \<noteq> Down"
  proof (cases "is_connect e")
    case True
    then show ?thesis using ok eff by (cases e) (auto simp: client_Connect_def)
  next
    case False
    then show ?thesis using that ph inv effect_account [of ord e "ck_client k"] eff by (simp add: ck_inv_def)
  qed
  then show ?thesis
    using ci ch tell au wr inv effect_account [of ord e "ck_client k"] eff
    by (simp add: ck_inv_def f)
qed

text \<open>A connection that is opened sends the login frame.\<close>

lemma connected_logs_in:
  assumes "ck_inv url k" and "phase_of (ck_socket k) \<noteq> Down"
  shows "logged_in url (ck_trace (ck_run ord (Cl_WsConnected False) k))"
proof -
  obtain f where "client_OnWsConnect ord False (ck_client k) = (Returns (), [Wc_Send (frame_ToString f) Sent_Stomp])"
    "StompFrame_parse (frame_ToString f) = (Returns StompError.kOk, f)" "login_frame (ck_client k) f"
    using client_login_frame [of "ck_client k"] assms by (auto simp: ck_inv_def)
  then show ?thesis
    using assms(1) by (auto simp: ck_run_def ck_inv_def logged_in_def login_frame_def)
qed

lemma handler_event:
  assumes inv: "ck_inv url k" and up: "phase_of (ck_socket k) = Up \<Longrightarrow> logged_in url (ck_trace k) \<or> e = Cl_WsConnected False"
    and al: "client_allowed e (ck_client k, ck_trace k)" and ok: "event_ok e (ck_client k)"
    and msg: "is_message e \<Longrightarrow> logged_in url (ck_trace k)" and user: "\<not> is_connect e" "\<And>i d c h. e \<noteq> Cl_Send i d c h"
  shows "ck_inv url (ck_run ord e k) \<and> ck_up url (ck_run ord e k)"
proof -
  have "ck_inv url (ck_run ord e k)" using user by (intro ck_run_inv [OF inv al ok _ msg]) auto
  moreover have "phase_of (ck_socket (ck_run ord e k)) = phase_of (ck_socket k)"
    using ck_run_phase [of e k] user(1) inv by (simp add: ck_inv_def)
  moreover have "logged_in url (ck_trace (ck_run ord e k))" if "phase_of (ck_socket k) = Up"
    using up [OF that] connected_logs_in [OF inv] that by (auto simp: ck_run_def split_beta)
  ultimately show ?thesis by (simp add: ck_up_def)
qed

lemma socket_moves:
  assumes inv: "ck_inv url k"
    and st: "endpoint_step (wc_Connect c) (wc_complete c) (ck_socket k) (Completes op ec b) v s'"
  shows "ck_inv url (k\<lparr>ck_socket := s'\<rparr>)"
    and "contract_step (contract_of (ck_socket k)) (Completes op ec b) v (contract_of s')"
    and "User_Sent (Of_Send h) ec' \<in> set v \<Longrightarrow> list_ex (sent_with h) (ck_trace k)"
proof -
  have ch: "client.chain_ok (ck_socket k)" and wr: "writes_ok (ck_socket k) (ck_trace k)"
    using inv by (simp_all add: ck_inv_def)
  note m = client_moves [OF ch wr st]
  have "phase_of s' \<noteq> Down \<Longrightarrow> phase_of (ck_socket k) \<noteq> Down"
    by (rule completion_cases(2) [OF m(2)]) auto
  then show "ck_inv url (k\<lparr>ck_socket := s'\<rparr>)" using inv m(1,3) by (simp add: ck_inv_def)
qed (use inv client_moves [OF _ _ st] in \<open>auto simp: ck_inv_def\<close>)

lemma io_step_inv:
  assumes inv: "ck_inv url k" and up: "ck_up url k"
    and st: "endpoint_step (wc_Connect c) (wc_complete c) (ck_socket k) (Completes op ec b) v s'"
    and k': "k' = ck_runs ord (List.map_filter socket_event v) (k\<lparr>ck_socket := s'\<rparr>)"
  shows "ck_inv url k' \<and> ck_up url k'"
proof -
  let ?k = "k\<lparr>ck_socket := s'\<rparr>"
  note inv1 = socket_moves(1) [OF inv st] and ct = socket_moves(2) [OF inv st]
  have one: "k' = ck_run ord e ?k" if "List.map_filter socket_event v = [e]" for e
    using k' by (simp add: that Let_def)
  have none: "k' = ?k" if "List.map_filter socket_event v = []" using k' by (simp add: that)
  have sent: "list_ex (sent_with h) (ck_trace ?k)" if "v = [User_Sent (Of_Send h) ec]" for h
    using socket_moves(3) [OF inv st, of h ec] that by simp
  note handler = handler_event [OF inv1]
  have accounts: "phase_of (ck_socket k) \<noteq> Down \<Longrightarrow> event_ok (Cl_WsConnected x) (ck_client ?k)" for x
    using inv by (auto simp: ck_inv_def)
  show ?thesis
  proof (rule completion_cases(2) [OF ct])
    fix h assume p: "phase_of s' = phase_of (ck_socket k)" and v: "v \<in> {[], [User_Sent h ec], [User_Closed h ec]}"
    have up1: "phase_of s' = Up \<Longrightarrow> logged_in url (ck_trace k)" using up p by (simp add: ck_up_def)
    consider e where "List.map_filter socket_event v = [e]" "\<not> is_message e" "\<not> is_connect e"
        "event_ok e (ck_client ?k)" "client_allowed e (ck_client ?k, ck_trace ?k)" "\<And>i d c h. e \<noteq> Cl_Send i d c h"
      | "List.map_filter socket_event v = []"
      using v sent by (cases h) (auto simp: map_filter_simps)
    then show ?thesis
    proof cases
      case (1 e)
      then show ?thesis unfolding one [OF 1(1)] using up1 by (intro handler) auto
    next
      case 2
      then show ?thesis using none inv1 up1 by (simp add: ck_up_def)
    qed
  next
    assume a: "phase_of (ck_socket k) = Opening" "v = [User_Connect No_Error]"
    then have e: "List.map_filter socket_event v = [Cl_WsConnected False]" by (simp add: map_filter_simps)
    show ?thesis unfolding one [OF e] by (rule handler) (use a accounts in auto)
  next
    assume a: "phase_of (ck_socket k) = Opening" "phase_of s' = Down" "ec \<noteq> No_Error" "v = [User_Connect ec]"
    then have e: "List.map_filter socket_event v = [Cl_WsConnected True]" by (simp add: map_filter_simps)
    show ?thesis unfolding one [OF e] by (rule handler) (use a accounts in auto)
  next
    fix m assume a: "phase_of (ck_socket k) = Up" "v = [User_Message m]"
    then have e: "List.map_filter socket_event v = [Cl_WsMessage False m]" by (simp add: map_filter_simps)
    show ?thesis unfolding one [OF e] by (rule handler) (use a up in \<open>auto simp: ck_up_def\<close>)
  next
    assume "phase_of s' = Down" "v = []"
    then show ?thesis using none inv1 by (simp add: map_filter_simps ck_up_def)
  next
    assume a: "phase_of s' = Down" "ec \<noteq> No_Error" "v = [User_Disconnect ec]"
    then have e: "List.map_filter socket_event v = [Cl_WsDisconnected True]" by (simp add: map_filter_simps)
    show ?thesis unfolding one [OF e] by (rule handler) (use a in auto)
  qed
qed

lemma user_step_inv:
  assumes inv: "ck_inv url k" and up: "ck_up url k" and al: "ck_allowed (User e) k"
    and k': "k' = ck_run ord e (k\<lparr>ck_calls := ck_calls k @ [e]\<rparr>)"
  shows "ck_inv url k' \<and> ck_up url k'"
proof -
  let ?k = "k\<lparr>ck_calls := ck_calls k @ [e]\<rparr>"
  have inv1: "ck_inv url ?k" using inv by (simp add: ck_inv_def)
  have user: "client_allowed e (ck_client ?k, ck_trace ?k)" "event_ok e (ck_client ?k)" "\<not> is_message e"
    "is_connect e \<Longrightarrow> chain (ck_socket ?k) = []"
    using al by (cases e; auto simp: fits_size_def)+
  have "ck_inv url k'" unfolding k' by (rule ck_run_inv [OF inv1 user(1,2)]) (use user(3,4) in auto)
  moreover have "phase_of (ck_socket k') = (if is_connect e then Opening else phase_of (ck_socket k))"
    using ck_run_phase [OF user(4)] inv by (simp add: k' ck_inv_def)
  moreover have "logged_in url (ck_trace k) \<Longrightarrow> logged_in url (ck_trace k')"
    by (simp add: k' ck_run_def split_beta)
  ultimately show ?thesis using up by (auto simp: ck_up_def split: if_splits)
qed

lemma ck_step_inv:
  assumes "ck_inv url k \<and> ck_up url k" and "ck_allowed e k"
  shows "ck_inv url (ck_step ord e k) \<and> ck_up url (ck_step ord e k)"
proof (cases e)
  case (User c)
  then show ?thesis using assms user_step_inv [of url k c] by simp
next
  case (Io op ec b)
  show ?thesis
  proof (cases "endpoint_exec (wc_Connect (ck_wc k)) (wc_complete (ck_wc k)) (Completes op ec b) (ck_socket k)")
    case None
    then show ?thesis using assms(1) Io by simp
  next
    case (Some r)
    obtain s' v where r: "r = (s', v)" by fastforce
    then have "endpoint_step (wc_Connect (ck_wc k)) (wc_complete (ck_wc k)) (ck_socket k) (Completes op ec b) v s'"
      using Some by (simp only: endpoint_exec_iff)
    from io_step_inv [OF conjunct1 [OF assms(1)] conjunct2 [OF assms(1)] this refl]
    show ?thesis using assms(1) Some by (simp add: Io r del: endpoint_exec.simps)
  qed
qed

end

section \<open>Every run\<close>

lemma ck_start_inv:
  "id_ok url \<Longrightarrow> ck_inv url (ck_start url endpoint port) \<and> ck_up url (ck_start url endpoint port)"
  by (simp add: ck_inv_def ck_up_def ck_start_def client_inv_def new_client_def heard_ok_def client_start_def
      writes_ok_def client.chain_ok_def chain_def phase_of_def)

locale stomp_client_stack = header_layout +
  fixes url endpoint port :: string
  assumes url_ok: "id_ok url"

sublocale stomp_client_stack \<subseteq>
  stack: invariant_machine "ck_start url endpoint port" "ck_step ord" ck_allowed "\<lambda>k. ck_inv url k \<and> ck_up url k"
proof unfold_locales
  show "ck_inv url (ck_start url endpoint port) \<and> ck_up url (ck_start url endpoint port)"
    using url_ok by (rule ck_start_inv)
qed (rule ck_step_inv)

context stomp_client_stack
begin

lemma every_state:
  "all_allowed (ck_step ord) ck_allowed es (ck_start url endpoint port) \<Longrightarrow>
   ck_inv url (run_all (ck_step ord) es (ck_start url endpoint port))"
  using stack.run_from_init by blast

end

text \<open>The client of the monitor, with the default address of \<^verbatim>\<open>main\<close>.\<close>

interpretation events_service: stomp_client_stack rev
  "''ltnm.learncppthroughprojects.com''" "''/network-events''" "''443''"
  by unfold_locales (simp add: id_ok_def newLine_def)

text \<open>C20: in every run of the STOMP client on its socket, whatever is received, is completed or fails and
  whatever the user calls: before the user is told of a connection, a message or a receipt, a STOMP
  frame for the host of the client has been sent; and the handlers of a subscription are only
  called after a SUBSCRIBE frame for it has been sent. That completions belong to sends is not
  assumed, but a consequence of the WebSocket client.\<close>

theorem client_logs_in_first:
  assumes "\<And>hs. mset (ord hs) = mset hs" and "id_ok url"
    and "all_allowed (ck_step ord) ck_allowed es (ck_start url endpoint port)"
    and "run_all (ck_step ord) es (ck_start url endpoint port) = k"
    and "n < length (ck_trace k)"
  shows "(from_server (ck_trace k ! n) \<longrightarrow>
      (\<exists>msg f. Wc_Send msg Sent_Stomp \<in> set (take n (ck_trace k)) \<and>
        StompFrame_parse msg = (Returns StompError.kOk, f) \<and>
        GetCommand f = StompCommand.kStomp \<and> GetHeaderValue f kHost = url)) \<and>
    (\<forall>i given. hears (ck_trace k ! n) = Some (i, given) \<longrightarrow>
      (\<exists>s. requested i s (take n (ck_trace k)) \<and> given s))"
proof -
  have "stomp_client_stack ord url" by unfold_locales (rule assms(1), rule assms(2))
  from stomp_client_stack.every_state [OF this assms(3)] have inv: "ck_inv url k" by (simp add: assms(4))
  have "from_server (ck_trace k ! n) \<longrightarrow> logged_in url (take n (ck_trace k))"
    using inv each_afterD [OF _ assms(5)] unfolding ck_inv_def by blast
  moreover have "\<forall>i given. hears (ck_trace k ! n) = Some (i, given) \<longrightarrow>
      (\<exists>s. requested i s (take n (ck_trace k)) \<and> given s)"
    using inv each_afterD [OF _ assms(5)] unfolding ck_inv_def client_inv_def heard_ok_def snd_conv by blast
  ultimately show ?thesis by (simp add: logged_in_def)
qed

text \<open>A client that connects, subscribes, and is sent a message.\<close>

definition login_io :: "string \<Rightarrow> string \<Rightarrow> client_stack_event list" where
  "login_io url port =
     [User (Cl_Connect ''u'' ''p'' True True True), Io (Resolve url port) No_Error [],
      Io Tcp_Connect No_Error [], Io Tls_Handshake No_Error [], Io Ws_Handshake No_Error []]"

definition example_subscribe_text :: string where
  "example_subscribe_text = make_plain StompCommand.kSubscribe
     [(StompHeader.kReceipt, ''s''), (StompHeader.kAck, ''auto''), (kDestination, ''/t''), (kId, ''s'')] []"

definition example_ck_events :: "client_stack_event list" where
  "example_ck_events = login_io ''h'' ''443'' @
     [Io Read No_Error (frame_text StompCommand.kConnected [(StompHeader.kVersion, ''1.2'')] [] []),
      User (Cl_Subscribe ''s'' ''/t'' True True),
      Io (Write example_subscribe_text (Some (Of_Send (Sent_Subscribe ''s'' example_subscription)))) No_Error [],
      Io Read No_Error example_receipt, Io Read No_Error example_message]"

definition example_ck :: client_stack where
  "example_ck = run_all (ck_step rev) example_ck_events (ck_start ''h'' ''/e'' ''443'')"

lemma example_ck_facts:
  "all_allowed (ck_step rev) ck_allowed example_ck_events (ck_start ''h'' ''/e'' ''443'')"
  "length (ck_trace example_ck) = 6"
  "ck_trace example_ck ! 5 = On_Subscription_Message ''s'' StompClientError.kOk ''hi''"
  by code_simp+

lemma client_logs_in_first_witness:
  "(\<exists>msg. Wc_Send msg Sent_Stomp \<in> set (take 5 (ck_trace example_ck))) \<and>
   (\<exists>s. requested ''s'' s (take 5 (ck_trace example_ck)) \<and> sub_onMessage s)"
proof -
  have h: "id_ok ''h''" by (simp add: id_ok_def newLine_def)
  have n: "5 < length (ck_trace example_ck)" by (simp add: example_ck_facts(2))
  from client_logs_in_first [OF rev_layout h example_ck_facts(1) example_ck_def [symmetric] n]
  have p: "\<exists>msg. Wc_Send msg Sent_Stomp \<in> set (take 5 (ck_trace example_ck))"
    "\<And>i given. hears (ck_trace example_ck ! 5) = Some (i, given) \<Longrightarrow>
      \<exists>s. requested i s (take 5 (ck_trace example_ck)) \<and> given s"
    unfolding example_ck_facts(3) from_server.simps by blast+
  from p(2) [of "''s''" sub_onMessage] show ?thesis using p(1) unfolding example_ck_facts(3) by simp
qed

end
