(* ===== verification/Stomp_Sockets.thy ===== *)
theory Stomp_Sockets
  imports Server_Table Web_Socket_Laws
begin

text \<open>
  The STOMP server on the WebSocket server: connections are accepted, each becomes a session, the
  handlers that a session calls are the STOMP server's, and what the STOMP server asks of a session
  is done to it. The socket libraries complete what was started, in any order and with any error.
  The table of the STOMP server is then exactly the set of the sessions that are up.
\<close>

section \<open>The stack\<close>

record 'w stack =
  sk_acceptor :: ws_server
  sk_accepting :: bool
  sk_sessions :: "'w \<rightharpoonup> string ws_state"
  sk_server :: "'w stomp_server"
  sk_trace :: "'w server_action list"
  sk_failed :: bool

text \<open>
  The handlers that \<^verbatim>\<open>StompServer::Run\<close> gives to the WebSocket server, and the completion
  handlers of the STOMP server's sends and closes. \<open>newId\<close> is the ID generated next.
\<close>

fun session_call ::
  "header_order \<Rightarrow> 'w \<Rightarrow> string \<Rightarrow> string ws_action \<Rightarrow> 'w stomp_server \<Rightarrow>
   unit outcome \<times> 'w stomp_server \<times> 'w server_action list" where
  "session_call ord w newId (User_Connect ec) st =
     (Returns (), OnWsSessionConnect (ec \<noteq> No_Error) w newId st)"
| "session_call ord w newId (User_Message msg) st = OnWsSessionMessage ord False w msg st"
| "session_call ord w newId (User_Disconnect ec) st =
     (Returns (), OnWsSessionDisconnect (ec \<noteq> No_Error) w st)"
| "session_call ord w newId (User_Sent requestId ec) st =
     (Returns (), st, server_OnSend (ec \<noteq> No_Error) requestId)"
| "session_call ord w newId (User_Closed connectionId ec) st =
     (Returns (), st, server_OnClose (ec \<noteq> No_Error) connectionId)"
| "session_call ord w newId _ st = (Returns (), st, [])"

fun session_calls ::
  "header_order \<Rightarrow> 'w \<Rightarrow> string \<Rightarrow> string ws_action list \<Rightarrow> 'w stomp_server \<Rightarrow>
   unit outcome \<times> 'w stomp_server \<times> 'w server_action list" where
  "session_calls ord w newId [] st = (Returns (), st, [])"
| "session_calls ord w newId (a # as) st =
     (case session_call ord w newId a st of
        (Returns _, st', acts) \<Rightarrow>
          (let (res, st'', acts') = session_calls ord w newId as st' in (res, st'', acts @ acts'))
      | failed \<Rightarrow> failed)"

text \<open>What the STOMP server asks of its sessions.\<close>

definition session_do :: "string ws_label \<Rightarrow> string ws_state \<Rightarrow> string ws_state" where
  "session_do l s =
     (case endpoint_exec ss_Connect ss_complete l s of None \<Rightarrow> s | Some (s', _) \<Rightarrow> s')"

fun ask_session :: "'w server_action \<Rightarrow> ('w \<rightharpoonup> string ws_state) \<Rightarrow> 'w \<rightharpoonup> string ws_state" where
  "ask_session (Ws_Send w msg h) S = S(w := map_option (session_do (Do_Send msg h)) (S w))"
| "ask_session (Ws_Close w h) S = S(w := map_option (session_do (Do_Close h)) (S w))"
| "ask_session _ S = S"

fun ask_acceptor :: "'w server_action \<Rightarrow> ws_server \<Rightarrow> ws_server" where
  "ask_acceptor Ws_Stop sv = fst (ws_Stop sv :: ws_server \<times> unit acceptor_action list)"
| "ask_acceptor _ sv = sv"

definition ask :: "'w stomp_server \<Rightarrow> 'w server_action list \<Rightarrow> 'w stack \<Rightarrow> 'w stack" where
  "ask st acts k =
     k\<lparr>sk_server := st, sk_trace := sk_trace k @ acts, sk_sessions := fold ask_session acts (sk_sessions k),
       sk_acceptor := fold ask_acceptor acts (sk_acceptor k)\<rparr>"

text \<open>What the acceptor does.\<close>

fun do_accept :: "'w acceptor_action \<Rightarrow> 'w stack \<Rightarrow> 'w stack" where
  "do_accept (New_Session w p acts) k =
     k\<lparr>sk_sessions := (sk_sessions k)(w \<mapsto> \<lparr>st_peer = p, st_pending = begun acts\<rparr>)\<rparr>"
| "do_accept Accept k = k\<lparr>sk_accepting := True\<rparr>"
| "do_accept (Server_Disconnect ec) k =
     ask (sk_server k) (server_OnWsDisconnect (ec \<noteq> No_Error) (sk_server k)) k"
| "do_accept _ k = k"

datatype 'w stack_event =
    Accepted ws_error 'w
  | Socket 'w "string ws_op" ws_error string string
  | Calls "'w server_event"

text \<open>
  One turn: an accept or an operation of a session completes, or the user calls the STOMP server.
  An exception that leaves a handler ends the run.
\<close>

fun stack_step :: "header_order \<Rightarrow> 'w stack_event \<Rightarrow> 'w stack \<Rightarrow> 'w stack" where
  "stack_step ord (Accepted ec w) k =
     (if sk_failed k then k
      else fold do_accept (ws_accepted ec w (sk_acceptor k)) (k\<lparr>sk_accepting := False\<rparr>))"
| "stack_step ord (Socket w op ec bytes newId) k =
     (if sk_failed k then k
      else
        (case sk_sessions k w of
           None \<Rightarrow> k
         | Some s \<Rightarrow>
             (case endpoint_exec ss_Connect ss_complete (Completes op ec bytes) s of
                None \<Rightarrow> k
              | Some (s', v) \<Rightarrow>
                  let (res, st, acts) = session_calls ord w newId v (sk_server k)
                  in (ask st acts (k\<lparr>sk_sessions := (sk_sessions k)(w \<mapsto> s')\<rparr>))
                       \<lparr>sk_failed := \<not> returned res\<rparr>)))"
| "stack_step ord (Calls e) k =
     (if sk_failed k then k
      else let (st, acts) = server_step ord e (sk_server k, []) in ask st acts k)"

text \<open>
  What is relied on: an accept completes only when one is pending, and with a new socket; a
  generated ID is new and can be the value of a header.
\<close>

fun stack_allowed :: "'w stack_event \<Rightarrow> 'w stack \<Rightarrow> bool" where
  "stack_allowed (Accepted ec w) k \<longleftrightarrow> sk_accepting k \<and> sk_sessions k w = None"
| "stack_allowed (Socket w op ec bytes newId) k \<longleftrightarrow>
     map_of (sv_sessions (sk_server k)) newId = None \<and> id_ok newId"
| "stack_allowed (Calls e) k \<longleftrightarrow> user_call e"

text \<open>A server that was started without an error.\<close>

definition stack_start :: "string \<Rightarrow> string \<Rightarrow> 16 word \<Rightarrow> bool \<Rightarrow> bool \<Rightarrow> bool \<Rightarrow> 'w stack" where
  "stack_start host ip port onMessage onClientDisconnect onDisconnect =
     (let (_, sv, acts) = (ws_Run True No_Error No_Error No_Error No_Error True True True True
            (new_ws_server ip port) :: ws_error outcome \<times> ws_server \<times> unit acceptor_action list)
      in \<lparr>sk_acceptor = sv, sk_accepting = Accept \<in> set acts, sk_sessions = Map.empty,
          sk_server = fst (started host onMessage onClientDisconnect onDisconnect), sk_trace = [],
          sk_failed = False\<rparr>)"

section \<open>What the requests do to the sessions\<close>

definition same_session :: "bool \<Rightarrow> string ws_state \<Rightarrow> string ws_state \<Rightarrow> bool" where
  "same_session c s s' \<longleftrightarrow>
     phase_of s' = phase_of s \<and> (wp_closed (st_peer s') \<longleftrightarrow> wp_closed (st_peer s) \<or> c) \<and>
     (session.chain_ok s \<longrightarrow> session.chain_ok s')"

lemma same_session_refl [simp]: "same_session False s s"
  by (simp add: same_session_def)

lemma same_session_trans: "same_session c s t \<Longrightarrow> same_session d t u \<Longrightarrow> same_session (c \<or> d) s u"
  by (auto simp: same_session_def)

lemma session_do_send: "same_session False s (session_do (Do_Send msg h) s)"
  by (simp add: same_session_def session_do_def ws_Send_def phase_of_def chain_def session.chain_ok_def)

lemma session_do_close: "same_session True s (session_do (Do_Close h) s)"
  by (simp add: same_session_def session_do_def ws_Close_def phase_of_def chain_def session.chain_ok_def
      listens_def)

lemma ask_session_same:
  "rel_option (same_session (w \<in> closes [a])) (S w) (ask_session a S w)"
  by (cases a; cases "S w")
     (auto simp: closes_def session_do_send session_do_close intro: option.rel_refl)

lemma rel_option_trans:
  assumes "rel_option P x y" and "rel_option Q y z" and "\<And>a b c. P a b \<Longrightarrow> Q b c \<Longrightarrow> R a c"
  shows "rel_option R x z"
  using assms by (cases x; cases y; cases z) auto

lemma ask_sessions_same:
  "rel_option (same_session (w \<in> closes acts)) (S w) (fold ask_session acts S w)"
proof (induction acts arbitrary: S)
  case Nil
  show ?case by (cases "S w") auto
next
  case (Cons a acts)
  have "w \<in> closes (a # acts) \<longleftrightarrow> w \<in> closes [a] \<or> w \<in> closes acts" by (auto simp: closes_def)
  then show ?case
    using rel_option_trans [OF ask_session_same [of w a S] Cons.IH [of "ask_session a S"] same_session_trans]
    by simp
qed

section \<open>The table is the set of sessions that are up\<close>

definition session_ok :: "string ws_state option \<Rightarrow> bool \<Rightarrow> bool" where
  "session_ok so listed \<longleftrightarrow>
     (case so of
        None \<Rightarrow> \<not> listed
      | Some s \<Rightarrow>
          session.chain_ok s \<and> (phase_of s = Opening \<longrightarrow> \<not> wp_closed (st_peer s)) \<and>
          (listed \<longleftrightarrow> phase_of s = Up \<and> \<not> wp_closed (st_peer s)))"

lemma session_ok_listed:
  "session_ok so listed \<Longrightarrow>
   listed \<longleftrightarrow> (\<exists>s. so = Some s \<and> phase_of s = Up \<and> \<not> wp_closed (st_peer s))"
  by (cases so) (auto simp: session_ok_def)

lemma session_ok_asked:
  assumes "rel_option (same_session c) so so'" and "session_ok so listed"
    and "c \<Longrightarrow> listed \<or> (\<exists>s. so = Some s \<and> phase_of s \<noteq> Opening)"
  shows "session_ok so' (listed \<and> \<not> c)"
  using assms by (cases so; cases so') (auto simp: session_ok_def same_session_def)

text \<open>One completion at a session, with the handler that it calls.\<close>

lemma session_calls_one:
  "session_calls ord w newId [a] st = session_call ord w newId a st"
  by (auto split: prod.splits outcome.splits)

definition call_ok ::
  "'w \<Rightarrow> string ws_state \<Rightarrow> 'w stomp_server \<Rightarrow> 'w server_action list \<Rightarrow> 'w stomp_server \<Rightarrow> bool" where
  "call_ok w s' st acts st' \<longleftrightarrow>
     (\<exists>T. (\<forall>w'. w' \<noteq> w \<longrightarrow> (w' \<in> T \<longleftrightarrow> w' \<in> table st)) \<and> session_ok (Some s') (w \<in> T) \<and>
        table st' = T - closes acts \<and> closes acts \<subseteq> {w} \<and>
        (closes acts = {} \<or> phase_of s' \<noteq> Opening))"

lemma call_okI:
  assumes "\<And>w'. w' \<noteq> w \<Longrightarrow> w' \<in> T \<longleftrightarrow> w' \<in> table st" and "session_ok (Some s') (w \<in> T)"
    and "table st' = T - closes acts" and "closes acts \<subseteq> {w}"
    and "closes acts = {} \<or> phase_of s' \<noteq> Opening"
  shows "call_ok w s' st acts st'"
  unfolding call_ok_def using assms by blast

lemma call_ok_table:
  assumes "call_ok w s' st acts st'" and ok: "\<And>w'. session_ok (S w') (w' \<in> table st)"
  obtains T where "\<And>w'. session_ok ((S(w \<mapsto> s')) w') (w' \<in> T)" and "table st' = T - closes acts"
    and "\<And>w'. w' \<in> closes acts \<Longrightarrow> w' \<in> T \<or> (\<exists>x. (S(w \<mapsto> s')) w' = Some x \<and> phase_of x \<noteq> Opening)"
proof -
  obtain T where T: "\<And>w'. w' \<noteq> w \<Longrightarrow> w' \<in> T \<longleftrightarrow> w' \<in> table st" "session_ok (Some s') (w \<in> T)"
    "table st' = T - closes acts" "closes acts \<subseteq> {w}" "closes acts = {} \<or> phase_of s' \<noteq> Opening"
    using assms(1) unfolding call_ok_def by blast
  have "session_ok ((S(w \<mapsto> s')) w') (w' \<in> T)" for w'
    using T(1,2) ok [of w'] by (cases "w' = w") simp_all
  moreover have "w' \<in> T \<or> (\<exists>x. (S(w \<mapsto> s')) w' = Some x \<and> phase_of x \<noteq> Opening)"
    if "w' \<in> closes acts" for w'
  proof -
    have "w' = w" "phase_of s' \<noteq> Opening" using that T(4,5) by auto
    then show ?thesis by simp
  qed
  ultimately show thesis using T(3) by (intro that)
qed

lemma handler_closes [simp]:
  "closes (server_OnSend failed i) = {}" "closes (server_OnClose failed i) = {}"
  "closes (server_OnWsDisconnect failed st) = {}"
  by (simp_all add: server_OnSend_def server_OnClose_def server_OnWsDisconnect_def)

context header_layout
begin

lemma session_calls_table:
  assumes m: "maps_agree st" and ok: "session_ok (Some s) (w \<in> table st)"
    and ch: "session.chain_ok s'"
    and ct: "contract_step (contract_of s) (Completes op ec b) v (contract_of s')"
    and op: "session_calls ord w newId v st = (Returns (), st', acts)"
  shows "call_ok w s' st acts st'"
proof (rule completion_cases(2) [OF ct])
  note closed = completion_cases(1) [OF ct]
  {
    fix h assume "phase_of s' = phase_of s" "v \<in> {[], [User_Sent h ec], [User_Closed h ec]}"
    then show ?thesis
      using op ok ch closed by (intro call_okI [of w "table st"]) (auto simp: session_ok_def)
  next
    assume a: "phase_of s = Opening" "phase_of s' = Up" "v = [User_Connect No_Error]"
    then have "OnWsSessionConnect False w newId st = (st', acts)" using op by (simp add: session_calls_one)
    from OnWsSessionConnect_table [OF this] show ?thesis
      using ok ch closed a by (intro call_okI [of w "insert w (table st)"]) (auto simp: session_ok_def)
  next
    assume a: "phase_of s = Opening" "phase_of s' = Down" "ec \<noteq> No_Error" "v = [User_Connect ec]"
    then have "OnWsSessionConnect True w newId st = (st', acts)" using op by (simp add: session_calls_one)
    from OnWsSessionConnect_table [OF this] show ?thesis
      using ok ch closed a by (intro call_okI [of w "table st"]) (auto simp: session_ok_def)
  next
    fix msg assume a: "phase_of s = Up" "phase_of s' = Up" "v = [User_Message msg]"
    then have "OnWsSessionMessage ord False w msg st = (Returns (), st', acts)"
      using op unfolding a(3) session_calls_one by simp
    from message_table [OF m this] show ?thesis
      using ok ch closed a by (intro call_okI [of w "table st"]) (auto simp: session_ok_def)
  next
    assume "phase_of s = Up" "phase_of s' = Down" "wp_closed (st_peer s)" "v = []"
    then show ?thesis
      using op ok ch closed by (intro call_okI [of w "table st"]) (auto simp: session_ok_def)
  next
    assume a: "phase_of s = Up" "phase_of s' = Down" "\<not> wp_closed (st_peer s)" "ec \<noteq> No_Error"
      "v = [User_Disconnect ec]"
    then have "OnWsSessionDisconnect True w st = (st', acts)" using op by (simp add: session_calls_one)
    from OnWsSessionDisconnect_table [OF this] show ?thesis
      using ok ch closed a by (intro call_okI [of w "table st - {w}"]) (auto simp: session_ok_def)
  }
qed

end

section \<open>Every run\<close>

definition passes_handlers :: "ws_server \<Rightarrow> bool" where
  "passes_handlers sv \<longleftrightarrow>
     ws_onSessionConnect sv \<and> ws_onSessionMessage sv \<and> ws_onSessionDisconnect sv"

definition stack_inv :: "'w stack \<Rightarrow> bool" where
  "stack_inv k \<longleftrightarrow>
     server_inv (sk_server k, sk_trace k) \<and> passes_handlers (sk_acceptor k) \<and>
     (\<forall>w. session_ok (sk_sessions k w) (w \<in> table (sk_server k)))"

definition stack_ok :: "'w stack \<Rightarrow> bool" where
  "stack_ok k \<longleftrightarrow> sk_failed k \<or> stack_inv k"

lemma passes_handlers_ask: "passes_handlers sv \<Longrightarrow> passes_handlers (fold ask_acceptor acts sv)"
proof (induction acts arbitrary: sv)
  case (Cons a acts)
  have "passes_handlers (ask_acceptor a sv)"
    using Cons.prems by (cases a) (auto simp: passes_handlers_def ws_Stop_def)
  then show ?case using Cons.IH by simp
qed simp

lemma ask_inv:
  assumes inv: "server_inv (st, sk_trace k @ acts)" and sv: "passes_handlers (sk_acceptor k)"
    and ok: "\<And>w. session_ok (sk_sessions k w) (w \<in> T)" and tb: "table st = T - closes acts"
    and cl: "\<And>w. w \<in> closes acts \<Longrightarrow>
      w \<in> T \<or> (\<exists>s. sk_sessions k w = Some s \<and> phase_of s \<noteq> Opening)"
  shows "stack_inv (ask st acts k)"
proof -
  have "session_ok (fold ask_session acts (sk_sessions k) w) (w \<in> table st)" for w
    using session_ok_asked [OF ask_sessions_same [of w acts "sk_sessions k"] ok cl] unfolding tb by simp
  then show ?thesis using inv passes_handlers_ask [OF sv] by (simp add: stack_inv_def ask_def)
qed

text \<open>One completion at a session: nothing happens, or the session moves and calls its handlers.\<close>

lemma socket_turn:
  assumes "\<not> sk_failed k"
  obtains (same) "stack_step ord (Socket w op ec b newId) k = k"
  | (moves) s s' v res st' acts where "sk_sessions k w = Some s"
      "endpoint_step ss_Connect ss_complete s (Completes op ec b) v s'"
      "session_calls ord w newId v (sk_server k) = (res, st', acts)"
      "stack_step ord (Socket w op ec b newId) k =
         (ask st' acts (k\<lparr>sk_sessions := (sk_sessions k)(w \<mapsto> s')\<rparr>))\<lparr>sk_failed := \<not> returned res\<rparr>"
proof (cases "sk_sessions k w")
  case None
  then show ?thesis by (intro same) simp
next
  case (Some s)
  show ?thesis
  proof (cases "endpoint_exec ss_Connect ss_complete (Completes op ec b) s")
    case None
    then show ?thesis using Some by (intro same) (simp del: endpoint_exec.simps)
  next
    case (Some r)
    obtain s' v where r: "r = (s', v)" by fastforce
    obtain res st' acts where c: "session_calls ord w newId v (sk_server k) = (res, st', acts)"
      by (metis prod_cases3)
    have "endpoint_step ss_Connect ss_complete s (Completes op ec b) v s'"
      using Some by (simp only: endpoint_exec_iff r)
    moreover have "stack_step ord (Socket w op ec b newId) k =
        (ask st' acts (k\<lparr>sk_sessions := (sk_sessions k)(w \<mapsto> s')\<rparr>))\<lparr>sk_failed := \<not> returned res\<rparr>"
      using \<open>sk_sessions k w = Some s\<close> assms Some by (simp add: r c del: endpoint_exec.simps)
    ultimately show ?thesis using \<open>sk_sessions k w = Some s\<close> c by (intro moves)
  qed
qed

lemma accepted_session:
  fixes s :: "string ws_state"
  defines "s \<equiv> \<lparr>st_peer = fst (ss_Connect True True True new_session :: ws_peer \<times> string ws_action list),
    st_pending = [Dispatch]\<rparr>"
  shows "session.chain_ok s" and "phase_of s = Opening" and "\<not> wp_closed (st_peer s)"
  by (simp_all add: s_def session.chain_ok_def chain_def phase_of_def ss_Connect_def listens_def)

context header_layout
begin

lemma session_call_inv:
  assumes inv: "server_inv (st, tr)" and new: "\<And>ec. a = User_Connect ec \<Longrightarrow> w \<notin> table st"
    "map_of (sv_sessions st) newId = None" "id_ok newId"
    and op: "session_call ord w newId a st = (res, st', acts)"
  shows "server_inv (st', tr @ acts)"
proof (cases a)
  case (User_Connect ec)
  then show ?thesis
    using server_step_inv [OF inv, of "Ev_Connect (ec \<noteq> No_Error) w newId"] new op
    by (auto simp: table_def split: prod.splits)
next
  case (User_Message msg)
  then show ?thesis
    using server_step_inv [OF inv, of "Ev_Message False w msg"] op by (auto split: prod.splits)
next
  case (User_Disconnect ec)
  then show ?thesis
    using server_step_inv [OF inv, of "Ev_Disconnect (ec \<noteq> No_Error) w"] op by (auto split: prod.splits)
qed (use inv op in \<open>auto simp: server_OnSend_def server_OnClose_def intro!: same_state_inv\<close>)

lemma session_step_inv:
  assumes inv: "stack_inv k" and s: "sk_sessions k w = Some s"
    and st: "endpoint_step ss_Connect ss_complete s (Completes op ec bytes) v s'"
    and new: "map_of (sv_sessions (sk_server k)) newId = None" "id_ok newId"
    and op: "session_calls ord w newId v (sk_server k) = (Returns (), st', acts)"
  shows "stack_inv (ask st' acts (k\<lparr>sk_sessions := (sk_sessions k)(w \<mapsto> s')\<rparr>))"
proof -
  have si: "server_inv (sk_server k, sk_trace k)" and m: "maps_agree (sk_server k)"
    and ok: "session_ok (sk_sessions k w') (w' \<in> table (sk_server k))" for w'
    using inv by (simp_all add: stack_inv_def server_inv_def)
  have ok': "session_ok (Some s) (w \<in> table (sk_server k))" using ok [of w] s by simp
  then have ch: "session.chain_ok s" by (simp add: session_ok_def)
  note ref = session.endpoint_refines [OF ch st]
  have c: "call_ok w s' (sk_server k) acts st'"
    by (rule session_calls_table [OF m ok' conjunct1 [OF ref] conjunct2 [OF ref] op])
  have calls: "v = [] \<or> (\<exists>a. v = [a] \<and> (\<forall>ec. a = User_Connect ec \<longrightarrow> phase_of s = Opening))"
    by (rule completion_cases(2) [OF conjunct2 [OF ref]]) auto
  have si': "server_inv (st', sk_trace k @ acts)"
  proof (cases "v = []")
    case True
    then show ?thesis using op si by simp
  next
    case False
    then obtain a where a: "v = [a]" "\<And>ec. a = User_Connect ec \<Longrightarrow> w \<notin> table (sk_server k)"
      using calls ok' by (auto simp: session_ok_def)
    show ?thesis
      by (rule session_call_inv [OF si a(2) new]) (use op in \<open>simp_all only: a(1) session_calls_one\<close>)
  qed
  show ?thesis
  proof (rule call_ok_table [OF c ok])
    fix T assume "\<And>w'. session_ok (((sk_sessions k)(w \<mapsto> s')) w') (w' \<in> T)" "table st' = T - closes acts"
      "\<And>w'. w' \<in> closes acts \<Longrightarrow> w' \<in> T \<or> (\<exists>x. ((sk_sessions k)(w \<mapsto> s')) w' = Some x \<and> phase_of x \<noteq> Opening)"
    then show ?thesis
      using inv si' by (intro ask_inv [where T = T]) (simp_all add: stack_inv_def del: fun_upd_apply)
  qed
qed

lemma calls_step_inv:
  assumes inv: "stack_inv k" and e: "user_call e" and op: "server_step ord e (sk_server k, []) = (st', acts)"
  shows "stack_inv (ask st' acts k)"
proof -
  have si: "server_inv (sk_server k, sk_trace k)" and m: "maps_agree (sk_server k)"
    using inv by (simp_all add: stack_inv_def server_inv_def)
  have al: "server_allowed e (sk_server k, sk_trace k)" using e by (cases e) simp_all
  have "server_step ord e (sk_server k, sk_trace k) = (st', sk_trace k @ acts)"
    using op e by (cases e) (auto split: prod.splits)
  then have "server_inv (st', sk_trace k @ acts)" using server_step_inv [OF si al] by simp
  then show ?thesis
    using inv user_call_table [OF m e op]
    by (intro ask_inv [where T = "table (sk_server k)"]) (auto simp: stack_inv_def)
qed

lemma accept_step_inv:
  assumes inv: "stack_inv k" and new: "sk_sessions k w = None"
  shows "stack_inv (fold do_accept (ws_accepted ec w (sk_acceptor k)) (k\<lparr>sk_accepting := False\<rparr>))"
proof (cases "ec = No_Error")
  case True
  let ?s = "\<lparr>st_peer = fst (ss_Connect True True True new_session :: ws_peer \<times> string ws_action list),
    st_pending = [Dispatch]\<rparr> :: string ws_state"
  have acts: "ws_accepted ec w (sk_acceptor k) =
      [New_Session w (st_peer ?s) (snd (ss_Connect True True True new_session)), Accept]"
    using inv True
    by (simp add: ws_accepted_def OnConnectionAccepted_def AcceptConnection_def stack_inv_def
        passes_handlers_def ss_Connect_def)
  have "w \<notin> table (sk_server k)"
    using inv new by (auto simp: stack_inv_def session_ok_def dest!: spec [of _ w])
  then have "session_ok (Some ?s) (w \<in> table (sk_server k))"
    using accepted_session by (simp add: session_ok_def)
  then show ?thesis using inv by (simp add: acts stack_inv_def ss_Connect_def)
next
  case False
  have dis: "stack_inv (ask (sk_server k) (server_OnWsDisconnect True (sk_server k)) (k\<lparr>sk_accepting := False\<rparr>))"
    using inv same_state_inv [of "sk_server k" "sk_trace k" "server_OnWsDisconnect True (sk_server k)"]
    by (intro ask_inv [where T = "table (sk_server k)"])
      (auto simp: stack_inv_def, auto simp: server_OnWsDisconnect_def)
  have same: "stack_inv (k\<lparr>sk_accepting := False\<rparr>)" using inv by (simp add: stack_inv_def)
  show ?thesis
    using False dis same by (simp add: ws_accepted_def OnConnectionAccepted_def AcceptConnection_def)
qed

lemma stack_step_ok:
  assumes ok: "stack_ok k" and al: "stack_allowed e k"
  shows "stack_ok (stack_step ord e k)"
proof (cases "sk_failed k")
  case True
  then show ?thesis by (cases e) (simp_all add: stack_ok_def)
next
  case False
  then have inv: "stack_inv k" using ok by (simp add: stack_ok_def)
  show ?thesis
  proof (cases e)
    case (Accepted ec w)
    then show ?thesis using accept_step_inv [OF inv] al False by (simp add: stack_ok_def)
  next
    case (Calls c)
    then show ?thesis
      using calls_step_inv [OF inv] al False by (auto simp: stack_ok_def split: prod.splits)
  next
    case (Socket w op ec bytes newId)
    from False show ?thesis
    proof (cases rule: socket_turn [where ord = ord and w = w and op = op and ec = ec and b = bytes and newId = newId])
      case same
      then show ?thesis using ok Socket by simp
    next
      case (moves s s' v res st' acts)
      show ?thesis
      proof (cases res)
        case (Returns u)
        have new: "map_of (sv_sessions (sk_server k)) newId = None" "id_ok newId"
          using al by (simp_all add: Socket)
        have "session_calls ord w newId v (sk_server k) = (Returns (), st', acts)"
          using moves(3) Returns by simp
        from session_step_inv [OF inv moves(1,2) new this] show ?thesis
          by (simp only: Socket moves(4) Returns) (simp add: stack_ok_def stack_inv_def)
      qed (simp_all only: Socket moves(4), simp_all add: stack_ok_def)
    qed
  qed
qed

end

lemma stack_start_ok: "stack_ok (stack_start host ip port m d o')"
  using started_inv [of host m d o']
  by (simp add: stack_ok_def stack_inv_def stack_start_def ws_Run_def new_ws_server_def Let_def
      passes_handlers_def session_ok_def table_def started_def server_Run_def new_server_def)

locale stomp_stack = header_layout +
  fixes host ip :: string and port :: "16 word" and onMessage onClientDisconnect onDisconnect :: bool

sublocale stomp_stack \<subseteq>
  stack: invariant_machine "stack_start host ip port onMessage onClientDisconnect onDisconnect"
    "stack_step ord" stack_allowed stack_ok
  by unfold_locales (auto intro: stack_start_ok stack_step_ok)

context stomp_stack
begin

lemma every_state:
  "all_allowed (stack_step ord) stack_allowed es
     (stack_start host ip port onMessage onClientDisconnect onDisconnect) \<Longrightarrow>
   stack_ok (run_all (stack_step ord) es
     (stack_start host ip port onMessage onClientDisconnect onDisconnect))"
  by (rule stack.run_from_init)

end

interpretation any_stack: stomp_stack rev host ip port onMessage onClientDisconnect onDisconnect
  for host ip port onMessage onClientDisconnect onDisconnect
  by unfold_locales

text \<open>C14: in every run of the STOMP server on its sockets, whatever connects, is received, is completed
  or fails, and whatever the user calls, as long as no exception of the parser has ended it: the
  server's two maps stay inverse to each other and its table lists exactly the WebSocket sessions
  that have been opened, are being read and were not closed by the server; and the user is only told
  of clients that were announced.\<close>

theorem table_is_live_sessions:
  assumes "\<And>hs. mset (ord hs) = mset hs"
    and "all_allowed (stack_step ord) stack_allowed es
      (stack_start host ip port onMessage onClientDisconnect onDisconnect)"
    and "run_all (stack_step ord) es
      (stack_start host ip port onMessage onClientDisconnect onDisconnect) = k"
    and "\<not> sk_failed k"
  shows "maps_agree (sk_server k) \<and> trace_ok (sk_trace k) \<and>
    dom (map_of (sv_connections (sk_server k))) =
      {w. \<exists>s. sk_sessions k w = Some s \<and> phase_of s = Up \<and> \<not> wp_closed (st_peer s)}"
proof -
  have l: "stomp_stack ord" by unfold_locales (rule assms(1))
  have "stack_ok k"
    using stomp_stack.every_state [OF l assms(2)] by (simp add: assms(3))
  then have inv: "stack_inv k" using assms(4) by (simp add: stack_ok_def)
  then have ok: "session_ok (sk_sessions k w) (w \<in> table (sk_server k))" for w by (simp add: stack_inv_def)
  have "w \<in> table (sk_server k) \<longleftrightarrow>
      (\<exists>s. sk_sessions k w = Some s \<and> phase_of s = Up \<and> \<not> wp_closed (st_peer s))" for w
    by (rule session_ok_listed [OF ok])
  then show ?thesis using inv by (auto simp: stack_inv_def server_inv_def table_def)
qed

text \<open>
  Two clients: the first logs in, the second sends text that is no frame and is disconnected; its
  session reads on until the socket reports the end, which calls nothing.
\<close>

definition opening_of :: "nat \<Rightarrow> string \<Rightarrow> nat stack_event list" where
  "opening_of w i =
     [Accepted No_Error w, Socket w Dispatch No_Error [] i, Socket w Tls_Handshake No_Error [] i,
      Socket w Ws_Handshake No_Error [] i]"

definition example_stack_events :: "nat stack_event list" where
  "example_stack_events =
     opening_of 0 ''i'' @ opening_of 1 ''j'' @
     [Socket 0 Read No_Error example_stomp ''k'', Socket 1 Read No_Error ''hello'' ''k'',
      Socket 1 Read Websocket_Closed [] ''k'']"

definition example_stack :: "nat stack" where
  "example_stack = run_all (stack_step rev) example_stack_events (stack_start ''h'' ''127.0.0.1'' 8042 True True True)"

lemma example_stack_facts:
  "all_allowed (stack_step rev) stack_allowed example_stack_events
     (stack_start ''h'' ''127.0.0.1'' 8042 True True True)"
  "\<not> sk_failed example_stack" "map fst (sv_connections (sk_server example_stack)) = [0]"
  by code_simp+

theorem table_is_live_sessions_witness:
  "(\<exists>s. sk_sessions example_stack 0 = Some s \<and> phase_of s = Up) \<and>
   \<not> (\<exists>s. sk_sessions example_stack 1 = Some s \<and> phase_of s = Up \<and> \<not> wp_closed (st_peer s))"
proof -
  have "mset (rev hs) = mset (hs :: Headers)" for hs by simp
  from table_is_live_sessions [OF this example_stack_facts(1) example_stack_def [symmetric] example_stack_facts(2)]
  have "dom (map_of (sv_connections (sk_server example_stack))) =
    {w. \<exists>s. sk_sessions example_stack w = Some s \<and> phase_of s = Up \<and> \<not> wp_closed (st_peer s)}"
    by blast
  moreover have "dom (map_of (sv_connections (sk_server example_stack))) = {0}"
    using example_stack_facts(3) by (metis dom_map_of_conv_image_fst list.set_map list.simps(15) empty_set)
  ultimately show ?thesis by (simp add: set_eq_iff) blast
qed

end
