(* ===== verification/Process_Sockets.thy ===== *)
theory Process_Sockets
  imports Monitor_Props Client_Sockets Stomp_Sockets
begin

text \<open>
  The monitor on its sockets: the events of the client and of the server are the calls of the
  WebSocket client and of the sessions, and what the handlers of the monitor make the client and the
  server do goes back to the sockets. The socket libraries complete what was started, in any order
  and with any error. So a run of the process is a run of the monitor's system, and what the system
  relies on is what the sockets provide.
\<close>

section \<open>The process\<close>

record 'w process =
  pr_sys :: "'w system"
  pr_wc :: ws_client
  pr_client :: "client_handler ws_state"
  pr_acceptor :: ws_server
  pr_accepting :: bool
  pr_sessions :: "'w \<rightharpoonup> string ws_state"
  pr_stopped :: bool

text \<open>One event of the system; what the client and the server ask of their sockets is done.\<close>

definition handle :: "('j, 'pt) monitor_lib \<Rightarrow> 'w sys_event \<Rightarrow> 'w process \<Rightarrow> 'w process" where
  "handle lib e p =
     (let s = sys_step lib e (pr_sys p); new = drop (length (sys_trace (pr_sys p))) (sys_trace s)
      in p\<lparr>pr_sys := s, pr_client := fold (ask_socket (pr_wc p)) (by_client new) (pr_client p),
           pr_sessions := fold ask_session (by_server new) (pr_sessions p),
           pr_acceptor := fold ask_acceptor (by_server new) (pr_acceptor p)\<rparr>)"

text \<open>The monitor gives no completion handlers to the server.\<close>

fun session_event :: "'w \<Rightarrow> string \<Rightarrow> string ws_action \<Rightarrow> 'w server_event option" where
  "session_event w newId (User_Connect ec) = Some (Ev_Connect (ec \<noteq> No_Error) w newId)"
| "session_event w newId (User_Message msg) = Some (Ev_Message False w msg)"
| "session_event w newId (User_Disconnect ec) = Some (Ev_Disconnect (ec \<noteq> No_Error) w)"
| "session_event w newId _ = None"

fun_cases session_eventE: "session_event w newId a = Some e"

fun accept_one :: "('j, 'pt) monitor_lib \<Rightarrow> 'w acceptor_action \<Rightarrow> 'w process \<Rightarrow> 'w process" where
  "accept_one lib (New_Session w peer acts) p =
     p\<lparr>pr_sessions := (pr_sessions p)(w \<mapsto> \<lparr>st_peer = peer, st_pending = begun acts\<rparr>)\<rparr>"
| "accept_one lib Accept p = p\<lparr>pr_accepting := True\<rparr>"
| "accept_one lib (Server_Disconnect ec) p = handle lib (Server_Down (ec \<noteq> No_Error)) p"
| "accept_one lib _ p = p"

datatype 'w process_event =
    Client_Io "client_handler ws_op" ws_error string
  | Accept_Io ws_error 'w
  | Session_Io 'w "string ws_op" ws_error string string
  | Run_Client string
  | Run_Server string
  | Stop_Run

text \<open>\<^verbatim>\<open>Stop\<close> stops the I/O context: what is pending stays, and is not handled any more.\<close>

definition monitor_Stop :: "'w process \<Rightarrow> 'w process" where
  "monitor_Stop p = p\<lparr>pr_stopped := True\<rparr>"

text \<open>
  One turn of the I/O context: an operation of the client, an accept or an operation of a session
  completes, or the first callback that waits on a strand is called; or the monitor is stopped.
\<close>

fun process_turn :: "('j, 'pt) monitor_lib \<Rightarrow> 'w process_event \<Rightarrow> 'w process \<Rightarrow> 'w process" where
  "process_turn lib (Client_Io op ec bytes) p =
     (if sys_failed (pr_sys p) then p
      else
        (case endpoint_exec (wc_Connect (pr_wc p)) (wc_complete (pr_wc p)) (Completes op ec bytes) (pr_client p) of
           None \<Rightarrow> p
         | Some (s', v) \<Rightarrow>
             fold (\<lambda>e. handle lib (Client_Event e)) (List.map_filter socket_event v) (p\<lparr>pr_client := s'\<rparr>)))"
| "process_turn lib (Accept_Io ec w) p =
     (if sys_failed (pr_sys p) then p
      else fold (accept_one lib) (ws_accepted ec w (pr_acceptor p)) (p\<lparr>pr_accepting := False\<rparr>))"
| "process_turn lib (Session_Io w op ec bytes newId) p =
     (if sys_failed (pr_sys p) then p
      else
        (case pr_sessions p w of
           None \<Rightarrow> p
         | Some s \<Rightarrow>
             (case endpoint_exec ss_Connect ss_complete (Completes op ec bytes) s of
                None \<Rightarrow> p
              | Some (s', v) \<Rightarrow>
                  fold (\<lambda>e. handle lib (Server_Event e)) (List.map_filter (session_event w newId) v)
                    (p\<lparr>pr_sessions := (pr_sessions p)(w \<mapsto> s')\<rparr>))))"
| "process_turn lib (Run_Client newId) p = handle lib (Deliver_Client newId) p"
| "process_turn lib (Run_Server newId) p = handle lib (Deliver_Server newId) p"
| "process_turn lib Stop_Run p = monitor_Stop p"

definition process_step :: "('j, 'pt) monitor_lib \<Rightarrow> 'w process_event \<Rightarrow> 'w process \<Rightarrow> 'w process" where
  "process_step lib e p = (if pr_stopped p then p else process_turn lib e p)"

text \<open>
  What is relied on: an accept completes only when one is pending, and with a new socket; a
  generated ID is new and can be the value of a header.
\<close>

fun process_allowed :: "'w process_event \<Rightarrow> 'w process \<Rightarrow> bool" where
  "process_allowed (Client_Io op ec bytes) p \<longleftrightarrow> True"
| "process_allowed (Accept_Io ec w) p \<longleftrightarrow> pr_accepting p \<and> pr_sessions p w = None"
| "process_allowed (Session_Io w op ec bytes newId) p \<longleftrightarrow>
     map_of (sv_sessions (the (nm_server (sys_monitor (pr_sys p))))) newId = None \<and> id_ok newId"
| "process_allowed (Run_Client newId) p \<longleftrightarrow> id_ok newId"
| "process_allowed (Run_Server newId) p \<longleftrightarrow> id_ok newId"
| "process_allowed Stop_Run p \<longleftrightarrow> True"

text \<open>The start of \<^verbatim>\<open>Run\<close>, after a configuration that has done \<open>acts\<close> and has started the server.\<close>

definition process_start :: "'w monitor \<Rightarrow> 'w monitor_action list \<Rightarrow> 'w process" where
  "process_start m acts =
     (let config = nm_config m;
          wc = \<lparr>wc_url = nc_networkEventsUrl config, wc_endpoint = networkEventsEndpoint,
                wc_port = nc_networkEventsPort config\<rparr>;
          (_, sv, accept) = (ws_Run True No_Error No_Error No_Error No_Error True True True True
            (new_ws_server (nc_quietRouteIp config) (nc_quietRoutePort config)) ::
              ws_error outcome \<times> ws_server \<times> unit acceptor_action list)
      in \<lparr>pr_sys = booted m acts, pr_wc = wc, pr_client = fold (ask_socket wc) (by_client acts) client_start,
          pr_acceptor = sv, pr_accepting = Accept \<in> set accept, pr_sessions = Map.empty,
          pr_stopped = False\<rparr>)"

section \<open>What the sockets keep\<close>

definition sockets_ok :: "'w process \<Rightarrow> bool" where
  "sockets_ok p \<longleftrightarrow>
     client.chain_ok (pr_client p) \<and> writes_ok (pr_client p) (by_client (sys_trace (pr_sys p))) \<and>
     passes_handlers (pr_acceptor p) \<and>
     (\<forall>w. session_ok (pr_sessions p w) (w \<in> server_table (sys_monitor (pr_sys p))))"

lemma writes_ok_ask:
  assumes "writes_ok s tr"
  shows "writes_ok (fold (ask_socket c) acts s) (tr @ acts)"
  using assms ask_sockets_writes [of _ _ c acts s] unfolding writes_ok_def set_append by blast

lemma handle_sockets:
  assumes step: "sys_trace (sys_step lib e (pr_sys p)) = sys_trace (pr_sys p) @ new"
    and client: "client.chain_ok (pr_client p)" "writes_ok (pr_client p) (by_client (sys_trace (pr_sys p)))"
    and sv: "passes_handlers (pr_acceptor p)" and ok: "\<And>w. session_ok (pr_sessions p w) (w \<in> T)"
    and tb: "server_table (sys_monitor (sys_step lib e (pr_sys p))) = T - closes (by_server new)"
    and cl: "\<And>w. w \<in> closes (by_server new) \<Longrightarrow>
      w \<in> T \<or> (\<exists>s. pr_sessions p w = Some s \<and> phase_of s \<noteq> Opening)"
    and quiet: "Wc_Connect \<notin> set (by_client new)"
  shows "sockets_ok (handle lib e p)"
proof -
  have "session_ok (fold ask_session (by_server new) (pr_sessions p) w) (w \<in> T - closes (by_server new))" for w
    using session_ok_asked [OF ask_sessions_same [of w "by_server new" "pr_sessions p"] ok cl] by simp
  then show ?thesis
    using step client sv tb passes_handlers_ask ask_sockets_quiet [OF quiet] writes_ok_ask
    by (simp add: sockets_ok_def handle_def Let_def)
qed

section \<open>A turn is a step of the system, or nothing\<close>

definition process_ok :: "network \<Rightarrow> 'w process \<Rightarrow> bool" where
  "process_ok net0 p \<longleftrightarrow> sys_ok net0 (pr_sys p) \<and> (sys_failed (pr_sys p) \<or> sockets_ok p)"

definition advances ::
  "('j, 'pt) monitor_lib \<Rightarrow> network \<Rightarrow> 'w process \<Rightarrow> 'w process \<Rightarrow> bool" where
  "advances lib net0 p p' \<longleftrightarrow> process_ok net0 p' \<and>
     (pr_sys p' = pr_sys p \<or> (\<exists>e. sys_allowed e (pr_sys p) \<and> pr_sys p' = sys_step lib e (pr_sys p)))"

lemma handle_sys [simp]:
  "pr_sys (handle lib e p) = sys_step lib e (pr_sys p)" "pr_stopped (handle lib e p) = pr_stopped p"
  by (simp_all add: handle_def Let_def)

lemma advances_same: "process_ok net0 p' \<Longrightarrow> pr_sys p' = pr_sys p \<Longrightarrow> advances lib net0 p p'"
  by (simp add: advances_def)

lemma sockets_okD:
  assumes "sockets_ok p"
  shows "client.chain_ok (pr_client p)" "writes_ok (pr_client p) (by_client (sys_trace (pr_sys p)))"
    "passes_handlers (pr_acceptor p)"
    "\<And>w. session_ok (pr_sessions p w) (w \<in> server_table (sys_monitor (pr_sys p)))"
  using assms by (simp_all add: sockets_ok_def)

lemma handle_calm:
  assumes step: "sys_step lib e (pr_sys p) = absorb (res, m', acts) s0"
    and s0: "sys_trace s0 = sys_trace (pr_sys p)" and c: "calm (sys_monitor (pr_sys p)) acts m'" and ok: "sockets_ok p"
  shows "sockets_ok (handle lib e p)"
proof (rule handle_sockets [OF _ sockets_okD [OF ok]])
  show "sys_trace (sys_step lib e (pr_sys p)) = sys_trace (pr_sys p) @ acts" by (simp add: step s0)
qed (use c in \<open>auto simp: step calm_def\<close>)

context monitor_service
begin

lemma handle_advances:
  assumes "sys_ok net0 (pr_sys p)" and "pr_sys p' = pr_sys p" and "sys_allowed e (pr_sys p)"
    and "\<not> sys_failed (sys_step lib e (pr_sys p)) \<Longrightarrow> sockets_ok (handle lib e p')"
  shows "advances lib net0 p (handle lib e p')"
  using assms sys_step_ok [of net0 "pr_sys p" e] by (auto simp: advances_def process_ok_def)

subsection \<open>The client\<close>

lemma socket_event_fits:
  "socket_event a = Some e \<Longrightarrow> ws_client_event e \<and> \<not> is_connect e \<and>
     (\<forall>failed h. e = Cl_Sent failed h \<longrightarrow> (\<exists>ec. a = User_Sent (Of_Send h) ec))"
  by (elim socket_eventE) simp_all

lemma client_event_allowed:
  "ws_client_event e \<Longrightarrow> (\<And>failed h. e = Cl_Sent failed h \<Longrightarrow> list_ex (sent_with h) tr) \<Longrightarrow>
   client_allowed e (cl, tr)"
  by (cases e) auto

lemma handle_client_ok:
  assumes ok: "sockets_ok p" and run: "\<not> sys_failed (pr_sys p)" and m: "sys_ok net0 (pr_sys p)" and e: "\<not> is_connect e"
  shows "sockets_ok (handle lib (Client_Event e) p)"
proof -
  let ?m = "sys_monitor (pr_sys p)"
  obtain cl where cl: "nm_client ?m = Some cl" using m by (auto simp: sys_ok_def monitor_ok_def)
  obtain cl' acts where eff: "client_effect (ml_order lib) e cl = (cl', acts)" by fastforce
  have step: "sys_step lib (Client_Event e) (pr_sys p) = absorb (client_result (ml_order lib) e cl,
      ?m\<lparr>nm_client := Some cl'\<rparr>, map By_Client acts) (pr_sys p)"
    using run by (simp add: sys_step.simps client_event_effect_def cl eff)
  show ?thesis
  proof (rule handle_sockets [OF _ sockets_okD [OF ok]])
    show "sys_trace (sys_step lib (Client_Event e) (pr_sys p)) = sys_trace (pr_sys p) @ map By_Client acts"
      by (simp add: step)
  qed (use effect_no_connect [OF e, of "ml_order lib" cl] eff in \<open>auto simp: step server_table_def\<close>)
qed

lemma client_io_advances:
  assumes ok: "sockets_ok p" and run: "\<not> sys_failed (pr_sys p)" and m: "sys_ok net0 (pr_sys p)"
    and st: "endpoint_step (wc_Connect c) (wc_complete c) (pr_client p) (Completes op ec b) v s'"
  shows "advances lib net0 p
    (fold (\<lambda>e. handle lib (Client_Event e)) (List.map_filter socket_event v) (p\<lparr>pr_client := s'\<rparr>))"
proof -
  let ?p = "p\<lparr>pr_client := s'\<rparr>"
  note mv = client_moves [OF sockets_okD(1,2) [OF ok] st]
  have ok1: "sockets_ok ?p" using ok mv(1,3) by (simp add: sockets_ok_def)
  then have p1: "process_ok net0 ?p" using m by (simp add: process_ok_def)
  then have none: "advances lib net0 p ?p" by (simp add: advances_same)
  from single_call [OF mv(2)] show ?thesis
  proof (elim disjE exE)
    fix a assume v: "v = [a]"
    show ?thesis
    proof (cases "socket_event a")
      case (Some e)
      note e = socket_event_fits [OF this]
      have "list_ex (sent_with h) (by_client (sys_trace (pr_sys p)))" if "e = Cl_Sent failed h" for failed h
        using e that mv(4) [of h] v by auto
      then have al: "sys_allowed (Client_Event e) (pr_sys p)"
        using e client_event_allowed by simp
      show ?thesis
        using handle_advances [OF m _ al] handle_client_ok [OF ok1 _ _ , of net0 e] run m e
        by (simp add: v Some map_filter_simps)
    qed (simp add: none v map_filter_simps)
  qed (simp add: none map_filter_simps)
qed

subsection \<open>The sessions\<close>

lemma session_event_call:
  assumes "session_event w newId a = Some e"
  shows "session_call ord w newId a st = (server_result ord e st, server_step ord e (st, []))"
  using assms by (elim session_eventE) (simp_all split: prod.splits)

lemma session_no_event:
  assumes "session_event w newId a = None"
  shows "\<exists>acts. session_call ord w newId a st = (Returns (), st, acts) \<and> closes acts = {}"
  using assms by (cases a) auto

lemma session_event_allowed:
  assumes "session_event w newId a = Some e" and "\<And>ec. a = User_Connect ec \<Longrightarrow> w \<notin> table st"
    and "map_of (sv_sessions st) newId = None" and "id_ok newId"
  shows "ws_server_event e \<and> server_allowed e (st, tr)"
  using assms by (elim session_eventE) (auto simp: table_def)

text \<open>An event of a session, after the completion that it comes from.\<close>

lemma session_event_advances:
  assumes ok: "sockets_ok p" and run: "\<not> sys_failed (pr_sys p)" and m: "sys_ok net0 (pr_sys p)"
    and sv: "nm_server (sys_monitor (pr_sys p)) = Some sv" and al: "sys_allowed (Server_Event e) (pr_sys p)"
    and call: "\<And>st' acts. server_result (ml_order lib) e sv = Returns () \<Longrightarrow>
      server_step (ml_order lib) e (sv, []) = (st', acts) \<Longrightarrow> call_ok w s' sv acts st'"
  shows "advances lib net0 p (handle lib (Server_Event e) (p\<lparr>pr_sessions := (pr_sessions p)(w \<mapsto> s')\<rparr>))"
proof (rule handle_advances [OF m _ al])
  let ?p = "p\<lparr>pr_sessions := (pr_sessions p)(w \<mapsto> s')\<rparr>" and ?m = "sys_monitor (pr_sys p)"
  have each: "session_ok (pr_sessions p w') (w' \<in> table sv)" for w'
    using sockets_okD(4) [OF ok, of w'] sv by (simp add: server_table_def)
  obtain st' acts where eff: "server_step (ml_order lib) e (sv, []) = (st', acts)" by fastforce
  have step: "sys_step lib (Server_Event e) (pr_sys ?p) = absorb (server_result (ml_order lib) e sv,
      ?m\<lparr>nm_server := Some st'\<rparr>, map By_Server acts) (pr_sys p)"
    using run by (simp add: sys_step.simps server_event_effect_def sv eff)
  assume good: "\<not> sys_failed (sys_step lib (Server_Event e) (pr_sys p))"
  have "server_result (ml_order lib) e sv = Returns ()"
    using good step by (cases "server_result (ml_order lib) e sv") auto
  from call [OF this eff] show "sockets_ok (handle lib (Server_Event e) ?p)"
  proof (rule call_ok_table [OF _ each])
    fix T assume T: "\<And>w'. session_ok (((pr_sessions p)(w \<mapsto> s')) w') (w' \<in> T)" "table st' = T - closes acts"
      "\<And>w'. w' \<in> closes acts \<Longrightarrow> w' \<in> T \<or> (\<exists>x. ((pr_sessions p)(w \<mapsto> s')) w' = Some x \<and> phase_of x \<noteq> Opening)"
    show ?thesis
    proof (rule handle_sockets [where T = T])
      show "sys_trace (sys_step lib (Server_Event e) (pr_sys ?p)) =
          sys_trace (pr_sys ?p) @ map By_Server acts" by (simp only: step) simp
      show "w' \<in> T \<or> (\<exists>x. pr_sessions ?p w' = Some x \<and> phase_of x \<noteq> Opening)"
        if "w' \<in> closes (by_server (map By_Server acts))" for w'
        using T(3) [of w'] that by simp
    qed (use sockets_okD [OF ok] T(1,2) step in \<open>simp_all add: server_table_def del: fun_upd_apply\<close>)
  qed
qed simp

text \<open>A completion of which the server is not told.\<close>

lemma session_quiet_advances:
  assumes ok: "sockets_ok p" and m: "sys_ok net0 (pr_sys p)" and sv: "nm_server (sys_monitor (pr_sys p)) = Some sv"
    and call: "call_ok w s' sv acts sv" and none: "closes acts = {}"
  shows "advances lib net0 p (p\<lparr>pr_sessions := (pr_sessions p)(w \<mapsto> s')\<rparr>)"
proof -
  have each: "session_ok (pr_sessions p w') (w' \<in> table sv)" for w'
    using sockets_okD(4) [OF ok, of w'] sv by (simp add: server_table_def)
  show ?thesis
  proof (rule call_ok_table [OF call each])
    fix T assume "\<And>w'. session_ok (((pr_sessions p)(w \<mapsto> s')) w') (w' \<in> T)" "table sv = T - closes acts"
    then have "sockets_ok (p\<lparr>pr_sessions := (pr_sessions p)(w \<mapsto> s')\<rparr>)"
      using sockets_okD [OF ok] sv none by (simp add: sockets_ok_def server_table_def)
    then show ?thesis using m by (intro advances_same) (simp_all add: process_ok_def)
  qed
qed

lemma session_io_advances:
  assumes ok: "sockets_ok p" and run: "\<not> sys_failed (pr_sys p)" and m: "sys_ok net0 (pr_sys p)"
    and s: "pr_sessions p w = Some s" and st: "endpoint_step ss_Connect ss_complete s (Completes op ec b) v s'"
    and new: "map_of (sv_sessions (the (nm_server (sys_monitor (pr_sys p))))) newId = None" "id_ok newId"
  shows "advances lib net0 p
    (fold (\<lambda>e. handle lib (Server_Event e)) (List.map_filter (session_event w newId) v)
      (p\<lparr>pr_sessions := (pr_sessions p)(w \<mapsto> s')\<rparr>))"
proof -
  obtain sv where sv: "nm_server (sys_monitor (pr_sys p)) = Some sv" "maps_agree sv"
    using m by (auto simp: sys_ok_def monitor_ok_def server_inv_def)
  have ok_w: "session_ok (Some s) (w \<in> table sv)"
    using sockets_okD(4) [OF ok, of w] s sv(1) by (simp add: server_table_def)
  then have "session.chain_ok s" by (simp add: session_ok_def)
  note ref = session.endpoint_refines [OF this st]
  note tb = order.session_calls_table [OF sv(2) ok_w conjunct1 [OF ref] conjunct2 [OF ref], of newId]
  note quiet = session_quiet_advances [OF ok m sv(1)]
  from single_call [OF conjunct2 [OF ref]] show ?thesis
  proof (elim disjE exE)
    assume v: "v = []"
    have "call_ok w s' sv [] sv" by (rule tb) (simp add: v)
    from quiet [OF this] show ?thesis by (simp add: v map_filter_simps)
  next
    fix a assume v: "v = [a]"
    show ?thesis
    proof (cases "session_event w newId a")
      case None
      from session_no_event [OF this] obtain acts
        where a: "session_call (ml_order lib) w newId a sv = (Returns (), sv, acts)" "closes acts = {}" by blast
      have "call_ok w s' sv acts sv" by (rule tb) (simp only: v session_calls_one a)
      from quiet [OF this a(2)] show ?thesis by (simp add: None v map_filter_simps)
    next
      case (Some e)
      have "phase_of s = Opening" if "a = User_Connect ec'" for ec'
        by (rule completion_cases(2) [OF conjunct2 [OF ref]]) (use v that in auto)
      then have "w \<notin> table sv" if "a = User_Connect ec'" for ec'
        using that ok_w by (auto simp: session_ok_def)
      then have al: "sys_allowed (Server_Event e) (pr_sys p)"
        using session_event_allowed [OF Some _ new [unfolded sv(1) option.sel]] sv(1) by simp
      have "call_ok w s' sv acts st'"
        if "server_result (ml_order lib) e sv = Returns ()" "server_step (ml_order lib) e (sv, []) = (st', acts)"
        for st' acts
        by (rule tb) (simp only: v session_calls_one session_event_call [OF Some] that)
      from session_event_advances [OF ok run m sv(1) al this] show ?thesis
        by (simp add: v Some map_filter_simps)
    qed
  qed
qed

subsection \<open>The acceptor\<close>

lemma accept_io_advances:
  assumes ok: "sockets_ok p" and run: "\<not> sys_failed (pr_sys p)" and m: "sys_ok net0 (pr_sys p)"
    and new: "pr_sessions p w = None"
  shows "advances lib net0 p
    (fold (accept_one lib) (ws_accepted ec w (pr_acceptor p)) (p\<lparr>pr_accepting := False\<rparr>))"
proof (cases "ec = No_Error")
  case True
  let ?s = "\<lparr>st_peer = fst (ss_Connect True True True new_session :: ws_peer \<times> string ws_action list),
    st_pending = [Dispatch]\<rparr> :: string ws_state"
  have acts: "ws_accepted ec w (pr_acceptor p) =
      [New_Session w (st_peer ?s) (snd (ss_Connect True True True new_session)), Accept]"
    using True sockets_okD(3) [OF ok]
    by (simp add: ws_accepted_def OnConnectionAccepted_def AcceptConnection_def passes_handlers_def ss_Connect_def)
  have "w \<notin> server_table (sys_monitor (pr_sys p))"
    using sockets_okD(4) [OF ok, of w] new by (simp add: session_ok_def)
  then have "session_ok (Some ?s) (w \<in> server_table (sys_monitor (pr_sys p)))"
    using accepted_session by (simp add: session_ok_def)
  then have "sockets_ok (p\<lparr>pr_sessions := (pr_sessions p)(w \<mapsto> ?s), pr_accepting := True\<rparr>)"
    using sockets_okD [OF ok] by (simp add: sockets_ok_def)
  then show ?thesis
    using m by (simp add: acts advances_def process_ok_def ss_Connect_def)
next
  case False
  let ?p = "p\<lparr>pr_accepting := False\<rparr>" and ?m = "sys_monitor (pr_sys p)"
  have ok': "sockets_ok ?p" using ok by (simp add: sockets_ok_def)
  obtain sv where sv: "nm_server ?m = Some sv" using m by (auto simp: sys_ok_def monitor_ok_def)
  have "sys_step lib (Server_Down True) (pr_sys ?p) =
      absorb (Returns (), ?m, map By_Server (server_OnWsDisconnect True sv)) (pr_sys p)"
    using run by (simp add: sys_step.simps server_down_effect_def sv)
  then have "sockets_ok (handle lib (Server_Down True) ?p)"
    by (intro handle_sockets [where T = "server_table ?m" and new = "map By_Server (server_OnWsDisconnect True sv)"])
      (simp_all add: sockets_okD [OF ok])
  then have "advances lib net0 p (handle lib (Server_Down True) ?p)"
    using ok' m by (intro handle_advances) (simp_all add: process_ok_def)
  moreover have "advances lib net0 p ?p" using ok' m by (simp add: advances_same process_ok_def)
  ultimately show ?thesis
    using False by (simp add: ws_accepted_def OnConnectionAccepted_def AcceptConnection_def)
qed

subsection \<open>The callbacks\<close>

lemma run_client_advances:
  assumes ok: "sockets_ok p" and run: "\<not> sys_failed (pr_sys p)" and m: "sys_ok net0 (pr_sys p)" and new: "id_ok newId"
  shows "advances lib net0 p (handle lib (Deliver_Client newId) p)"
proof (rule handle_advances)
  show "sockets_ok (handle lib (Deliver_Client newId) p)"
  proof (cases "sys_client_posts (pr_sys p)")
    case Nil
    then have "sys_step lib (Deliver_Client newId) (pr_sys p) = pr_sys p" using run by (simp add: sys_step.simps)
    then show ?thesis using ok by (simp add: handle_def Let_def)
  next
    case (Cons a rest)
    obtain res m' acts where e: "call_client_handler lib newId a (sys_monitor (pr_sys p)) = (res, m', acts)"
      by (metis prod_cases3)
    have "sys_step lib (Deliver_Client newId) (pr_sys p) =
        absorb (res, m', acts) ((pr_sys p)\<lparr>sys_client_posts := rest\<rparr>)"
      using run Cons by (simp add: sys_step.simps e)
    moreover have "calm (sys_monitor (pr_sys p)) acts m'"
      using keeps_okD [OF keeps_call_client_handler [OF new] _ e] m by (auto simp: sys_ok_def)
    ultimately show ?thesis
      by (intro handle_calm [where ?s0.0 = "(pr_sys p)\<lparr>sys_client_posts := rest\<rparr>" and res = res] ok) simp_all
  qed
qed (use assms in \<open>simp_all add: process_ok_def\<close>)

lemma run_server_advances:
  assumes ok: "sockets_ok p" and run: "\<not> sys_failed (pr_sys p)" and m: "sys_ok net0 (pr_sys p)" and new: "id_ok newId"
  shows "advances lib net0 p (handle lib (Deliver_Server newId) p)"
proof (rule handle_advances)
  show "sockets_ok (handle lib (Deliver_Server newId) p)"
  proof (cases "sys_server_posts (pr_sys p)")
    case Nil
    then have "sys_step lib (Deliver_Server newId) (pr_sys p) = pr_sys p" using run by (simp add: sys_step.simps)
    then show ?thesis using ok by (simp add: handle_def Let_def)
  next
    case (Cons a rest)
    obtain res m' acts where e: "call_server_handler lib newId a (sys_monitor (pr_sys p)) = (res, m', acts)"
      by (metis prod_cases3)
    have "sys_step lib (Deliver_Server newId) (pr_sys p) =
        absorb (res, m', acts) ((pr_sys p)\<lparr>sys_server_posts := rest\<rparr>)"
      using run Cons by (simp add: sys_step.simps e)
    moreover have "calm (sys_monitor (pr_sys p)) acts m'"
    proof (cases "\<exists>e i. a = Client_Connected e i")
      case True
      then show ?thesis
        using e by (auto simp: OnQuietRouteClientConnect_def set_error_def finish_def intro!: calm_nothing)
    next
      case False
      then have "keeps_ok net0 (call_server_handler lib newId a)" by (intro keeps_call_server_handler) blast
      from keeps_okD [OF this _ e] m show ?thesis by (auto simp: sys_ok_def)
    qed
    ultimately show ?thesis
      by (intro handle_calm [where ?s0.0 = "(pr_sys p)\<lparr>sys_server_posts := rest\<rparr>" and res = res] ok) simp_all
  qed
qed (use assms in \<open>simp_all add: process_ok_def\<close>)

subsection \<open>Every turn\<close>

lemma process_turn_advances:
  assumes ok: "process_ok net0 p" and al: "process_allowed e p"
  shows "advances lib net0 p (process_turn lib e p)"
proof (cases "sys_failed (pr_sys p)")
  case True
  then have "sys_step lib f (pr_sys p) = pr_sys p" for f by (simp add: sys_step.simps)
  then show ?thesis
    using ok True by (cases e) (simp_all add: advances_def process_ok_def monitor_Stop_def)
next
  case run: False
  then have so: "sockets_ok p" and m: "sys_ok net0 (pr_sys p)" using ok by (simp_all add: process_ok_def)
  have same: "advances lib net0 p p" using ok by (simp add: advances_def)
  show ?thesis
  proof (cases e)
    case (Client_Io op ec b)
    show ?thesis
    proof (cases "endpoint_exec (wc_Connect (pr_wc p)) (wc_complete (pr_wc p)) (Completes op ec b) (pr_client p)")
      case None
      then show ?thesis using same run by (simp add: Client_Io del: endpoint_exec.simps)
    next
      case (Some r)
      obtain s' v where r: "r = (s', v)" by fastforce
      from Some have "endpoint_step (wc_Connect (pr_wc p)) (wc_complete (pr_wc p)) (pr_client p) (Completes op ec b) v s'"
        by (simp only: endpoint_exec_iff r)
      from client_io_advances [OF so run m this] show ?thesis
        using run Some by (simp add: Client_Io r del: endpoint_exec.simps)
    qed
  next
    case (Session_Io w op ec b newId)
    show ?thesis
    proof (cases "pr_sessions p w")
      case None
      then show ?thesis using same run by (simp add: Session_Io)
    next
      case s: (Some s)
      show ?thesis
      proof (cases "endpoint_exec ss_Connect ss_complete (Completes op ec b) s")
        case None
        then show ?thesis using same run s by (simp add: Session_Io del: endpoint_exec.simps)
      next
        case (Some r)
        obtain s' v where r: "r = (s', v)" by fastforce
        from Some have "endpoint_step ss_Connect ss_complete s (Completes op ec b) v s'"
          by (simp only: endpoint_exec_iff r)
        from session_io_advances [OF so run m s this, of newId] show ?thesis
          using run s Some al by (simp add: Session_Io r del: endpoint_exec.simps)
      qed
    qed
  next
    case Stop_Run
    then show ?thesis
      using so m by (intro advances_same) (simp_all add: monitor_Stop_def process_ok_def sockets_ok_def)
  qed (use run al accept_io_advances [OF so run m] run_client_advances [OF so run m]
      run_server_advances [OF so run m] in simp_all)
qed

lemma process_step_advances:
  "process_ok net0 p \<Longrightarrow> process_allowed e p \<Longrightarrow> advances lib net0 p (process_step lib e p)"
  using process_turn_advances [of net0 p e] by (simp add: process_step_def advances_same)

end

section \<open>Every run\<close>

locale running_process = running_monitor lib m acts
  for lib :: "('j, 'pt) monitor_lib" and m :: "'w monitor" and acts +
  assumes connected: "sockets_ok (process_start m acts)"

sublocale running_process \<subseteq>
  process: stuttering_machine "process_start m acts" "process_step lib" process_allowed
    "process_ok (nm_network m)" pr_sys "sys_step lib" sys_allowed
proof unfold_locales
  show "process_ok (nm_network m) (process_start m acts)"
    using machine.init_inv connected by (simp add: process_ok_def process_start_def split_beta Let_def)
qed (use process_step_advances in \<open>auto simp: advances_def\<close>)

context running_process
begin

lemma process_run:
  assumes "all_allowed (process_step lib) process_allowed es (process_start m acts)"
  shows "process_ok (nm_network m) (run_all (process_step lib) es (process_start m acts))"
    and "\<exists>fs. all_allowed (sys_step lib) sys_allowed fs (booted m acts) \<and>
      run_all (sys_step lib) fs (booted m acts) = pr_sys (run_all (process_step lib) es (process_start m acts))"
proof -
  have "pr_sys (process_start m acts) = booted m acts" by (simp add: process_start_def split_beta Let_def)
  then show "\<exists>fs. all_allowed (sys_step lib) sys_allowed fs (booted m acts) \<and>
      run_all (sys_step lib) fs (booted m acts) = pr_sys (run_all (process_step lib) es (process_start m acts))"
    using process.abstract_run [OF assms] by simp
qed (rule process.run_from_init [OF assms])

end

lemma process_starts:
  assumes "configured lib w config fs m"
  shows "sockets_ok (process_start m [By_Client Wc_Connect])"
proof -
  let ?p = "process_start m [By_Client Wc_Connect]"
  have acts: "by_client [By_Client Wc_Connect] = [Wc_Connect]" by (simp add: by_client_def)
  have "chain client_start = []" by (simp add: chain_def client_start_def)
  note c = ask_socket_connect [OF this]
  have "writes_ok (fold (ask_socket wc) [Wc_Connect] client_start) ([] @ [Wc_Connect])" for wc
    by (rule writes_ok_ask) (simp add: writes_ok_def client_start_def)
  moreover have "passes_handlers (pr_acceptor ?p)"
    by (simp add: process_start_def split_beta Let_def ws_Run_def passes_handlers_def)
  moreover have "server_table (sys_monitor (pr_sys ?p)) = {}"
    using assms
    by (simp add: process_start_def split_beta Let_def booted_def monitor_Run_def server_table_def configured_def
        table_def started_def server_Run_def new_server_def)
  moreover have "client.chain_ok (pr_client ?p)" "pr_sessions ?p = Map.empty"
    "sys_trace (pr_sys ?p) = [By_Client Wc_Connect]"
    "pr_client ?p = fold (ask_socket (pr_wc ?p)) [Wc_Connect] client_start"
    using c by (simp_all add: process_start_def split_beta Let_def acts booted_def)
  ultimately show ?thesis by (simp add: sockets_ok_def acts session_ok_def)
qed

lemma configured_process:
  assumes "\<And>hs. mset (ml_order lib hs) = mset hs"
    and "Configure lib w verify certificate wsFailed config fs (new_monitor rnd) =
      ((Returns NetworkMonitorError.kOk, m, acts), fs')"
  shows "running_process lib m acts"
  using configured_runs [OF assms] process_starts configure_ok [OF assms(2)]
  by (auto simp: running_process_def running_process_axioms_def)

interpretation example_process:
  running_process example_lib example_monitor "snd (snd (fst example_configure))"
  by (rule configured_process [OF _ example_configure_eq]) (simp add: example_lib_def)

text \<open>C13: the whole process, from a configuration without an error on: in every run of the monitor on
  its sockets, whatever they complete and in whatever order, and whatever the peers send, the
  monitor's system moves as in one of its own runs, from events that the WebSocket layer may make;
  and unless a handler has thrown, the clients that the STOMP server has in its table are exactly
  the WebSocket sessions that have been opened, are being read and were not closed by the monitor.\<close>

theorem process_refines_system:
  assumes "\<And>hs. mset (ml_order lib hs) = mset hs"
    and "Configure lib w verify certificate wsFailed config fs (new_monitor rnd) =
      ((Returns NetworkMonitorError.kOk, m, acts), fs')"
    and "all_allowed (process_step lib) process_allowed es (process_start m acts)"
    and "run_all (process_step lib) es (process_start m acts) = p"
  shows "(\<exists>es'. all_allowed (sys_step lib) sys_allowed es' (booted m acts) \<and>
      run_all (sys_step lib) es' (booted m acts) = pr_sys p) \<and>
    (sys_failed (pr_sys p) \<or> (\<exists>st. nm_server (sys_monitor (pr_sys p)) = Some st \<and>
      dom (map_of (sv_connections st)) =
        {w. \<exists>s. pr_sessions p w = Some s \<and> phase_of s = Up \<and> \<not> wp_closed (st_peer s)}))"
proof -
  have "running_process lib m acts" by (rule configured_process [OF assms(1,2)])
  note run = running_process.process_run [OF this assms(3), unfolded assms(4)]
  obtain st where st: "nm_server (sys_monitor (pr_sys p)) = Some st"
    using run(1) by (auto simp: process_ok_def sys_ok_def monitor_ok_def)
  have "table st = {w. \<exists>s. pr_sessions p w = Some s \<and> phase_of s = Up \<and> \<not> wp_closed (st_peer s)}"
    if "sockets_ok p"
  proof -
    have "w \<in> table st \<longleftrightarrow>
        (\<exists>s. pr_sessions p w = Some s \<and> phase_of s = Up \<and> \<not> wp_closed (st_peer s))" for w
      using session_ok_listed [OF sockets_okD(4) [OF that, of w]] st by (simp add: server_table_def)
    then show ?thesis by blast
  qed
  then show ?thesis using run st by (auto simp: process_ok_def table_def)
qed

text \<open>The client logs in at the event service; a client of the monitor connects, and logs in.\<close>

definition example_process_events :: "nat process_event list" where
  "example_process_events =
     [Client_Io (Resolve ''h'' []) No_Error [], Accept_Io No_Error 0, Client_Io Tcp_Connect No_Error [],
      Session_Io 0 Dispatch No_Error [] ''i'', Session_Io 0 Tls_Handshake No_Error [] ''i'',
      Session_Io 0 Ws_Handshake No_Error [] ''i'', Session_Io 0 Read No_Error example_stomp ''j'',
      Client_Io Tls_Handshake No_Error [], Run_Server ''x'', Client_Io Ws_Handshake No_Error []]"

definition example_process_start :: "nat process" where
  "example_process_start = process_start example_monitor (snd (snd (fst example_configure)))"

definition example_process_finish :: "nat process" where
  "example_process_finish = run_all (process_step example_lib) example_process_events example_process_start"

lemma example_process_facts:
  "all_allowed (process_step example_lib) process_allowed example_process_events example_process_start"
  "\<not> sys_failed (pr_sys example_process_finish)"
  "phase_of (pr_client example_process_finish) = Up"
  "map_option (map fst \<circ> sv_connections) (nm_server (sys_monitor (pr_sys example_process_finish))) = Some [0]"
  by code_simp+

theorem process_refines_system_witness:
  "\<exists>s. pr_sessions example_process_finish 0 = Some s \<and> phase_of s = Up \<and> \<not> wp_closed (st_peer s)"
proof -
  have "mset (ml_order example_lib hs) = mset hs" for hs by (simp add: example_lib_def)
  from process_refines_system [OF this example_configure_eq
      example_process_facts(1) [unfolded example_process_start_def] refl]
  obtain st where st: "nm_server (sys_monitor (pr_sys example_process_finish)) = Some st"
    "dom (map_of (sv_connections st)) =
      {w. \<exists>s. pr_sessions example_process_finish w = Some s \<and> phase_of s = Up \<and> \<not> wp_closed (st_peer s)}"
    using example_process_facts(2) unfolding example_process_finish_def example_process_start_def by blast
  have "map fst (sv_connections st) = [0]" using st(1) example_process_facts(4) by simp
  then have "0 \<in> dom (map_of (sv_connections st))"
    by (metis dom_map_of_conv_image_fst list.set_map list.set_intros(1))
  then show ?thesis unfolding st(2) by simp
qed

end
