(* ===== verification/Quiet_Limits.thy ===== *)
theory Quiet_Limits
  imports Quiet_Choice
begin

text \<open>
  The limits of the quiet route: how the rounding of doubles bounds the travel time and the
  crowding that are allowed, and that, in a network whose distances stay in range, a quiet route
  always comes back, at most as much slower than the fastest route as was asked for.
\<close>

section \<open>Rounding\<close>

text \<open>
  What is used of the arithmetic of doubles: rounding respects the order, and a whole number below
  \<open>2 ^ 53\<close> is a double.
\<close>

locale rounding =
  fixes rnd :: "rat \<Rightarrow> rat"
  assumes rnd_mono: "x \<le> y \<Longrightarrow> rnd x \<le> rnd y"
    and rnd_exact: "n < 2 ^ 53 \<Longrightarrow> rnd (of_nat n) = of_nat n"
begin

lemma rnd_nat: "rnd (of_int (uint (c :: u32))) = of_int (uint c)"
proof -
  have "unat c < 2 ^ 32" using unsigned_less [of c] by simp
  then have "unat c < 2 ^ 53" by simp
  from rnd_exact [OF this] show ?thesis by (simp flip: uint_nat)
qed

lemma rnd_0_1 [simp]: "rnd 0 = 0" "rnd 1 = 1"
  using rnd_exact [of 0] rnd_exact [of 1] by simp_all

lemma slowdown_factor: "0 \<le> slow \<Longrightarrow> 1 \<le> rnd (1 + slow)"
  using rnd_mono [of 1 "1 + slow"] by simp

lemma to_unsigned_floor:
  assumes "0 \<le> x" and "x < 2 ^ 32"
  shows "to_unsigned x = Returns (word_of_int \<lfloor>x\<rfloor>) \<and> int (unat (word_of_int \<lfloor>x\<rfloor> :: u32)) = \<lfloor>x\<rfloor>"
proof -
  have "0 \<le> \<lfloor>x\<rfloor>" "\<lfloor>x\<rfloor> < 2 ^ 32" using assms by (simp_all add: floor_less_iff)
  then have "uint (word_of_int \<lfloor>x\<rfloor> :: u32) = \<lfloor>x\<rfloor>" by (simp add: uint_word_of_int_eq take_bit_int_eq_self)
  then show ?thesis using assms by (simp add: to_unsigned_def)
qed

text \<open>The time limit is at least the time of the fastest path and at most the slowed down time.\<close>

lemma max_travel_time_bounds:
  assumes "0 \<le> slow" and lt: "rnd (of_nat (unat t) * rnd (1 + slow)) < 2 ^ 32"
  shows "\<exists>T. max_travel_time rnd t slow = Returns T \<and> t \<le> T \<and>
    of_nat (unat T) \<le> rnd (of_nat (unat t) * rnd (1 + slow))"
proof -
  let ?x = "rnd (of_nat (unat t) * rnd (1 + slow))"
  have "of_nat (unat t) * 1 \<le> of_nat (unat t) * rnd (1 + slow)"
    by (intro mult_left_mono slowdown_factor assms of_nat_0_le_iff)
  from rnd_mono [OF this] have ge: "of_nat (unat t) \<le> ?x"
    using rnd_nat [of t] by simp
  then have "0 \<le> ?x" by (meson of_nat_0_le_iff order_trans)
  from to_unsigned_floor [OF this lt] obtain T :: u32
    where T: "to_unsigned ?x = Returns T" "int (unat T) = \<lfloor>?x\<rfloor>" by blast
  have "int (unat t) \<le> \<lfloor>?x\<rfloor>" using ge by (simp add: le_floor_iff)
  then have "t \<le> T" unfolding word_le_nat_alt using T(2) by linarith
  moreover have "of_int (int (unat T)) \<le> ?x" unfolding T(2) by (rule of_int_floor_le)
  then have "of_nat (unat T) \<le> ?x" by (simp only: of_int_of_nat_eq)
  ultimately show ?thesis using T(1) by (auto simp: max_travel_time_def)
qed

text \<open>The crowding limit exists and is at most the crowding of the fastest path.\<close>

lemma max_crowding_bounds:
  assumes "0 \<le> quiet" and "quiet \<le> 1"
  shows "\<exists>M. max_crowding rnd c quiet = Returns M \<and> M \<le> c"
proof -
  let ?f = "rnd (1 - quiet)" and ?x = "rnd (of_int (uint c) * rnd (1 - quiet))"
  have c: "0 \<le> (of_int (uint c) :: rat)" unfolding of_int_0_le_iff by (rule uint_ge_0)
  have f: "0 \<le> ?f" "?f \<le> 1" using rnd_mono [of 0 "1 - quiet"] rnd_mono [of "1 - quiet" 1] assms by simp_all
  have "of_int (uint c) * ?f \<le> of_int (uint c) * 1" using f(2) c by (intro mult_left_mono)
  from rnd_mono [OF this] have le: "?x \<le> of_int (uint c)" by (simp only: mult_1_right rnd_nat)
  have "0 \<le> of_int (uint c) * ?f" using f(1) c by (intro mult_nonneg_nonneg)
  from rnd_mono [OF this] have ge: "0 \<le> ?x" by simp
  have "(of_int (uint c) :: rat) < of_int (2 ^ 32)" unfolding of_int_less_iff using uint_bounded [of c] by simp
  then have "?x < 2 ^ 32" using le by simp
  from to_unsigned_floor [OF ge this] obtain M :: u32
    where M: "to_unsigned ?x = Returns M" "int (unat M) = \<lfloor>?x\<rfloor>" by blast
  have "\<lfloor>?x\<rfloor> \<le> uint c" using le by (simp add: floor_le_iff)
  then have "M \<le> c" using M(2) by (simp add: word_le_def)
  then show ?thesis using M(1) by (auto simp: max_crowding_def)
qed

end

section \<open>No path is longer than the network\<close>

definition longest :: "network \<Rightarrow> nat" where
  "longest net = (length (edges net) + 1) * max_step net"

lemma no_overflow_longest: "no_overflow net d \<longleftrightarrow> d + longest net < 2 ^ 32"
  by (simp add: no_overflow_def longest_def)

context stl_laws
begin

lemma least_bound:
  assumes wf: "wf_network net" and s: "ps_node s < length (nodes net)" and sB: "ps_node s \<noteq> B"
    and no: "no_overflow net 0" and best: "best_path net X (s, 0) B p"
  shows "unat (snd (last p)) \<le> longest net"
proof -
  have no0: "no_overflow net (unat (0 :: u32))" using no by simp
  from dijkstra_loop_result [OF wf no0 sB s, of X] obtain st where
    c: "core net X B s 0 st" and f: "frontier net X B st" and q: "nodesToVisit st = []" by blast
  obtain t where t: "ps_node t = B" "journey net X s (unat (0 :: u32)) t (unat (snd (last p)))"
    using best by (auto simp: best_path_def reachable_at_def)
  obtain b d where b: "ps_node b = B" "dist_of st b = Some d"
    using journey_recorded [OF t(2) c f q] t(1) by blast
  then have e: "journey net X s (unat (0 :: u32)) b (unat d)" "unat d \<le> dist_bound net 0 st"
    using c by (simp_all add: core_def entry_ok_def)
  have "unat (snd (last p)) \<le> unat d"
    using best e(1) b(1) by (auto simp: best_path_def reachable_at_def)
  also have "\<dots> \<le> (length (distFromA st) - 1) * max_step net" using e(2) by (simp add: dist_bound_def)
  also have "\<dots> \<le> longest net"
    unfolding longest_def using core_length [OF wf c] by (intro mult_le_mono1) simp
  finally show ?thesis .
qed

end

section \<open>The quiet route always comes back\<close>

text \<open>
  As long as the time limit of the longest route and the longest route itself are in range, neither
  the search for the fastest route nor the one within the time limit wraps around.
\<close>

context rounding
begin

lemma range_no_overflow:
  assumes slow: "0 \<le> slow" and range: "rnd (of_nat (longest net) * rnd (1 + slow)) + of_nat (longest net) < 2 ^ 32"
  shows "no_overflow net 0"
proof -
  have "1 \<le> rnd (1 + slow)" by (rule slowdown_factor [OF slow])
  then have "rnd 0 \<le> rnd (of_nat (longest net) * rnd (1 + slow))" by (intro rnd_mono) simp
  then have "(of_nat (longest net) :: rat) < 2 ^ 32" using range rnd_0_1(1) by linarith
  then have "of_nat (longest net) < (of_nat (2 ^ 32) :: rat)" by (simp only: of_nat_power of_nat_numeral)
  then have "longest net < 2 ^ 32" unfolding of_nat_less_iff .
  then show ?thesis by (simp add: no_overflow_longest)
qed

lemma time_limit_in_range:
  assumes slow: "0 \<le> slow" and range: "rnd (of_nat (longest net) * rnd (1 + slow)) + of_nat (longest net) < 2 ^ 32"
    and t: "unat t \<le> longest net"
  obtains T where "max_travel_time rnd t slow = Returns T" and "t \<le> T"
    and "of_nat (unat T) \<le> rnd (of_nat (unat t) * rnd (1 + slow))"
    and "no_overflow net (max (unat t) (unat T))"
proof -
  let ?f = "rnd (1 + slow)" and ?L = "of_nat (longest net) :: rat"
  have f: "1 \<le> ?f" by (rule slowdown_factor [OF slow])
  have "of_nat (unat t) \<le> ?L" using t unfolding of_nat_le_iff .
  moreover have "0 \<le> ?f" using f by linarith
  ultimately have "of_nat (unat t) * ?f \<le> ?L * ?f" by (rule mult_right_mono)
  then have x: "rnd (of_nat (unat t) * ?f) \<le> rnd (?L * ?f)" by (rule rnd_mono)
  then have "rnd (of_nat (unat t) * ?f) < 2 ^ 32"
    using range of_nat_0_le_iff [of "longest net", where 'a = rat] by linarith
  then obtain T where T: "max_travel_time rnd t slow = Returns T" "t \<le> T"
    "of_nat (unat T) \<le> rnd (of_nat (unat t) * ?f)"
    using max_travel_time_bounds [OF slow] by blast
  have "of_nat (unat T) + ?L < 2 ^ 32" using T(3) x range by linarith
  then have "of_nat (unat T + longest net) < (of_nat (2 ^ 32) :: rat)"
    by (simp only: of_nat_add of_nat_numeral of_nat_power)
  then have "unat T + longest net < 2 ^ 32" unfolding of_nat_less_iff .
  then have "no_overflow net (max (unat t) (unat T))"
    using T(2) by (simp add: no_overflow_longest word_le_nat_alt)
  then show thesis using T by (intro that)
qed

end

text \<open>The case where there is a route.\<close>

lemma quiet_route_exists:
  assumes lib: "stl_laws lib" and rnd: "rounding rnd" and wf: "wf_network net"
    and reg: "edges_registered net" and cb: "counts_bounded net"
    and slow: "0 \<le> slow" and quiet: "0 \<le> quiet" "quiet \<le> 1"
    and range: "rnd (of_nat (longest net) * rnd (1 + slow)) + of_nat (longest net) < 2 ^ 32"
    and a: "GetStation net sa = Some a" and b: "GetStation net sb = Some b" and ne: "sa \<noteq> sb"
    and p: "shortest_path lib net (start_stop a) b {} = Returns p" and best: "best_path net {} (start_stop a) b p"
  obtains fast tr where "GetFastestTravelRoute lib net sa sb = Returns fast"
    and "GetQuietTravelRoute lib rnd net sa sb slow quiet maxN = Returns tr"
    and "tr_steps fast \<noteq> []" and "tr_steps tr \<noteq> []" and "valid_travel_route net tr"
    and "tr_startStationId tr = sa" and "tr_endStationId tr = sb"
    and "tr_totalTravelTime fast \<le> tr_totalTravelTime tr"
    and "of_nat (unat (tr_totalTravelTime tr)) \<le>
      rnd (of_nat (unat (tr_totalTravelTime fast)) * rnd (1 + slow))"
proof -
  let ?t = "snd (last p)"
  have ab: "a \<noteq> b" using GetStation_same [OF wf a b] ne by simp
  have al: "a < length (nodes net)" using a wf_GetStation [OF wf] by simp
  have no: "no_overflow net 0" by (rule rounding.range_no_overflow [OF rnd slow range])
  have ne': "p \<noteq> []" using best by (simp add: best_path_def valid_path_def)
  have "unat ?t \<le> longest net"
    using stl_laws.least_bound [OF lib wf, of "fst (start_stop a)" b "{}" p] al ab no best
    by (simp add: start_stop_def)
  from rounding.time_limit_in_range [OF rnd slow range this] obtain T
    where T: "max_travel_time rnd ?t slow = Returns T" "?t \<le> T"
      "of_nat (unat T) \<le> rnd (of_nat (unat ?t) * rnd (1 + slow))"
    and noT: "no_overflow net (max (unat ?t) (unat T))" by blast
  obtain M where M: "max_crowding rnd (crowding net p) quiet = Returns M"
    using rounding.max_crowding_bounds [OF rnd quiet] by blast
  obtain tr paths q where tr: "GetQuietTravelRoute lib rnd net sa sb slow quiet maxN = Returns tr"
    "GetFastestTravelRoutes lib rnd net a b slow maxN = Returns paths" "q \<in> set paths"
    "assemble_route net sa sb q = Returns tr" "valid_travel_route net tr"
    using quiet_choice [OF lib wf reg a b ne p ne' T(1) noT cb M] by blast
  have cand: "paths \<noteq> []" "hd paths = p" "valid_path net {} (start_stop a) b q"
    "\<forall>q \<in> set (tl paths). snd (last q) \<le> T"
    using candidates_result [OF lib wf al ab p ne' T(1) noT, of maxN] tr(2,3) by auto
  have q: "tr_startStationId tr = sa" "tr_endStationId tr = sb" "tr_steps tr \<noteq> []"
    "tr_totalTravelTime tr = snd (last q)"
    using assemble_route_valid [OF wf reg cand(3) ab a b] tr(4) by auto
  have "q = p \<or> q \<in> set (tl paths)" using tr(3) cand(1,2) by (cases paths) auto
  then have qT: "snd (last q) \<le> T" using T(2) cand(4) by auto
  have pv: "valid_path net {} (start_stop a) b p" using best by (simp add: best_path_def)
  from assemble_route_valid [OF wf reg this ab a b] obtain fast where
    fast: "assemble_route net sa sb p = Returns fast" "tr_steps fast \<noteq> []" "tr_totalTravelTime fast = ?t"
    by blast
  then have gf: "GetFastestTravelRoute lib net sa sb = Returns fast"
    using a b ab p ne' by (simp add: GetFastestTravelRoute_def)
  have "travels net sa (tr_steps tr) sb" using tr(5) q(1,2) by (simp add: travels_def valid_travel_route_def)
  from travels_reachable [OF wf this a b] have "unat ?t \<le> unat (tr_totalTravelTime tr)"
    using best tr(5) by (simp add: best_path_def valid_travel_route_def)
  then have "tr_totalTravelTime fast \<le> tr_totalTravelTime tr" using fast(3) by (simp add: word_le_nat_alt)
  moreover have "of_nat (unat (snd (last q))) \<le> (of_nat (unat T) :: rat)"
    using qT unfolding of_nat_le_iff word_le_nat_alt .
  then have "of_nat (unat (tr_totalTravelTime tr)) \<le>
      rnd (of_nat (unat (tr_totalTravelTime fast)) * rnd (1 + slow))"
    using T(3) q(4) fast(3) by (metis order_trans)
  ultimately show thesis using gf tr(1,5) fast(2) q(1-3) by (intro that)
qed

lemma quiet_route_limits:
  assumes lib: "stl_laws lib" and rnd: "rounding rnd" and wf: "wf_network net"
    and reg: "edges_registered net" and cb: "counts_bounded net"
    and slow: "0 \<le> slow" and quiet: "0 \<le> quiet" "quiet \<le> 1"
    and range: "rnd (of_nat (longest net) * rnd (1 + slow)) + of_nat (longest net) < 2 ^ 32"
    and a: "GetStation net sa = Some a" and b: "GetStation net sb = Some b" and ne: "sa \<noteq> sb"
  shows "\<exists>fast tr. GetFastestTravelRoute lib net sa sb = Returns fast \<and>
    GetQuietTravelRoute lib rnd net sa sb slow quiet maxN = Returns tr \<and>
    (tr_steps tr = [] \<longleftrightarrow> tr_steps fast = []) \<and> (tr_steps tr \<noteq> [] \<longrightarrow> valid_travel_route net tr) \<and>
    tr_startStationId tr = sa \<and> tr_endStationId tr = sb \<and>
    tr_totalTravelTime fast \<le> tr_totalTravelTime tr \<and>
    of_nat (unat (tr_totalTravelTime tr)) \<le>
      rnd (of_nat (unat (tr_totalTravelTime fast)) * rnd (1 + slow))"
proof -
  have ab: "a \<noteq> b" using GetStation_same [OF wf a b] ne by simp
  have al: "a < length (nodes net)" using a wf_GetStation [OF wf] by simp
  have no: "no_overflow net 0" by (rule rounding.range_no_overflow [OF rnd slow range])
  have "(\<exists>p. shortest_path lib net (start_stop a) b {} = Returns p \<and>
      best_path net {} (start_stop a) b p) \<or>
    shortest_path lib net (start_stop a) b {} = Returns [] \<and>
      (\<nexists>c. reachable_at net {} (start_stop a) b c)"
    by (rule stl_laws.search_result [OF lib wf]) (use al no ab in \<open>simp_all add: start_stop_def\<close>)
  then consider (none) "shortest_path lib net (start_stop a) b {} = Returns []"
    | (path) p where "shortest_path lib net (start_stop a) b {} = Returns p" "best_path net {} (start_stop a) b p"
    by blast
  then show ?thesis
  proof cases
    case none
    then have "GetFastestTravelRoute lib net sa sb = Returns (no_path_route sa sb)"
      "GetQuietTravelRoute lib rnd net sa sb slow quiet maxN = Returns (no_path_route sa sb)"
      using a b ab
      by (simp_all add: GetFastestTravelRoute_def GetQuietTravelRoute_def GetFastestTravelRoutes_def)
    then show ?thesis using rounding.rnd_0_1(1) [OF rnd] by (simp add: no_path_route_def)
  next
    case (path p)
    from quiet_route_exists [OF assms path, of maxN] show ?thesis by blast
  qed
qed

text \<open>For any two IDs: unknown stations and a single station are answered as in the fastest route.\<close>

lemma quiet_route_returns:
  assumes lib: "stl_laws lib" and rnd: "rounding rnd" and wf: "wf_network net"
    and reg: "edges_registered net" and cb: "counts_bounded net"
    and slow: "0 \<le> slow" and quiet: "0 \<le> quiet" "quiet \<le> 1"
    and range: "rnd (of_nat (longest net) * rnd (1 + slow)) + of_nat (longest net) < 2 ^ 32"
  shows "\<exists>fast tr. GetFastestTravelRoute lib net sa sb = Returns fast \<and>
    GetQuietTravelRoute lib rnd net sa sb slow quiet maxN = Returns tr \<and>
    (tr_steps tr = [] \<longleftrightarrow> tr_steps fast = []) \<and>
    (GetStation net sa \<noteq> None \<and> GetStation net sb \<noteq> None \<longrightarrow>
       tr_startStationId tr = sa \<and> tr_endStationId tr = sb \<and>
       (sa \<noteq> sb \<and> tr_steps tr \<noteq> [] \<longrightarrow> valid_travel_route net tr)) \<and>
    tr_totalTravelTime fast \<le> tr_totalTravelTime tr \<and>
    of_nat (unat (tr_totalTravelTime tr)) \<le>
      rnd (of_nat (unat (tr_totalTravelTime fast)) * rnd (1 + slow))"
proof -
  consider (unknown) "GetStation net sa = None \<or> GetStation net sb = None"
    | (same) a where "GetStation net sa = Some a" "sa = sb"
    | (route) a b where "GetStation net sa = Some a" "GetStation net sb = Some b" "sa \<noteq> sb"
    by (cases "GetStation net sa"; cases "GetStation net sb"; cases "sa = sb") auto
  then show ?thesis
  proof cases
    case unknown
    then have "GetFastestTravelRoute lib net sa sb = Returns empty_travel_route"
      "GetQuietTravelRoute lib rnd net sa sb slow quiet maxN = Returns empty_travel_route"
      by (auto simp: GetFastestTravelRoute_def GetQuietTravelRoute_def split: option.splits)
    then show ?thesis
      using unknown rounding.rnd_0_1(1) [OF rnd] by (auto simp: empty_travel_route_def)
  next
    case same
    then show ?thesis
      using rounding.rnd_0_1(1) [OF rnd]
      by (simp add: GetFastestTravelRoute_def GetQuietTravelRoute_def same_station_route_def)
  next
    case route
    from quiet_route_limits [OF assms this, of maxN] show ?thesis by auto
  qed
qed

text \<open>C5: in a network whose distances stay in range, and for a slowdown that is not negative and a
  quietness between 0 and 1, a quiet route always comes back, for any two IDs: it is empty exactly
  when the fastest route is, it is a valid journey between the two stations, and its time lies
  between the time of the fastest route and this time slowed down as requested, as computed in
  doubles.\<close>

theorem quiet_route_in_time:
  assumes "stl_laws lib" and "rounding rnd" and "wf_network net"
    and "edges_registered net" and "counts_bounded net"
    and "0 \<le> slow" and "0 \<le> quiet" "quiet \<le> 1"
    and "rnd (of_nat (longest net) * rnd (1 + slow)) + of_nat (longest net) < 2 ^ 32"
  shows "\<exists>fast tr. GetFastestTravelRoute lib net sa sb = Returns fast \<and>
    GetQuietTravelRoute lib rnd net sa sb slow quiet maxN = Returns tr \<and>
    (tr_steps tr = [] \<longleftrightarrow> tr_steps fast = []) \<and>
    (GetStation net sa \<noteq> None \<and> GetStation net sb \<noteq> None \<longrightarrow>
       tr_startStationId tr = sa \<and> tr_endStationId tr = sb \<and>
       (sa \<noteq> sb \<and> tr_steps tr \<noteq> [] \<longrightarrow> valid_travel_route net tr)) \<and>
    tr_totalTravelTime fast \<le> tr_totalTravelTime tr \<and>
    of_nat (unat (tr_totalTravelTime tr)) \<le>
      rnd (of_nat (unat (tr_totalTravelTime fast)) * rnd (1 + slow))"
  by (rule quiet_route_returns [OF assms])

interpretation ten_bits: rounding example_rnd
proof unfold_locales
  show "example_rnd x \<le> example_rnd y" if "x \<le> y" for x y
    using that by (simp add: example_rnd_def divide_right_mono floor_mono)
  show "example_rnd (of_nat n) = of_nat n" if "n < 2 ^ 53" for n
  proof -
    have "(of_nat n * 1024 :: rat) = of_int (int n * 1024)" by simp
    then have "\<lfloor>of_nat n * 1024 :: rat\<rfloor> = int n * 1024" by (metis floor_of_int)
    then show ?thesis by (simp add: example_rnd_def)
  qed
qed

lemma quiet_route_in_time_witness:
  "\<exists>fast tr. GetFastestTravelRoute ref_stl example_net ''A'' ''C'' = Returns fast \<and>
    GetQuietTravelRoute ref_stl example_rnd example_net ''A'' ''C'' (1 / 10) (1 / 10) 5 = Returns tr \<and>
    tr_totalTravelTime fast \<le> tr_totalTravelTime tr"
proof -
  have "example_rnd (of_nat (longest example_net) * example_rnd (1 + 1 / 10)) + of_nat (longest example_net) < 2 ^ 32"
    by code_simp
  from quiet_route_in_time [OF ref_lib.stl_laws_axioms ten_bits.rounding_axioms example_net_wf
      example_registered example_counts _ _ _ this, of "1 / 10" "''A''" "''C''" 5] show ?thesis by auto
qed

end
