(* ===== verification/Monitor_Requests.thy ===== *)
theory Monitor_Requests
  imports Monitor_Props Quiet_Limits
begin

text \<open>
  Requests to the monitor: the answer to a quiet-route request, and what is lost: clients that the
  server rejects and errors that are overwritten.
\<close>

section \<open>Quiet routes\<close>




section \<open>What is lost\<close>

text \<open>C38: a client that is listed as connected and sends text that the server's parser rejects loses its
  session, but stays on the list of connected clients: no callback is posted, neither for the error
  nor for the end of the WebSocket session.\<close>

theorem rejected_client_stays_listed:
  assumes "\<And>hs. mset (ml_order lib hs) = mset hs" and "\<not> sys_failed s"
    and "nm_server (sys_monitor s) = Some st" and "maps_agree st"
    and "map_of (sv_connections st) w = Some c" and "cn_id c \<in> nm_connectedClients (sys_monitor s)"
    and "StompFrame_parse msg = (Returns e, f)" and "e \<noteq> StompError.kOk"
  shows "\<exists>s' st'. run_all (sys_step lib)
      [Server_Event (Ev_Message False w msg), Server_Event (Ev_Disconnect failed w)] s = s' \<and>
    \<not> sys_failed s' \<and> sys_server_posts s' = sys_server_posts s \<and>
    nm_server (sys_monitor s') = Some st' \<and> map_of (sv_sessions st') (cn_id c) = None \<and>
    cn_id c \<in> nm_connectedClients (sys_monitor s')"
proof -
  have l: "header_layout (ml_order lib)" by unfold_locales (rule assms(1))
  let ?st = "drop_session (cn_id c) w st"
  obtain reply where "CloseConnection (ml_order lib) (cn_id c) w kCouldNotParseFrame None st =
      (Returns (), ?st, [Ws_Send w reply None, Ws_Close w None])"
    using header_layout.CloseConnection_error [OF l, of kCouldNotParseFrame "cn_id c" w None st] by auto
  then have msg: "OnWsSessionMessage (ml_order lib) False w msg st =
      (Returns (), ?st, [Ws_Send w reply None, Ws_Close w None])"
    using assms(5,7,8) by (simp add: OnWsSessionMessage_def)
  have dis: "OnWsSessionDisconnect failed w ?st = (?st, [])"
    by (simp add: OnWsSessionDisconnect_def drop_session_def delete_conv')
  let ?s1 = "s\<lparr>sys_monitor := (sys_monitor s)\<lparr>nm_server := Some ?st\<rparr>,
    sys_trace := sys_trace s @ [By_Server (Ws_Send w reply None), By_Server (Ws_Close w None)]\<rparr>"
  have s1: "sys_step lib (Server_Event (Ev_Message False w msg)) s = ?s1"
    using assms(2,3)
    by (simp add: sys_step.simps server_event_effect_def msg absorb_def by_client_def by_server_def)
  have s2: "sys_step lib (Server_Event (Ev_Disconnect failed w)) ?s1 = ?s1"
    using assms(2) by (simp add: sys_step.simps server_event_effect_def dis absorb_def)
  have "map_of (sv_sessions ?st) (cn_id c) = None" by (simp add: drop_session_def delete_conv')
  then show ?thesis
    using assms(2,6) by (intro exI [of _ ?s1] exI [of _ ?st]) (simp add: s1 s2)
qed

text \<open>A failed subscription leaves no trace in the error code.\<close>

lemma OnSubscribe_masks:
  "OnSubscribe ec i m = (Returns (), m\<lparr>nm_lastErrorCode := NetworkMonitorError.kOk\<rparr>, [])"
  by (simp add: OnSubscribe_def set_error_def finish_def)

section \<open>On the example\<close>

lemma example_order: "mset (ml_order example_lib hs) = mset hs"
  by (simp add: example_lib_def)

text \<open>One client of the server is connected.\<close>

definition example_listed :: "nat system" where
  "example_listed = run_all (sys_step example_lib) example_run_events example_start"

definition example_session :: Connection where
  "example_session = \<lparr>cn_id = ''i'', cn_status = ConnectionStatus.kConnected\<rparr>"

definition example_server :: "nat stomp_server" where
  "example_server = the (nm_server (sys_monitor example_listed))"



lemma example_listed_facts:
  "\<not> sys_failed example_listed" "sys_server_posts example_listed = []"
  "nm_server (sys_monitor example_listed) = Some example_server" "sv_onClientMessage example_server"
  "map_of (sv_connections example_server) 0 = Some example_session"
  "map_of (sv_sessions example_server) (cn_id example_session) = Some 0"
  "cn_status example_session = ConnectionStatus.kConnected"
  "cn_id example_session \<in> nm_connectedClients (sys_monitor example_listed)"
  by code_simp+






lemma rejected_client_stays_listed_witness:
  "\<exists>s'. run_all (sys_step example_lib)
      [Server_Event (Ev_Message False 0 ''hello''), Server_Event (Ev_Disconnect False 0)] example_listed = s' \<and>
    ''i'' \<in> nm_connectedClients (sys_monitor s') \<and> sys_server_posts s' = []"
proof -
  have p: "StompFrame_parse ''hello'' =
      (Returns kParsingMissingEolAfterCommand, snd (StompFrame_parse ''hello''))"
    by code_simp
  have "running_monitor example_lib example_monitor (snd (snd (fst example_configure)))"
    by (rule configured_runs [OF example_order example_configure_eq])
  from running_monitor.every_state [OF this example_run_allowed [unfolded example_start_def]]
  have "monitor_ok (nm_network example_monitor) (sys_trace example_listed) (sys_monitor example_listed)"
    by (simp add: sys_ok_def example_listed_def example_start_def)
  from monitor_ok_server [OF this example_listed_facts(3)] have "maps_agree example_server"
    by (simp add: server_inv_def)
  from rejected_client_stays_listed [OF example_order example_listed_facts(1,3) this example_listed_facts(5,8) p,
      of False] show ?thesis
    by (auto simp: example_session_def example_listed_facts(2))
qed

text \<open>The monitor's client is connected and has subscribed.\<close>

definition example_passengers :: Subscription where
  "example_passengers = \<lparr>sub_destination = ''/passengers'', sub_onSubscribe = True, sub_onMessage = True\<rparr>"

definition example_subscribed :: "nat system" where
  "example_subscribed = run_all (sys_step example_lib)
     [Client_Event (Cl_WsConnected False),
      Client_Event (Cl_WsMessage False (frame_text StompCommand.kConnected [(StompHeader.kVersion, ''1.2'')] [] [])),
      Deliver_Client ''s'', Client_Event (Cl_Sent False (Sent_Subscribe ''s'' example_passengers))]
     example_start"

definition example_event_message :: string where
  "example_event_message = frame_text StompCommand.kMessage
     [(kSubscription, ''s''), (kMessageId, ''1''), (kDestination, ''/passengers'')] ''event'' []"

definition example_passenger :: "unit PassengerEvent" where
  "example_passenger = \<lparr>ev_stationId = ''B'', ev_type = In, ev_timestamp = ()\<rparr>"

lemma example_subscribed_facts:
  "\<not> sys_failed example_subscribed" "sys_client_posts example_subscribed = []"
  "nm_network (sys_monitor example_subscribed) = nm_network example_monitor"
  "nm_client (sys_monitor example_subscribed) = Some (the (nm_client (sys_monitor example_subscribed)))"
  "map_of (cl_subscriptions (the (nm_client (sys_monitor example_subscribed)))) ''s'' = Some example_passengers"
  "sub_onMessage example_passengers" "sub_destination example_passengers = subscriptionDestination"
  by code_simp+

lemma example_event_facts:
  "StompFrame_parse example_event_message = (Returns StompError.kOk, snd (StompFrame_parse example_event_message))"
  "GetCommand (snd (StompFrame_parse example_event_message)) = StompCommand.kMessage"
  "GetHeaderValue (snd (StompFrame_parse example_event_message)) kSubscription = ''s''"
  "GetHeaderValue (snd (StompFrame_parse example_event_message)) kDestination = subscriptionDestination"
  "read_event example_lib (GetBody (snd (StompFrame_parse example_event_message))) = Returns example_passenger"
  "GetPassengerCount (nm_network (sys_monitor example_subscribed)) (ev_stationId example_passenger) = Returns 0"
  by code_simp+

lemma passenger_event_counted_witness:
  "\<exists>s'. run_all (sys_step example_lib)
      [Client_Event (Cl_WsMessage False example_event_message), Deliver_Client ''x''] example_subscribed = s' \<and>
    GetPassengerCount (nm_network (sys_monitor s')) ''B'' = Returns 1"
proof -
  have wf: "wf_network (nm_network (sys_monitor example_subscribed))"
    unfolding example_subscribed_facts(3) using configure_ok [OF example_configure_eq] by blast
  have b: "\<bar>0 :: int\<bar> < llong_max" by (simp add: llong_max_def)
  show ?thesis
    using passenger_event_counted [OF example_subscribed_facts(1,2) wf example_subscribed_facts(4-7)
        example_event_facts b, of "''x''"]
    by (simp add: example_passenger_def)
qed

end
