(* ===== verification/Process_Requests.thy ===== *)
theory Process_Requests
  imports Process_Sockets Monitor_Requests
begin

text \<open>
  A request from the socket to the socket: what a read of a session brings in is handled by the
  STOMP server and by the monitor, and the answer is written to that session.
\<close>

section \<open>What a turn does to the sockets\<close>






section \<open>The answer\<close>








section \<open>Passenger events\<close>









end
