(* ===== verification/Monitor_Main.thy ===== *)
theory Monitor_Main
  imports Monitor_Requests File_Downloader
begin

text \<open>
  The process, \<^verbatim>\<open>src/main.cpp\<close>: its configuration from the environment variables, the run of
  the monitor, and its exit code.
\<close>

section \<open>std::stoi\<close>

definition is_space :: "char \<Rightarrow> bool" where
  "is_space c \<longleftrightarrow> (of_char c :: nat) \<in> {9, 10, 11, 12, 13, 32}"

text \<open>
  Leading blanks, a sign, and the longest prefix of digits; what follows is ignored. Without a digit,
  or when the number does not fit in an \<^verbatim>\<open>int\<close>, it throws.
\<close>

definition stoi :: "string \<Rightarrow> int outcome" where
  "stoi s =
     (let t = dropWhile is_space s;
          (sign, u) = (case t of
             c # r \<Rightarrow> if c = CHR ''-'' then (- 1, r) else if c = CHR ''+'' then (1, r) else (1, t)
           | [] \<Rightarrow> (1, []));
          ds = takeWhile is_digit u; n = sign * int (digits_value 0 ds)
      in if ds = [] then Fault (Runtime_Error ''stoi'')
         else if n < - (2 ^ 31) \<or> 2 ^ 31 \<le> n then Fault Out_Of_Range
         else Returns n)"

section \<open>main\<close>

type_synonym environment = "string \<rightharpoonup> string"

definition main_config :: "(rat \<Rightarrow> rat) \<Rightarrow> environment \<Rightarrow> NetworkMonitorConfig outcome" where
  "main_config rnd env =
     bindO (GetEnvVar env ''LTNM_SERVER_URL'' (Some ''ltnm.learncppthroughprojects.com'')) (\<lambda>url.
     bindO (GetEnvVar env ''LTNM_SERVER_PORT'' (Some ''443'')) (\<lambda>port.
     bindO (GetEnvVar env ''LTNM_USERNAME'' None) (\<lambda>username.
     bindO (GetEnvVar env ''LTNM_PASSWORD'' None) (\<lambda>password.
     bindO (GetEnvVar env ''LTNM_CACERT_PATH'' (Some ''cacert.pem'')) (\<lambda>caCert.
     bindO (GetEnvVar env ''LTNM_NETWORK_LAYOUT_FILE_PATH'' (Some [])) (\<lambda>layout.
       Returns
         \<lparr>nc_networkEventsUrl = url, nc_networkEventsPort = port, nc_networkEventsUsername = username,
          nc_networkEventsPassword = password, nc_caCertFile = caCert, nc_networkLayoutFile = layout,
          nc_quietRouteHostname = ''127.0.0.1'', nc_quietRouteIp = ''127.0.0.1'',
          nc_quietRoutePort = 8042, nc_quietRouteMaxSlowdownPc = rnd (1 / 10),
          nc_quietRouteMinQuietnessPc = rnd (1 / 10), nc_quietRouteMaxNPaths = 20\<rparr>))))))"

text \<open>
  The end of the process. \<open>events\<close> are what the I/O context handles in the given time, and 0 is
  no limit. An exception, from \<^verbatim>\<open>main\<close> or from a handler that the I/O context runs, is not
  caught: the process ends without an exit code of its own.
\<close>

datatype process_end = Exit int | Terminated

definition monitor_main ::
  "('j, 'pt) monitor_lib \<Rightarrow> 'j world \<Rightarrow> (string \<Rightarrow> unit outcome) \<Rightarrow> unit outcome \<Rightarrow> bool \<Rightarrow>
   environment \<Rightarrow> (int \<Rightarrow> 'w sys_event list) \<Rightarrow> files \<Rightarrow> process_end" where
  "monitor_main lib w verify certificate wsFailed env events fs =
     (case bindO (main_config (ml_rnd lib) env) (\<lambda>config.
           bindO (GetEnvVar env ''LTNM_TIMEOUT_MS'' (Some ''0'')) (\<lambda>s.
           bindO (stoi s) (\<lambda>timeoutMs. Returns (config, timeoutMs)))) of
        Returns (config, timeoutMs) \<Rightarrow>
          (case Configure lib w verify certificate wsFailed config fs (new_monitor (ml_rnd lib)) of
             ((Returns error, m, acts), fs') \<Rightarrow>
               (if error \<noteq> NetworkMonitorError.kOk then Exit (- 1)
                else
                  let s = run_all (sys_step lib) (events timeoutMs) (booted m acts)
                  in if sys_failed s then Terminated
                     else if GetLastErrorCode (sys_monitor s) = NetworkMonitorError.kOk then Exit 0
                     else Exit (- 2))
           | _ \<Rightarrow> Terminated)
      | _ \<Rightarrow> Terminated)"

section \<open>The exit code\<close>

lemma stoi_range: "stoi s = Returns n \<Longrightarrow> - (2 ^ 31) \<le> n \<and> n < 2 ^ 31"
  by (auto simp: stoi_def Let_def split: if_splits prod.splits)

text \<open>Without an account, or with a time limit that is no number, nothing is configured.\<close>

lemma main_needs_account:
  assumes "env ''LTNM_USERNAME'' = None \<or> env ''LTNM_PASSWORD'' = None"
  shows "monitor_main lib w verify certificate wsFailed env events fs = Terminated"
proof -
  have "\<exists>x. main_config rnd env = Fault x" for rnd :: "rat \<Rightarrow> rat"
    using assms by (cases "env ''LTNM_USERNAME''"; cases "env ''LTNM_SERVER_URL''"; cases "env ''LTNM_SERVER_PORT''")
      (auto simp: main_config_def GetEnvVar_def)
  then obtain x where "main_config (ml_rnd lib) env = Fault x" by blast
  then show ?thesis by (simp add: monitor_main_def)
qed

text \<open>The exit code 0 is that of a run in which the last handler left no error.\<close>

lemma main_success:
  assumes "monitor_main lib w verify certificate wsFailed env events fs = Exit 0"
  shows "\<exists>config timeoutMs m acts fs' s.
    main_config (ml_rnd lib) env = Returns config \<and>
    Configure lib w verify certificate wsFailed config fs (new_monitor (ml_rnd lib)) =
      ((Returns NetworkMonitorError.kOk, m, acts), fs') \<and>
    s = run_all (sys_step lib) (events timeoutMs) (booted m acts) \<and> \<not> sys_failed s \<and>
    nm_lastErrorCode (sys_monitor s) = NetworkMonitorError.kOk"
  using assms
  by (fastforce simp: monitor_main_def GetLastErrorCode_def Let_def outcome_simps
      split: outcome.splits prod.splits if_splits)

text \<open>Three processes of the small network: one that runs, one that is cut off from the event service,
  and one without the layout file.\<close>

definition example_env :: environment where
  "example_env = [''LTNM_SERVER_URL'' \<mapsto> ''h'', ''LTNM_USERNAME'' \<mapsto> ''u'', ''LTNM_PASSWORD'' \<mapsto> ''p'',
     ''LTNM_CACERT_PATH'' \<mapsto> ''ca'', ''LTNM_NETWORK_LAYOUT_FILE_PATH'' \<mapsto> ''layout'',
     ''LTNM_TIMEOUT_MS'' \<mapsto> '' +5000ms'']"

lemma main_examples:
  "stoi '' +5000ms'' = Returns 5000"
  "monitor_main example_lib example_world (\<lambda>_. Returns ()) (Returns ()) False example_env
     (\<lambda>_. example_run_events) example_files = Exit 0"
  "monitor_main example_lib example_world (\<lambda>_. Returns ()) (Returns ()) False example_env
     (\<lambda>_. [Client_Event (Cl_WsConnected True), Deliver_Client ''x''] :: nat sys_event list)
     example_files = Exit (- 2)"
  "monitor_main example_lib example_world (\<lambda>_. Returns ()) (Returns ()) False example_env
     (\<lambda>_. example_run_events) [''ca'' \<mapsto> []] = Exit (- 1)"
  by code_simp+

end
