(* ===== verification/Monitor_Callbacks.thy ===== *)
theory Monitor_Callbacks
  imports Monitor_Requests
begin

text \<open>
  The callbacks of the server: what a client can put into one, that the monitor's handlers never
  throw, and that every callback the server posts is called.
\<close>

section \<open>The ID of a request\<close>



fun request_id_ok :: "'w server_action \<Rightarrow> bool" where
  "request_id_ok (Client_Message e i d r m) \<longleftrightarrow> newLine \<notin> set r"
| "request_id_ok _ \<longleftrightarrow> True"

definition posts_ok :: "'w system \<Rightarrow> bool" where
  "posts_ok s \<longleftrightarrow> (\<forall>a \<in> set (sys_server_posts s). request_id_ok a)"







lemma posts_ok_update [simp]:
  "posts_ok (s\<lparr>sys_client_posts := rest\<rparr>) = posts_ok s"
  "posts_ok (s\<lparr>sys_server_posts := rest'\<rparr>) \<longleftrightarrow> (\<forall>a \<in> set rest'. request_id_ok a)"
  by (simp_all add: posts_ok_def)


section \<open>No handler throws\<close>



text \<open>A handler that returns, and leaves the network and the configuration alone.\<close>

definition calm :: "('a, 'w) effect \<Rightarrow> 'w monitor \<Rightarrow> bool" where
  "calm eff m \<longleftrightarrow>
     returned (fst eff) \<and> nm_network (fst (snd eff)) = nm_network m \<and>
     nm_config (fst (snd eff)) = nm_config m"

lemma calm_simps [simp]:
  "calm (finish m') m \<longleftrightarrow> nm_network m' = nm_network m \<and> nm_config m' = nm_config m"
  "calm (set_error e m') m \<longleftrightarrow> nm_network m' = nm_network m \<and> nm_config m' = nm_config m"
  by (simp_all add: calm_def finish_def set_error_def)





section \<open>Every callback is called\<close>








end
