(* ===== verification/Tube_Map.thy ===== *)
theory Tube_Map
  imports Network_Lines Network_Machine
begin

text \<open>
  An abstract network: the passenger count of every station, the travel time of every direct
  connection in one direction, and the stops of every route of every line, all by ID. The network
  of objects and references implements it: every operation on the one is the operation on the other,
  with the same result.
\<close>

section \<open>The abstract network and its operations\<close>

record tube_map =
  tm_counts :: "Id \<rightharpoonup> int"
  tm_times :: "Id \<Rightarrow> Id \<rightharpoonup> u32"
  tm_lines :: "Id \<rightharpoonup> (Id \<rightharpoonup> Id list)"

definition empty_map :: tube_map where
  "empty_map = \<lparr>tm_counts = Map.empty, tm_times = (\<lambda>_. Map.empty), tm_lines = Map.empty\<rparr>"

definition map_AddStation :: "Id \<Rightarrow> tube_map \<Rightarrow> bool \<times> tube_map" where
  "map_AddStation sid M =
     (if tm_counts M sid \<noteq> None then (False, M) else (True, M\<lparr>tm_counts := (tm_counts M)(sid \<mapsto> 0)\<rparr>))"

text \<open>The direct connections of a route: a new one has no travel time yet.\<close>

definition lay :: "Id list \<Rightarrow> (Id \<Rightarrow> Id \<rightharpoonup> u32) \<Rightarrow> Id \<Rightarrow> Id \<rightharpoonup> u32" where
  "lay stops T = (\<lambda>a b. if T a b = None \<and> (a, b) \<in> set (hops stops) then Some 0 else T a b)"

text \<open>The routes of a new line are added one by one; what was laid before a failure stays.\<close>

fun map_add_routes ::
  "Id set \<Rightarrow> Route list \<Rightarrow> (Id \<rightharpoonup> Id list) \<times> (Id \<Rightarrow> Id \<rightharpoonup> u32) \<Rightarrow>
   bool outcome \<times> (Id \<rightharpoonup> Id list) \<times> (Id \<Rightarrow> Id \<rightharpoonup> u32)" where
  "map_add_routes K [] (R, T) = (Returns True, R, T)"
| "map_add_routes K (rt # rts) (R, T) =
     (if R (rt_id rt) \<noteq> None \<or> \<not> set (rt_stops rt) \<subseteq> K then (Returns False, R, T)
      else if rt_stops rt = [] then (Fault Undefined_Behaviour, R, T)
      else map_add_routes K rts (R(rt_id rt \<mapsto> rt_stops rt), lay (rt_stops rt) T))"

definition map_AddLine :: "Line \<Rightarrow> tube_map \<Rightarrow> bool outcome \<times> tube_map" where
  "map_AddLine line M =
     (if tm_lines M (ln_id line) \<noteq> None then (Returns False, M)
      else
        let (res, R, T) = map_add_routes (dom (tm_counts M)) (ln_routes line) (Map.empty, tm_times M)
        in (res, if res = Returns True then M\<lparr>tm_times := T, tm_lines := (tm_lines M)(ln_id line \<mapsto> R)\<rparr>
                 else M\<lparr>tm_times := T\<rparr>))"

definition map_RecordPassengerEvent :: "'pt PassengerEvent \<Rightarrow> tube_map \<Rightarrow> bool outcome \<times> tube_map" where
  "map_RecordPassengerEvent ev M =
     (case tm_counts M (ev_stationId ev) of
        None \<Rightarrow> (Returns False, M)
      | Some c \<Rightarrow>
          let c' = (case ev_type ev of In \<Rightarrow> c + 1 | Out \<Rightarrow> c - 1)
          in if c = (case ev_type ev of In \<Rightarrow> llong_max | Out \<Rightarrow> llong_min) then (Fault Undefined_Behaviour, M)
             else (Returns True, M\<lparr>tm_counts := (tm_counts M)(ev_stationId ev \<mapsto> c')\<rparr>))"

definition map_SetTravelTime :: "Id \<Rightarrow> Id \<Rightarrow> u32 \<Rightarrow> tube_map \<Rightarrow> bool \<times> tube_map" where
  "map_SetTravelTime a b t M =
     (tm_times M a b \<noteq> None \<or> tm_times M b a \<noteq> None,
      M\<lparr>tm_times := (\<lambda>x y. if {x, y} = {a, b} \<and> tm_times M x y \<noteq> None then Some t else tm_times M x y)\<rparr>)"

definition map_GetTravelTime :: "tube_map \<Rightarrow> Id \<Rightarrow> Id \<Rightarrow> u32" where
  "map_GetTravelTime M a b =
     (case tm_times M a b of
        Some t \<Rightarrow> t
      | None \<Rightarrow> (case tm_times M b a of Some t \<Rightarrow> t | None \<Rightarrow> 0))"

section \<open>The abstraction\<close>

definition time_at :: "network \<Rightarrow> node_ref \<Rightarrow> node_ref \<Rightarrow> u32 option" where
  "time_at net n m = map_option (edge_time net) (find_edge_to net n m)"

definition times_of :: "network \<Rightarrow> Id \<Rightarrow> Id \<rightharpoonup> u32" where
  "times_of net a b =
     (case (GetStation net a, GetStation net b) of
        (Some n, Some m) \<Rightarrow> time_at net n m
      | _ \<Rightarrow> None)"

definition counts_of :: "network \<Rightarrow> Id \<rightharpoonup> int" where
  "counts_of net s = map_option (\<lambda>n. gn_passengerCount (nodes net ! n)) (GetStation net s)"

definition routes_of :: "network \<Rightarrow> line_ref \<Rightarrow> Id \<rightharpoonup> Id list" where
  "routes_of net l rid = map_option (stop_ids net) (map_of (li_routes (lines net ! l)) rid)"

definition map_of_network :: "network \<Rightarrow> tube_map" where
  "map_of_network net =
     \<lparr>tm_counts = counts_of net, tm_times = times_of net,
      tm_lines = (\<lambda>l. map_option (routes_of net) (GetLine net l))\<rparr>"

lemma map_of_network_sel [simp]:
  "tm_counts (map_of_network net) = counts_of net" "tm_times (map_of_network net) = times_of net"
  "tm_lines (map_of_network net) l = map_option (routes_of net) (GetLine net l)"
  by (simp_all add: map_of_network_def)

lemma dom_counts: "dom (counts_of net) = {s. GetStation net s \<noteq> None}"
  by (auto simp: counts_of_def)

lemma empty_map: "map_of_network empty_network = empty_map"
  by (simp add: map_of_network_def empty_map_def empty_network_def counts_of_def times_of_def fun_eq_iff
      GetStation_def GetLine_def)

section \<open>Queries\<close>

lemma GetPassengerCount_map:
  "GetPassengerCount net s = Returns c \<longleftrightarrow> counts_of net s = Some c"
  by (auto simp: GetPassengerCount_def counts_of_def split: option.splits)

lemma GetTravelTime_map: "GetTravelTime net a b = map_GetTravelTime (map_of_network net) a b"
  by (auto simp: GetTravelTime_def map_GetTravelTime_def times_of_def time_at_def split: option.splits)

section \<open>Operations that keep the objects\<close>

lemma routes_of_shape:
  assumes wf: "wf_network net" and s: "same_shape net net'" and l: "l < length (lines net)"
  shows "routes_of net' l = routes_of net l"
proof
  fix rid
  have "stop_ids net' r = stop_ids net r" if "r < length (routes net)" for r
    using wf_routeD [OF wf that] same_shapeD [OF s] by (auto simp: stop_ids_def wf_route_def)
  then show "routes_of net' l rid = routes_of net l rid"
    using wf_lineD [OF wf l] same_shapeD [OF s]
    by (cases "map_of (li_routes (lines net ! l)) rid") (auto simp: routes_of_def wf_line_def)
qed

lemma lines_shape:
  assumes "wf_network net" and "same_shape net net'"
  shows "map_option (routes_of net') (GetLine net' l) = map_option (routes_of net) (GetLine net l)"
  using routes_of_shape [OF assms] wf_GetLine [OF assms(1)] same_shapeD [OF assms(2)]
  by (cases "GetLine net l") auto

lemma times_shape:
  assumes wf: "wf_network net" and s: "same_shape net net'"
    and e: "\<And>n m e. connects net n m e \<Longrightarrow> edge_time net' e = f n m (edge_time net e)"
  shows "times_of net' a b = (case (GetStation net a, GetStation net b) of
     (Some n, Some m) \<Rightarrow> map_option (f n m) (time_at net n m) | _ \<Rightarrow> None)"
proof (cases "GetStation net a = None \<or> GetStation net b = None")
  case True
  then show ?thesis by (auto simp: times_of_def same_shapeD [OF s] split: option.splits)
next
  case False
  then obtain n m where nm: "GetStation net a = Some n" "GetStation net b = Some m" by auto
  then have n: "n < length (nodes net)" using wf_GetStation [OF wf] by blast
  have "time_at net' n m = map_option (f n m) (time_at net n m)"
    using find_edge_to_Some [OF n] e
    by (cases "find_edge_to net n m") (auto simp: time_at_def find_edge_to_shape [OF wf s n] connects_def)
  then show ?thesis using nm by (simp add: times_of_def same_shapeD [OF s])
qed

lemma Record_map:
  assumes wf: "wf_network net"
  shows "fst (RecordPassengerEvent ev net) = fst (map_RecordPassengerEvent ev (map_of_network net)) \<and>
    map_of_network (snd (RecordPassengerEvent ev net)) = snd (map_RecordPassengerEvent ev (map_of_network net))"
proof -
  have upd: "map_of_network (set_count n c net) =
      (map_of_network net)\<lparr>tm_counts := (counts_of net)(ev_stationId ev \<mapsto> c)\<rparr>"
    if n: "GetStation net (ev_stationId ev) = Some n" for n c
  proof -
    note s = set_count_shape [of net n c]
    have "times_of (set_count n c net) a b = times_of net a b" for a b
      using times_shape [OF wf s, of "\<lambda>_ _ t. t" a b]
      by (simp add: times_of_def set_count_def option.map_ident split: option.split)
    moreover have "counts_of (set_count n c net) x = ((counts_of net)(ev_stationId ev \<mapsto> c)) x" for x
    proof -
      have gs: "GetStation (set_count n c net) = GetStation net" by (rule same_shapeD(7) [OF s])
      have "n < length (nodes net)" using n wf_GetStation [OF wf] by blast
      then have "gn_passengerCount (nodes (set_count n c net) ! m) =
          (if m = n then c else gn_passengerCount (nodes net ! m))" for m
        by (simp add: set_count_def nth_list_update)
      then show ?thesis
        using n GetStation_same [OF wf n, of x] by (cases "GetStation net x") (auto simp: counts_of_def gs)
    qed
    ultimately show ?thesis
      using lines_shape [OF wf s] by (simp add: map_of_network_def fun_eq_iff)
  qed
  show ?thesis
  proof (cases "GetStation net (ev_stationId ev)")
    case None
    then show ?thesis by (simp add: RecordPassengerEvent_def map_RecordPassengerEvent_def counts_of_def)
  next
    case (Some n)
    then show ?thesis
      using upd by (cases "ev_type ev")
        (auto simp: RecordPassengerEvent_def map_RecordPassengerEvent_def counts_of_def Let_def)
  qed
qed

lemma times_of_None: "GetStation net a = None \<or> GetStation net b = None \<Longrightarrow> times_of net a b = None"
  by (auto simp: times_of_def split: option.splits)

lemma times_of_connects:
  assumes wf: "wf_network net" and ab: "GetStation net sa = Some a" "GetStation net sb = Some b"
  shows "(\<exists>e. connects net a b e) \<longleftrightarrow> times_of net sa sb \<noteq> None \<or> times_of net sb sa \<noteq> None"
proof -
  have lt: "a < length (nodes net)" "b < length (nodes net)" using ab wf_GetStation [OF wf] by blast+
  have "find_edge_to net n m \<noteq> None \<longleftrightarrow> (\<exists>e. edge_at net n e \<and> next_stop net e = m)" if "n < length (nodes net)" for n m
    using find_edge_to_Some [OF that] find_edge_to_None by (cases "find_edge_to net n m") fastforce+
  from this [OF lt(1), of b] this [OF lt(2), of a] show ?thesis
    using ab by (auto simp: times_of_def time_at_def connects_def)
qed

lemma set_times_nodes: "nodes (snd (set_times t to es (found, net))) = nodes net"
  by (induction es arbitrary: found net) (auto simp: set_edge_time_def)

lemma SetTravelTime_counts: "nodes (snd (SetTravelTime sa sb t net)) = nodes net"
  using set_times_nodes by (auto simp: SetTravelTime_def split_def split: option.split) (metis prod.collapse)

lemma SetTravelTime_map:
  assumes wf: "wf_network net"
  shows "fst (SetTravelTime sa sb t net) = fst (map_SetTravelTime sa sb t (map_of_network net)) \<and>
    map_of_network (snd (SetTravelTime sa sb t net)) = snd (map_SetTravelTime sa sb t (map_of_network net))"
proof (cases "GetStation net sa = None \<or> GetStation net sb = None")
  case True
  then have none: "times_of net sa sb = None" "times_of net sb sa = None"
    using times_of_None by blast+
  then have "{x, y} = {sa, sb} \<Longrightarrow> times_of net x y = None" for x y by (auto simp: doubleton_eq_iff)
  then show ?thesis
    using none SetTravelTime_unknown [OF True]
    by (auto simp: map_SetTravelTime_def map_of_network_def fun_eq_iff)
next
  case False
  then obtain a b where ab: "GetStation net sa = Some a" "GetStation net sb = Some b" by auto
  obtain ok net' where op: "SetTravelTime sa sb t net = (ok, net')" by fastforce
  note s = SetTravelTime_shape [OF op] and ed = SetTravelTime_edges [OF wf op ab]
  have e: "edge_time net' e = (if connects net n m e \<and> {n, m} = {a, b} then t else edge_time net e)"
    if c: "connects net n m e" for n m e
    using ed(2) [OF c] connects_ends [OF wf c, of a b] connects_sym c by (auto simp: doubleton_eq_iff)
  have "times_of net' x y = (if {x, y} = {sa, sb} \<and> times_of net x y \<noteq> None then Some t else times_of net x y)" for x y
  proof (cases "GetStation net x = None \<or> GetStation net y = None")
    case True
    then show ?thesis using times_of_None same_shapeD(7) [OF s] by (metis (no_types, lifting))
  next
    case False
    then obtain n m where nm: "GetStation net x = Some n" "GetStation net y = Some m" by auto
    have "{x, y} = {sa, sb} \<longleftrightarrow> {n, m} = {a, b}"
      using nm ab by (simp add: doubleton_eq_iff GetStation_same [OF wf])
    moreover have "times_of net' x y = map_option (\<lambda>old. if {n, m} = {a, b} then t else old) (time_at net n m)"
      using times_shape [OF wf s, of "\<lambda>n m old. if {n, m} = {a, b} then t else old" x y] e nm by simp
    ultimately show ?thesis using nm by (cases "time_at net n m") (auto simp: times_of_def)
  qed
  moreover have "counts_of net' = counts_of net"
    using SetTravelTime_counts [of sa sb t net] op same_shapeD(7) [OF s] by (simp add: fun_eq_iff counts_of_def)
  moreover have "ok \<longleftrightarrow> times_of net sa sb \<noteq> None \<or> times_of net sb sa \<noteq> None"
    using ed(1) times_of_connects [OF wf ab] by simp
  ultimately show ?thesis
    using lines_shape [OF wf s] by (simp add: op map_SetTravelTime_def map_of_network_def fun_eq_iff)
qed

section \<open>A new station\<close>

lemma stops_lt:
  assumes "wf_network net" and "l < length (lines net)" and "map_of (li_routes (lines net ! l)) rid = Some r"
  shows "r < length (routes net) \<and> set (ri_stops (routes net ! r)) \<subseteq> {..<length (nodes net)}"
proof -
  have "r < length (routes net)" using wf_lineD [OF assms(1,2)] assms(3) by (simp add: wf_line_def)
  then show ?thesis using wf_routeD [OF assms(1)] by (simp add: wf_route_def)
qed

lemma AddStation_map:
  assumes wf: "wf_network net"
  shows "fst (AddStation st net) = fst (map_AddStation (st_id st) (map_of_network net)) \<and>
    map_of_network (snd (AddStation st net)) = snd (map_AddStation (st_id st) (map_of_network net))"
proof (cases "GetStation net (st_id st)")
  case (Some n)
  then show ?thesis by (simp add: AddStation_def map_AddStation_def counts_of_def)
next
  case None
  let ?k = "length (nodes net)"
  obtain net' where op: "AddStation st net = (True, net')" using None by (simp add: AddStation_def Let_def)
  note nd = AddStation_nodes [OF op] and lk = AddStation_lookup [OF op]
  have lt: "n < ?k" if "GetStation net x = Some n" for x n using that wf_GetStation [OF wf] by blast
  have edge: "e < length (edges net) \<and> next_stop net e < ?k" if "n < ?k" "e \<in> set (node_edges net n)" for n e
    using wf_edge_at [OF wf, of n e] that by (simp add: edge_at_def wf_edge_def)
  have find: "find_edge_to net' n m = (if n < ?k \<and> m < ?k then find_edge_to net n m else None)" if "n \<le> ?k" for n m
  proof (cases "n < ?k")
    case True
    then show ?thesis
      using edge [OF True] nd by (auto simp: find_edge_to_def nth_append find_None_iff cong: find_cong)
  next
    case False
    then show ?thesis using that nd by (simp add: find_edge_to_def nth_append)
  qed
  have "times_of net' x y = times_of net x y" for x y
    using lt find nd lk
    by (auto simp: times_of_def time_at_def less_imp_le split: option.splits)
  moreover have "counts_of net' x = ((counts_of net)(st_id st \<mapsto> 0)) x" for x
    using lt [of x] nd lk by (cases "GetStation net x") (auto simp: counts_of_def nth_append)
  moreover have "map_option (routes_of net') (GetLine net' l) = map_option (routes_of net) (GetLine net l)" for l
  proof (cases "GetLine net l")
    case (Some k)
    have "routes_of net' k rid = routes_of net k rid" for rid
      using stops_lt [OF wf, of k rid] wf_GetLine [OF wf Some] nd
      by (cases "map_of (li_routes (lines net ! k)) rid") (auto simp: routes_of_def stop_ids_def nth_append subset_iff)
    then show ?thesis using Some nd by (simp add: GetLine_def fun_eq_iff)
  qed (use nd in \<open>simp add: GetLine_def\<close>)
  ultimately show ?thesis
    using None by (simp add: op map_AddStation_def map_of_network_def fun_eq_iff counts_of_def)
qed

section \<open>A new line\<close>

lemma find_snoc:
  "List.find P (xs @ [x]) = (case List.find P xs of None \<Rightarrow> if P x then Some x else None | Some y \<Rightarrow> Some y)"
  by (induction xs) auto

lemma add_edge_time:
  assumes h: "fst h < length (nodes net)" and n: "n < length (nodes net)"
    and lt: "\<And>e. edge_at net n e \<Longrightarrow> e < length (edges net)"
  shows "time_at (add_edge r h net) n m =
    (if time_at net n m = None \<and> h = (n, m) then Some 0 else time_at net n m)"
proof -
  let ?net = "add_edge r h net"
  have old: "edges ?net ! e = edges net ! e" if "e \<in> set (node_edges net n)" for e
    using lt n that by (simp add: edge_at_def nth_append)
  have new: "edges ?net ! length (edges net) = \<lparr>ge_route = r, ge_nextStop = snd h, ge_travelTime = 0\<rparr>" by simp
  have list: "node_edges ?net n = node_edges net n @ (if fst h = n then [length (edges net)] else [])"
    using h by (simp add: add_edge_def Let_def nth_list_update)
  have same: "List.find (\<lambda>e. next_stop ?net e = m) (node_edges net n) = find_edge_to net n m"
    unfolding find_edge_to_def by (rule find_cong) (simp_all only: old)
  have found: "find_edge_to net n m = Some e \<Longrightarrow> e \<in> set (node_edges net n)" for e
    using find_edge_to_Some [OF n] by (simp add: edge_at_def)
  show ?thesis
  proof (cases "fst h = n")
    case True
    have "find_edge_to ?net n m = (case find_edge_to net n m of
        None \<Rightarrow> if snd h = m then Some (length (edges net)) else None | Some y \<Rightarrow> Some y)"
      using True unfolding find_edge_to_def [of ?net] list by (simp only: simp_thms if_True find_snoc same new GraphEdge.simps)
    then show ?thesis
      using True old found new by (cases "find_edge_to net n m") (auto simp: time_at_def simp del: add_edge_frame)
  next
    case False
    then have "find_edge_to ?net n m = find_edge_to net n m"
      unfolding find_edge_to_def [of ?net] list by (simp only: if_False append_Nil2 same)
    then show ?thesis
      using False old found by (cases "find_edge_to net n m") (auto simp: time_at_def simp del: add_edge_frame)
  qed
qed

lemma fold_add_edge_time:
  assumes "fst ` set hs \<subseteq> {..<length (nodes net)}" and "n < length (nodes net)"
    and "\<And>n e. edge_at net n e \<Longrightarrow> e < length (edges net)"
  shows "time_at (fold (add_edge r) hs net) n m =
    (if time_at net n m = None \<and> (n, m) \<in> set hs then Some 0 else time_at net n m)"
  using assms
proof (induction hs arbitrary: net)
  case (Cons h hs)
  have "e < length (edges (add_edge r h net))" if "edge_at (add_edge r h net) k e" for k e
    using that Cons.prems(1,3) by (fastforce simp: add_edge_edge_at)
  then have "time_at (fold (add_edge r) hs (add_edge r h net)) n m =
      (if time_at (add_edge r h net) n m = None \<and> (n, m) \<in> set hs then Some 0 else time_at (add_edge r h net) n m)"
    using Cons.prems(1,2) by (intro Cons.IH) auto
  then show ?case using add_edge_time [of h net n r m] Cons.prems by auto
qed simp

lemma hops_map: "hops (map f xs) = map (map_prod f f) (hops xs)"
  by (induction xs rule: induct_list012) simp_all

lemma hops_of_stops:
  assumes wf: "wf_network net" and st: "map (GetStation net) ids = map Some stops"
    and ab: "GetStation net a = Some n" "GetStation net b = Some m"
  shows "(n, m) \<in> set (hops stops) \<longleftrightarrow> (a, b) \<in> set (hops ids)"
proof -
  have inj: "GetStation net x = Some k \<Longrightarrow> GetStation net y = Some k \<Longrightarrow> x = y" for x y k
    using GetStation_same [OF wf, of x k y k] by simp
  have img: "(p, q) \<in> map_prod g g ` H \<longleftrightarrow> (\<exists>x y. (x, y) \<in> H \<and> g x = p \<and> g y = q)" for p q g and H :: "(Id \<times> Id) set"
    by force
  have "(n, m) \<in> set (hops stops) \<longleftrightarrow> (Some n, Some m) \<in> set (hops (map Some stops))"
    by (auto simp: hops_map)
  also have "\<dots> \<longleftrightarrow> (Some n, Some m) \<in> map_prod (GetStation net) (GetStation net) ` set (hops ids)"
    by (simp add: st [symmetric] hops_map)
  also have "\<dots> \<longleftrightarrow> (\<exists>x y. (x, y) \<in> set (hops ids) \<and> GetStation net x = Some n \<and> GetStation net y = Some m)"
    by (rule img)
  also have "\<dots> \<longleftrightarrow> (a, b) \<in> set (hops ids)"
    using ab inj by blast
  finally show ?thesis .
qed

lemma added_route:
  assumes wf: "wf_network net" and l: "l < length (lines net)"
    and op: "AddRouteToLine rt l net = (Returns True, net')"
  shows "routes_of net' l = (routes_of net l)(rt_id rt \<mapsto> rt_stops rt)"
    and "times_of net' = lay (rt_stops rt) (times_of net)" and "counts_of net' = counts_of net"
proof -
  note files = AddRouteToLine_files [OF wf l op]
  have g: "grows l net net'" using AddRouteToLine_grows [OF wf l, of rt] op by simp
  have gs: "GetStation net' = GetStation net" by (rule grows_GetStation [OF g])
  have old: "stop_ids net' r = stop_ids net r" if "map_of (li_routes (lines net ! l)) rid = Some r" for rid r
    using stops_lt [OF wf l that] stop_ids_grows(1) [OF g] by simp
  show "routes_of net' l = (routes_of net l)(rt_id rt \<mapsto> rt_stops rt)"
  proof
    fix rid show "routes_of net' l rid = ((routes_of net l)(rt_id rt \<mapsto> rt_stops rt)) rid"
      using files(1,2) old by (cases "map_of (li_routes (lines net ! l)) rid") (auto simp: routes_of_def)
  qed
  obtain stops where st: "map (GetStation net) (rt_stops rt) = map Some stops"
    and net': "net' = (fold (add_edge (length (routes net))) (hops stops)
           (net\<lparr>routes := routes net @ [\<lparr>ri_id = rt_id rt, ri_line = l, ri_stops = stops\<rparr>]\<rparr>))
        \<lparr>lines := (lines net)[l := (lines net ! l)\<lparr>li_routes :=
           AList.update (rt_id rt) (length (routes net)) (li_routes (lines net ! l))\<rparr>]\<rparr>"
    using op by (cases rule: AddRouteToLine_cases [of rt l net]) auto
  let ?net1 = "net\<lparr>routes := routes net @ [\<lparr>ri_id = rt_id rt, ri_line = l, ri_stops = stops\<rparr>]\<rparr>"
  have "set stops \<subseteq> {..<length (nodes net)}"
    using map_Some_lookup [OF st] wf_GetStation [OF wf] by blast
  then have hs: "fst ` set (hops stops) \<subseteq> {..<length (nodes ?net1)}" by (auto dest!: hops_subset)
  have lt: "e < length (edges ?net1)" if "edge_at ?net1 n e" for n e
    using that wf_edge_at [OF wf, of n e] by (simp add: edge_at_def wf_edge_def)
  have t1: "time_at ?net1 n m = time_at net n m" for n m by (simp add: time_at_def find_edge_to_def)
  have t: "time_at net' n m = (if time_at net n m = None \<and> (n, m) \<in> set (hops stops) then Some 0 else time_at net n m)"
    if "n < length (nodes net)" for n m
  proof -
    have "time_at net' n m = time_at (fold (add_edge (length (routes net))) (hops stops) ?net1) n m"
      unfolding net' by (simp add: time_at_def find_edge_to_def)
    then show ?thesis using fold_add_edge_time [where net = ?net1 and r = "length (routes net)" and n = n and m = m, OF hs _ lt] that
      by (simp add: t1)
  qed
  show "times_of net' = lay (rt_stops rt) (times_of net)"
  proof (intro ext)
    fix a b
    show "times_of net' a b = lay (rt_stops rt) (times_of net) a b"
    proof (cases "GetStation net a = None \<or> GetStation net b = None")
      case True
      have "(a, b) \<notin> set (hops (rt_stops rt))"
      proof
        assume "(a, b) \<in> set (hops (rt_stops rt))"
        then have "a \<in> set (rt_stops rt)" "b \<in> set (rt_stops rt)" by (auto dest: hops_subset)
        then have "GetStation net a \<in> set (map (GetStation net) (rt_stops rt))"
          "GetStation net b \<in> set (map (GetStation net) (rt_stops rt))" by auto
        then show False using True unfolding st by auto
      qed
      then show ?thesis
        using True times_of_None [of net a b] times_of_None [of net' a b] by (simp add: lay_def gs)
    next
      case False
      then obtain n m where nm: "GetStation net a = Some n" "GetStation net b = Some m" by auto
      then have "n < length (nodes net)" using wf_GetStation [OF wf] by blast
      then show ?thesis
        using t [of n m] hops_of_stops [OF wf st nm] nm by (simp add: times_of_def lay_def gs)
    qed
  qed
  have "gn_passengerCount (nodes net' ! n) = gn_passengerCount (nodes net ! n)" for n by (simp add: net')
  then show "counts_of net' = counts_of net" by (simp add: counts_of_def fun_eq_iff gs)
qed

lemma AddRouteToLine_map:
  assumes wf: "wf_network net" and l: "l < length (lines net)"
    and op: "AddRouteToLine rt l net = (res, net')"
  shows "map_add_routes (dom (counts_of net)) (rt # rts) (routes_of net l, times_of net) =
      (if res = Returns True then map_add_routes (dom (counts_of net')) rts (routes_of net' l, times_of net')
       else (res, routes_of net' l, times_of net')) \<and> counts_of net' = counts_of net"
proof -
  have R: "routes_of net l rid = None \<longleftrightarrow> map_of (li_routes (lines net ! l)) rid = None" for rid
    by (simp add: routes_of_def)
  have empty: "those xs = Some [] \<longleftrightarrow> xs = []" for xs :: "node_ref option list" by (simp add: those_Some_iff)
  have known: "those (map (GetStation net) (rt_stops rt)) = None \<longleftrightarrow> \<not> set (rt_stops rt) \<subseteq> dom (counts_of net)"
    unfolding those_None_iff dom_counts set_map subset_iff mem_Collect_eq by (metis imageE imageI)
  show ?thesis
  proof (cases "res = Returns True")
    case True
    then have "map_of (li_routes (lines net ! l)) (rt_id rt) = None" "rt_stops rt \<noteq> []"
      "those (map (GetStation net) (rt_stops rt)) \<noteq> None"
      using op by (auto simp: AddRouteToLine_def Let_def split: if_splits option.splits)
    then show ?thesis using added_route [OF wf l op [unfolded True]] R known True by simp
  next
    case False
    then have "net' = net" using AddRouteToLine_cases [of rt l net] op by (metis fst_conv snd_conv)
    moreover have "res = (if map_of (li_routes (lines net ! l)) (rt_id rt) \<noteq> None \<or>
        those (map (GetStation net) (rt_stops rt)) = None then Returns False else Fault Undefined_Behaviour)"
      "map_of (li_routes (lines net ! l)) (rt_id rt) \<noteq> None \<or>
        those (map (GetStation net) (rt_stops rt)) = None \<or> rt_stops rt = []"
      using op False by (auto simp: AddRouteToLine_def Let_def empty split: if_splits option.splits)
    ultimately show ?thesis using False R known by auto
  qed
qed

lemma add_routes_map:
  assumes "wf_network net" and "l < length (lines net)" and "add_routes l rts net = (res, net')"
  shows "map_add_routes (dom (counts_of net)) rts (routes_of net l, times_of net) =
      (res, routes_of net' l, times_of net') \<and> counts_of net' = counts_of net"
  using assms
proof (induction rts arbitrary: net)
  case (Cons rt rts)
  obtain res1 net1 where r1: "AddRouteToLine rt l net = (res1, net1)" by fastforce
  note m1 = AddRouteToLine_map [OF Cons.prems(1,2) r1, of rts]
  show ?case
  proof (cases "res1 = Returns True")
    case True
    have "wf_network net1" "l < length (lines net1)"
      using AddRouteToLine_wf [OF Cons.prems(1,2) r1] Cons.prems(2) by simp_all
    moreover have "add_routes l rts net1 = (res, net')"
      using add_routes_step(1) [OF r1 True] Cons.prems(3) by simp
    ultimately show ?thesis using Cons.IH [of net1] m1 True by simp
  next
    case False
    then show ?thesis using add_routes_step(2) [OF r1 False] Cons.prems(3) m1 by simp
  qed
qed simp

lemma AddLine_map:
  assumes wf: "wf_network net"
  shows "fst (AddLine line net) = fst (map_AddLine line (map_of_network net)) \<and>
    map_of_network (snd (AddLine line net)) = snd (map_AddLine line (map_of_network net))"
proof (cases "GetLine net (ln_id line)")
  case (Some l)
  then show ?thesis by (simp add: AddLine_def map_AddLine_def)
next
  case None
  let ?l = "length (lines net)" and ?net1 = "new_line line net"
  have w1: "wf_network ?net1" and l: "?l < length (lines ?net1)" using wf_new_line [OF wf] by simp_all
  obtain res net2 where r: "add_routes ?l (ln_routes line) ?net1 = (res, net2)" by fastforce
  have same: "counts_of ?net1 = counts_of net" "times_of ?net1 = times_of net" "routes_of ?net1 ?l = Map.empty"
    by (simp_all add: fun_eq_iff counts_of_def times_of_def time_at_def find_edge_to_def routes_of_def GetStation_def
        split: option.split)
  note m = add_routes_map [OF w1 l r, unfolded same]
  have g: "grows ?l ?net1 net2" using add_routes_grows [OF w1 l, of "ln_routes line"] r by simp
  have old: "routes_of net2 k = routes_of net k" if "k < ?l" for k
  proof
    fix rid
    have "lines net2 ! k = lines net ! k" using g that by (simp add: grows_def nth_append)
    then show "routes_of net2 k rid = routes_of net k rid"
      using stops_lt [OF wf that, of rid] stop_ids_grows(1) [OF g]
      by (cases "map_of (li_routes (lines net ! k)) rid") (auto simp: routes_of_def stop_ids_def)
  qed
  have lm: "line_map net2 = line_map net" using g by (simp add: grows_def)
  have lines: "map_option (routes_of net2) (GetLine net x) = map_option (routes_of net) (GetLine net x)" for x
    using old wf_GetLine [OF wf] by (cases "GetLine net x") auto
  show ?thesis
  proof (cases "res = Returns True")
    case True
    let ?net3 = "net2\<lparr>line_map := umap_emplace (ln_id line) ?l (line_map net2)\<rparr>"
    have add: "AddLine line net = (Returns True, ?net3)" using None r True by (simp add: AddLine_def)
    have st: "stop_ids ?net3 = stop_ids net2" by (simp add: fun_eq_iff stop_ids_def)
    have k: "routes_of ?net3 = routes_of net2" by (intro ext) (simp add: routes_of_def st)
    have "GetLine ?net3 x = (if x = ln_id line then Some ?l else GetLine net x)" for x
      using None by (simp add: GetLine_def lm umap_simps)
    then have "(\<lambda>x. map_option (routes_of ?net3) (GetLine ?net3 x)) =
        (\<lambda>x. map_option (routes_of net) (GetLine net x))(ln_id line \<mapsto> routes_of net2 ?l)"
      by (intro ext) (simp add: k lines)
    moreover have "counts_of ?net3 = counts_of net" "times_of ?net3 = times_of net2"
      using m by (simp_all add: fun_eq_iff counts_of_def times_of_def time_at_def find_edge_to_def GetStation_def
          split: option.split)
    ultimately show ?thesis
      using m None True by (simp add: add map_AddLine_def map_of_network_def)
  next
    case False
    have add: "AddLine line net = (res, net2)"
      using None r False by (auto simp: AddLine_def split: outcome.split bool.split)
    have "GetLine net2 = GetLine net" by (simp add: fun_eq_iff GetLine_def lm)
    then show ?thesis
      using m lines None False by (simp add: add map_AddLine_def map_of_network_def fun_eq_iff)
  qed
qed

section \<open>The refinement\<close>

fun net_result :: "'pt net_op \<Rightarrow> network \<Rightarrow> bool outcome" where
  "net_result (Op_AddStation s) net = Returns (fst (AddStation s net))"
| "net_result (Op_AddLine l) net = fst (AddLine l net)"
| "net_result (Op_Record ev) net = fst (RecordPassengerEvent ev net)"
| "net_result (Op_SetTime a b t) net = Returns (fst (SetTravelTime a b t net))"

fun map_step :: "'pt net_op \<Rightarrow> tube_map \<Rightarrow> bool outcome \<times> tube_map" where
  "map_step (Op_AddStation s) M = (let (ok, M') = map_AddStation (st_id s) M in (Returns ok, M'))"
| "map_step (Op_AddLine l) M = map_AddLine l M"
| "map_step (Op_Record ev) M = map_RecordPassengerEvent ev M"
| "map_step (Op_SetTime a b t) M = (let (ok, M') = map_SetTravelTime a b t M in (Returns ok, M'))"

definition net_after :: "'pt net_op list \<Rightarrow> network" where
  "net_after ops = run_all net_step ops empty_network"

definition map_after :: "'pt net_op list \<Rightarrow> tube_map" where
  "map_after ops = run_all (\<lambda>op M. snd (map_step op M)) ops empty_map"

lemma net_step_map:
  assumes "wf_network net"
  shows "map_step op (map_of_network net) = (net_result op net, map_of_network (net_step op net))"
proof (cases op)
  case (Op_Record ev)
  then show ?thesis using Record_map [OF assms, of ev] by (simp add: prod_eq_iff)
qed (use AddStation_map [OF assms] AddLine_map [OF assms] SetTravelTime_map [OF assms] in \<open>auto simp: prod_eq_iff split_beta\<close>)

interpretation tube: refined_machine empty_network net_step "\<lambda>_ _. True" wf_network
  map_of_network "\<lambda>op M. snd (map_step op M)"
  by unfold_locales (simp add: net_step_map)

lemma map_of_net_after: "map_of_network (net_after ops) = map_after ops"
  using tube.abs_run [of ops] by (simp add: net_after_def map_after_def empty_map)

text \<open>C10: the network of objects implements an abstract network, in which stations, connections and
  routes are maps over IDs: from the empty network, any sequence of operations, failed ones included,
  leads on both sides to corresponding states; in these every operation has the same result; and
  passenger counts, travel times and the stops of a route read in one are those of the other.\<close>

theorem network_refines_map:
  "map_of_network (net_after ops) = map_after ops \<and>
   net_result op (net_after ops) = fst (map_step op (map_after ops)) \<and>
   (GetPassengerCount (net_after ops) a = Returns c \<longleftrightarrow> tm_counts (map_after ops) a = Some c) \<and>
   GetTravelTime (net_after ops) a b = map_GetTravelTime (map_after ops) a b \<and>
   map_option (stop_ids (net_after ops)) (GetRoute (net_after ops) lid rid) =
     Option.bind (tm_lines (map_after ops) lid) (\<lambda>R. R rid)"
proof -
  have "wf_network (net_after ops)" unfolding net_after_def by (rule wf_run)
  then show ?thesis
    using net_step_map [of "net_after ops" op] GetPassengerCount_map [of "net_after ops" a c]
      GetTravelTime_map [of "net_after ops" a b]
    unfolding map_of_net_after [symmetric]
    by (auto simp: GetRoute_def routes_of_def split: option.split)
qed

end
