(* ===== verification/Monitor_Crowding.thy ===== *)
theory Monitor_Crowding
  imports Network_Monitor Tube_Map
begin

text \<open>
  \<^verbatim>\<open>SetNetworkCrowding\<close>, stated over the abstract network: it adds the given counts to the stations
  that are known, and leaves everything else as it is.
\<close>

definition add_count :: "Id \<Rightarrow> int \<Rightarrow> (Id \<rightharpoonup> int) \<Rightarrow> Id \<rightharpoonup> int" where
  "add_count s k C = (\<lambda>x. if x = s then map_option (\<lambda>c. c + k) (C x) else C x)"

lemma add_count_0 [simp]: "add_count s 0 C = C"
  by (simp add: add_count_def fun_eq_iff option.map_ident)

lemma add_count_add: "add_count s k (add_count s j C) = add_count s (j + k) C"
  by (auto simp: add_count_def fun_eq_iff option.map_comp comp_def add.assoc)

lemma record_one:
  assumes wf: "wf_network net"
    and b: "\<And>c. counts_of net (ev_stationId ev) = Some c \<Longrightarrow> \<bar>c\<bar> < llong_max"
  shows "\<exists>ok net'. RecordPassengerEvent ev net = (Returns ok, net') \<and> wf_network net' \<and>
    map_of_network net' = (map_of_network net)\<lparr>tm_counts :=
      add_count (ev_stationId ev) (case ev_type ev of In \<Rightarrow> 1 | Out \<Rightarrow> - 1) (counts_of net)\<rparr>"
proof -
  obtain res net' where op: "RecordPassengerEvent ev net = (res, net')" by fastforce
  have wf': "wf_network net'" by (rule same_shape_wf [OF RecordPassengerEvent_shape [OF op] wf])
  note m = Record_map [OF wf, of ev, unfolded op fst_conv snd_conv]
  show ?thesis
  proof (cases "counts_of net (ev_stationId ev)")
    case None
    then have "add_count (ev_stationId ev) k (counts_of net) = counts_of net" for k
      by (simp add: add_count_def fun_eq_iff)
    then show ?thesis using m op wf' None by (auto simp: map_RecordPassengerEvent_def)
  next
    case (Some c)
    have "add_count (ev_stationId ev) k (counts_of net) = (counts_of net)(ev_stationId ev \<mapsto> c + k)" for k
      using Some by (simp add: add_count_def fun_eq_iff)
    then show ?thesis
      using m op wf' Some b [OF Some]
      by (cases "ev_type ev") (auto simp: map_RecordPassengerEvent_def llong_max_def llong_min_def)
  qed
qed

lemma record_events_map:
  assumes "wf_network net"
    and "\<And>c. counts_of net (ev_stationId ev) = Some c \<Longrightarrow> \<bar>c\<bar> + int n \<le> llong_max"
  shows "\<exists>net'. record_events n ev net = (Returns (), net') \<and> wf_network net' \<and>
    map_of_network net' = (map_of_network net)\<lparr>tm_counts :=
      add_count (ev_stationId ev) (case ev_type ev of In \<Rightarrow> int n | Out \<Rightarrow> - int n) (counts_of net)\<rparr>"
  using assms
proof (induction n arbitrary: net)
  case 0
  then show ?case by (simp split: EventType.split)
next
  case (Suc n)
  let ?one = "(case ev_type ev of In \<Rightarrow> 1 | Out \<Rightarrow> - 1) :: int"
  have lt: "\<bar>c\<bar> < llong_max" if "counts_of net (ev_stationId ev) = Some c" for c
    using Suc.prems(2) [OF that] by simp
  obtain ok net1 where r: "RecordPassengerEvent ev net = (Returns ok, net1)" "wf_network net1"
    "map_of_network net1 = (map_of_network net)\<lparr>tm_counts := add_count (ev_stationId ev) ?one (counts_of net)\<rparr>"
    using record_one [OF Suc.prems(1) lt] by blast
  have c1: "counts_of net1 = add_count (ev_stationId ev) ?one (counts_of net)"
    using arg_cong [OF r(3), of tm_counts] by simp
  have "\<bar>c\<bar> + int n \<le> llong_max" if c: "counts_of net1 (ev_stationId ev) = Some c" for c
  proof -
    obtain c0 where "counts_of net (ev_stationId ev) = Some c0" "c = c0 + ?one"
      using c by (auto simp: c1 add_count_def)
    then show ?thesis using Suc.prems(2) [of c0] by (auto split: EventType.splits)
  qed
  from Suc.IH [OF r(2) this] obtain net' where n: "record_events n ev net1 = (Returns (), net')" "wf_network net'"
    "map_of_network net' = (map_of_network net1)\<lparr>tm_counts :=
      add_count (ev_stationId ev) (case ev_type ev of In \<Rightarrow> int n | Out \<Rightarrow> - int n) (counts_of net1)\<rparr>" by auto
  have "map_of_network net' = (map_of_network net)\<lparr>tm_counts :=
      add_count (ev_stationId ev) (case ev_type ev of In \<Rightarrow> int (Suc n) | Out \<Rightarrow> - int (Suc n)) (counts_of net)\<rparr>"
    by (simp add: n(3) r(3) c1 add_count_add split: EventType.split)
  then show ?case using n(1,2) r(1) by simp
qed

definition add_counts :: "(Id \<times> int) list \<Rightarrow> (Id \<rightharpoonup> int) \<Rightarrow> Id \<rightharpoonup> int" where
  "add_counts ks C = (\<lambda>x. map_option (\<lambda>c. c + (case map_of ks x of None \<Rightarrow> 0 | Some k \<Rightarrow> k)) (C x))"

lemma add_counts_Nil [simp]: "add_counts [] C = C"
  by (simp add: add_counts_def fun_eq_iff option.map_ident)

lemma add_counts_Cons:
  "s \<notin> fst ` set ks \<Longrightarrow> add_counts ((s, k) # ks) C = add_counts ks (add_count s k C)"
  by (auto simp: add_counts_def add_count_def fun_eq_iff option.map_comp comp_def map_of_eq_None_iff [symmetric])

text \<open>Counts that are an \<^verbatim>\<open>int\<close> each, whose addition stays a \<^verbatim>\<open>long long\<close>.\<close>

definition counts_fit :: "(Id \<times> int) list \<Rightarrow> (Id \<rightharpoonup> int) \<Rightarrow> bool" where
  "counts_fit ks C \<longleftrightarrow>
     distinct (map fst ks) \<and>
     (\<forall>(s, k)\<in>set ks. \<bar>k\<bar> < 2 ^ 31 \<and> (case C s of None \<Rightarrow> True | Some c \<Rightarrow> \<bar>c\<bar> + \<bar>k\<bar> \<le> llong_max))"

lemma counts_fit_Cons:
  assumes "counts_fit ((s, k) # ks) C"
  shows "counts_fit ks (add_count s k C)" "s \<notin> fst ` set ks" "\<bar>k\<bar> < 2 ^ 31" "distinct (map fst ks)"
    "C s = Some c \<Longrightarrow> \<bar>c\<bar> + \<bar>k\<bar> \<le> llong_max"
  using assms by (auto simp: counts_fit_def add_count_def) force+

lemma crowd_network_map:
  assumes "wf_network net" and "counts_fit ks (counts_of net)"
  shows "\<exists>net'. crowd_network now ks net = (Returns (), net') \<and> wf_network net' \<and>
    map_of_network net' = (map_of_network net)\<lparr>tm_counts := add_counts ks (counts_of net)\<rparr>"
  using assms
proof (induction ks arbitrary: net)
  case Nil
  then show ?case by simp
next
  case (Cons sk ks)
  obtain s k where sk: "sk = (s, k)" by fastforce
  note fit = counts_fit_Cons [OF Cons.prems(2) [unfolded sk]]
  let ?ev = "\<lparr>ev_stationId = s, ev_type = (if k > 0 then In else Out), ev_timestamp = now\<rparr>"
  have "\<exists>net1. record_events (nat \<bar>k\<bar>) ?ev net = (Returns (), net1) \<and> wf_network net1 \<and>
      map_of_network net1 = (map_of_network net)\<lparr>tm_counts := add_count s k (counts_of net)\<rparr>"
    using record_events_map [OF Cons.prems(1), of ?ev "nat \<bar>k\<bar>"] fit(5) by (auto split: if_splits)
  then obtain net1 where n1: "record_events (nat \<bar>k\<bar>) ?ev net = (Returns (), net1)" "wf_network net1"
    "map_of_network net1 = (map_of_network net)\<lparr>tm_counts := add_count s k (counts_of net)\<rparr>" by blast
  have c1: "counts_of net1 = add_count s k (counts_of net)" using arg_cong [OF n1(3), of tm_counts] by simp
  obtain net' where "crowd_network now ks net1 = (Returns (), net')" "wf_network net'"
    "map_of_network net' = (map_of_network net1)\<lparr>tm_counts := add_counts ks (counts_of net1)\<rparr>"
    using Cons.IH [OF n1(2)] fit(1) c1 by auto
  moreover have "k \<noteq> - (2 ^ 31)" using fit(3) by simp
  ultimately show ?case using n1(1,3) c1 add_counts_Cons [OF fit(2)] by (simp add: sk)
qed

text \<open>\<open>SetNetworkCrowding\<close> returns, and in the network afterwards the count of every known
  station that is listed has grown by the number given for it, positive or negative; the other
  counts, the travel times and the lines are what they were, and so is the rest of the monitor.
  Stations that are not known are ignored.\<close>

theorem SetNetworkCrowding_counts:
  assumes "wf_network (nm_network m)" and "counts_fit passengerCounts (counts_of (nm_network m))"
  shows "\<exists>net'. SetNetworkCrowding now passengerCounts m = (Returns (), m\<lparr>nm_network := net'\<rparr>, []) \<and>
    (\<forall>s. GetPassengerCount net' s =
       (case GetPassengerCount (nm_network m) s of
          Returns c \<Rightarrow> Returns (c + (case map_of passengerCounts s of None \<Rightarrow> 0 | Some k \<Rightarrow> k))
        | fault \<Rightarrow> fault)) \<and>
    GetTravelTime net' a b = GetTravelTime (nm_network m) a b \<and>
    tm_lines (map_of_network net') = tm_lines (map_of_network (nm_network m))"
proof -
  from crowd_network_map [OF assms, of now] obtain net'
    where net': "crowd_network now passengerCounts (nm_network m) = (Returns (), net')"
    "map_of_network net' = (map_of_network (nm_network m))\<lparr>tm_counts :=
       add_counts passengerCounts (counts_of (nm_network m))\<rparr>"
    by (elim exE conjE)
  have c: "counts_of net' = add_counts passengerCounts (counts_of (nm_network m))"
    using arg_cong [OF net'(2), of tm_counts] by simp
  have count: "GetPassengerCount net s = (case counts_of net s of
      None \<Rightarrow> Fault (Runtime_Error (''Could not find station in the network: '' @ s)) | Some c \<Rightarrow> Returns c)" for net s
    by (simp add: GetPassengerCount_def counts_of_def split: option.split)
  have "GetPassengerCount net' s =
       (case GetPassengerCount (nm_network m) s of
          Returns c \<Rightarrow> Returns (c + (case map_of passengerCounts s of None \<Rightarrow> 0 | Some k \<Rightarrow> k))
        | fault \<Rightarrow> fault)" for s
    by (cases "counts_of (nm_network m) s") (simp_all add: count c add_counts_def)
  moreover have "GetTravelTime net' a b = GetTravelTime (nm_network m) a b"
    by (simp add: GetTravelTime_map net'(2) map_GetTravelTime_def split: option.split)
  moreover have "SetNetworkCrowding now passengerCounts m = (Returns (), m\<lparr>nm_network := net'\<rparr>, [])"
    by (simp add: SetNetworkCrowding_def net'(1))
  ultimately show ?thesis by (intro exI [of _ net'] conjI allI) (simp_all add: net'(2))
qed

definition example_crowded :: "nat monitor" where
  "example_crowded = (new_monitor id)\<lparr>nm_network := example_net\<rparr>"

lemma SetNetworkCrowding_counts_witness:
  "\<exists>net'. SetNetworkCrowding () [(''B'', - 5), (''D'', 4), (''X'', 1)] example_crowded =
      (Returns (), example_crowded\<lparr>nm_network := net'\<rparr>, []) \<and>
    GetPassengerCount net' ''B'' = Returns (- 2)"
proof -
  have n: "nm_network example_crowded = example_net" by (simp add: example_crowded_def)
  have fit: "counts_fit [(''B'', - 5), (''D'', 4), (''X'', 1)] (counts_of (nm_network example_crowded))"
    unfolding n by code_simp
  have wf: "wf_network (nm_network example_crowded)" unfolding n by (rule example_net_wf)
  have B: "GetPassengerCount example_net ''B'' = Returns 3" by code_simp
  from SetNetworkCrowding_counts [OF wf fit, of "()"] obtain net' where
    c: "SetNetworkCrowding () [(''B'', - 5), (''D'', 4), (''X'', 1)] example_crowded =
      (Returns (), example_crowded\<lparr>nm_network := net'\<rparr>, [])" and
    "\<forall>s. GetPassengerCount net' s = (case GetPassengerCount (nm_network example_crowded) s of
        Returns c \<Rightarrow> Returns (c + (case map_of [(''B'', - 5), (''D'', 4), (''X'', 1)] s of None \<Rightarrow> 0 | Some k \<Rightarrow> k))
      | fault \<Rightarrow> fault)" by blast
  from this(2) have "GetPassengerCount net' ''B'' = Returns (- 2)" by (simp add: n B)
  with c show ?thesis by blast
qed

end
