(* ===== verification/Print_Operators.thy ===== *)
theory Print_Operators
  imports Network_Monitor
begin

text \<open>
  The print operators, used by the log: each writes the name of its value, and what it does with a
  value of the enumeration's type that is none of its enumerators.
\<close>

section \<open>Names\<close>

text \<open>
  \<open>os\<close> is what the stream holds; \<open>None\<close> is a value without a name, which a conversion from a number
  can give.
\<close>

definition find_name :: "('e \<times> string) list \<Rightarrow> 'e option \<Rightarrow> string option" where
  "find_name table value = Option.bind value (map_of table)"

definition print_command :: "string \<Rightarrow> StompCommand option \<Rightarrow> string" where
  "print_command os command =
     (case find_name gStompCommandStrings command of
        None \<Rightarrow> os @ ''StompCommand::kInvalid''
      | Some s \<Rightarrow> os @ s)"

definition print_header :: "string \<Rightarrow> StompHeader option \<Rightarrow> string" where
  "print_header os header =
     (case find_name gStompHeaderStrings header of
        None \<Rightarrow> os @ ''StompHeader::kInvalid''
      | Some s \<Rightarrow> os @ s)"

definition print_error :: "string \<Rightarrow> StompError option \<Rightarrow> string" where
  "print_error os error =
     (let undefinedError = the (map_of gStompErrorStrings StompError.kUndefinedError)
      in case find_name gStompErrorStrings error of None \<Rightarrow> os @ undefinedError | Some s \<Rightarrow> os @ s)"

definition print_client_error :: "string \<Rightarrow> StompClientError option \<Rightarrow> string" where
  "print_client_error os error =
     (case find_name gStompClientErrorStrings error of
        None \<Rightarrow> os @ the (map_of gStompClientErrorStrings StompClientError.kUndefinedError)
      | Some s \<Rightarrow> os @ s)"

definition print_server_error :: "string \<Rightarrow> StompServerError option \<Rightarrow> string" where
  "print_server_error os error =
     (case find_name gStompServerErrorStrings error of
        None \<Rightarrow> os @ the (map_of gStompServerErrorStrings StompServerError.kUndefinedError)
      | Some s \<Rightarrow> os @ s)"

text \<open>After the undefined error the monitor's operator goes on with the end iterator.\<close>

definition print_monitor_error :: "string \<Rightarrow> NetworkMonitorError option \<Rightarrow> string outcome \<times> string" where
  "print_monitor_error os error =
     (case find_name gNetworkMonitorErrorStrings error of
        None \<Rightarrow>
          (Fault Undefined_Behaviour,
           os @ the (map_of gNetworkMonitorErrorStrings NetworkMonitorError.kUndefinedError))
      | Some s \<Rightarrow> (Returns (os @ s), os @ s))"

definition print_travel_route :: "('j, 'pt) monitor_lib \<Rightarrow> string \<Rightarrow> TravelRoute \<Rightarrow> string outcome" where
  "print_travel_route lib os r =
     (case ml_dump lib (travel_route_to_json (ml_json lib) r) of
        None \<Rightarrow> Fault Json_Exception
      | Some text \<Rightarrow> Returns (os @ text))"

section \<open>Printing and ToString\<close>

text \<open>An enumerator is printed as it is named; a value without a name makes the monitor's operator
  use an iterator that it must not use.\<close>

lemma print_names:
  "print_command os (Some c) = os @ command_to_string c"
  "print_header os (Some h) = os @ header_to_string h"
  "print_error os (Some e) = os @ error_to_string e"
  "print_client_error os (Some ce) = os @ client_error_to_string ce"
  "print_server_error os (Some se) = os @ server_error_to_string se"
  "fst (print_monitor_error os (Some me)) = Returns (os @ monitor_error_to_string me)"
proof -
  have "map_of gNetworkMonitorErrorStrings me \<noteq> None" by (cases me) (simp_all add: gNetworkMonitorErrorStrings_def)
  then show "fst (print_monitor_error os (Some me)) = Returns (os @ monitor_error_to_string me)"
    by (auto simp: print_monitor_error_def monitor_error_to_string_def find_name_def)
qed (simp_all add: print_command_def print_header_def print_error_def print_client_error_def print_server_error_def
    command_to_string_def header_to_string_def error_to_string_def client_error_to_string_def
    server_error_to_string_def find_name_def gStompErrorStrings_def gStompClientErrorStrings_def
    gStompServerErrorStrings_def split: option.split)

lemma print_unknown_monitor_error: "fst (print_monitor_error os None) = Fault Undefined_Behaviour"
  by (simp add: print_monitor_error_def find_name_def)

end
