(* ===== verification/Stomp_Channel.thy ===== *)
theory Stomp_Channel
  imports Client_Sockets Stomp_Sockets
begin

text \<open>
  STOMP clients and the STOMP server on both ends of WebSocket connections. A message that one
  user gets is one that the other has sent, with its destination and its content, and it comes from
  the other end of the same connection.
\<close>

section \<open>What a message and a frame of the server come from\<close>

text \<open>Arguments of a reply that can be sent as they are.\<close>

fun reply_ok :: "'w server_event \<Rightarrow> bool" where
  "reply_ok (Ev_Send newId cid dest content onSend rid) \<longleftrightarrow>
     id_ok newId \<and> newLine \<notin> set rid \<and> id_ok dest \<and> fits_size (length content)"
| "reply_ok _ \<longleftrightarrow> True"

definition reply_text :: "'w server_event list \<Rightarrow> (string \<Rightarrow> 'w option) \<Rightarrow> 'w \<Rightarrow> string \<Rightarrow> bool" where
  "reply_text asked owner w m \<longleftrightarrow>
     (\<exists>g. StompFrame_parse m = (Returns StompError.kOk, g) \<and>
        (GetCommand g = StompCommand.kSend \<longrightarrow>
           (\<exists>newId cid onSend rid. owner cid = Some w \<and>
              Ev_Send newId cid (GetHeaderValue g kDestination) (GetBody g) onSend rid \<in> set asked)))"

context header_layout
begin

lemma message_source:
  assumes m: "maps_agree st"
    and a: "Client_Message e cid dest rid content \<in> set (snd (snd (OnWsSessionMessage ord failed w msg st)))"
  shows "map_of (sv_sessions st) cid = Some w \<and>
    (\<exists>f. StompFrame_parse msg = (Returns StompError.kOk, f) \<and> GetCommand f = StompCommand.kSend \<and>
       GetHeaderValue f kDestination = dest \<and> GetHeaderValue f kId = rid \<and> GetBody f = content)"
proof -
  obtain res st' acts where op: "OnWsSessionMessage ord failed w msg st = (res, st', acts)" by (metis prod_cases3)
  with a have a: "Client_Message e cid dest rid content \<in> set acts" by simp
  have none: False if "CloseConnection ord i w er h st = (res, st', acts)" for i er h
    using closing_posts_nothing [of "Client_Message e cid dest rid content" ord i w er h st] a that by simp
  from op show ?thesis
  proof (cases rule: OnWsSessionMessage_cases)
    case (close c error)
    then show ?thesis using none by blast
  next
    case (stomp c frame)
    then show ?thesis
      using a by (auto simp: HandleStomp_def Let_def split: if_splits prod.splits outcome.splits dest: none)
  next
    case (send c frame)
    then show ?thesis
      using a maps_agree_connection [OF m send(1)]
      by (auto simp: HandleSend_def split: if_splits dest: none)
  qed (use a in auto)
qed

lemma closing_frame:
  assumes "Ws_Send w' m h \<in> set (snd (snd (CloseConnection ord i w error onClose st)))"
  shows "reply_text asked owner w' m"
proof (cases "error = StompServerError.kUndefinedError")
  case False
  then show ?thesis
    using CloseConnection_error [OF False, of i w onClose st] assms
    by (auto simp: reply_text_def error_frame_of_def)
qed (use assms in \<open>auto simp: CloseConnection_def Let_def\<close>)

lemma message_frame:
  assumes m: "maps_agree st" and a: "Ws_Send w' t h \<in> set (snd (snd (OnWsSessionMessage ord failed w msg st)))"
  shows "reply_text asked owner w' t"
proof -
  obtain res st' acts where op: "OnWsSessionMessage ord failed w msg st = (res, st', acts)" by (metis prod_cases3)
  with a have a: "Ws_Send w' t h \<in> set acts" by simp
  have closes: ?thesis if "CloseConnection ord i w error x st = (res, st', acts)" for i error x
    using closing_frame [of w' t h i w error x st] that a by simp
  from op show ?thesis
  proof (cases rule: OnWsSessionMessage_cases)
    case (close c error)
    then show ?thesis using closes by blast
  next
    case (stomp c frame)
    from m stomp(1,5) show ?thesis
    proof (cases rule: HandleStomp_cases)
      case (closed error)
      then show ?thesis using closes by blast
    next
      case (connected f)
      then show ?thesis using a by (auto simp: reply_text_def split: if_splits)
    qed
  next
    case (send c frame)
    then show ?thesis using a closes by (auto simp: HandleSend_def split: if_splits)
  qed (use a in auto)
qed

lemma call_frame:
  assumes m: "maps_agree st" and e: "user_call e" "reply_ok e"
    and a: "Ws_Send w t h \<in> set (snd (server_step ord e (st, [])))"
  shows "reply_text [e] (map_of (sv_sessions st)) w t"
proof (cases e)
  case (Ev_Send newId cid dest content onSend rid)
  let ?rid = "if rid = [] then newId else rid"
  have "id_ok ?rid" "id_ok dest" "length content < 2 ^ 64" using e(2) Ev_Send by (auto simp: id_ok_def fits_size_def)
  from send_frame [OF this] obtain f where f: "StompFrame_make StompCommand.kSend
      (ord [(kId, ?rid), (kDestination, dest), (kContentType, ''application/json''),
            (kContentLength, to_dec (length content))]) content = (Returns StompError.kOk, f)"
    "StompFrame_parse (frame_ToString f) = (Returns StompError.kOk, f)"
    "GetHeaderValue f kDestination = dest" "GetBody f = content" by blast
  then have "t = frame_ToString f \<and> map_of (sv_sessions st) cid = Some w"
    using a Ev_Send by (auto simp: server_Send_def Let_def split: option.splits if_splits)
  then show ?thesis using f Ev_Send by (auto simp: reply_text_def)
next
  case (Ev_Close cid onClose)
  then show ?thesis
    using a closing_frame by (auto simp: server_Close_def Let_def split_beta split: option.splits)
qed (use a e(1) in \<open>auto simp: server_Stop_def\<close>)

end

section \<open>What a turn adds to the traces\<close>

text \<open>The two actions that carry a text from one end to the other.\<close>

fun exchanged :: "'w server_action \<Rightarrow> bool" where
  "exchanged (Ws_Send w t h) \<longleftrightarrow> True"
| "exchanged (Client_Message e cid dest rid content) \<longleftrightarrow> True"
| "exchanged _ \<longleftrightarrow> False"

lemma quiet_call:
  assumes "session_call ord w newId a st = (res, st', acts)" and "\<And>m. a \<noteq> User_Message m"
    and "x \<in> set acts"
  shows "\<not> exchanged x"
  using assms
  by (cases a) (auto simp: OnWsSessionConnect_def OnWsSessionDisconnect_def server_OnSend_def server_OnClose_def
      split: if_splits option.splits)

text \<open>Where the IDs of the server's sessions come from.\<close>

lemma CloseConnection_ids:
  "map_of (sv_sessions (fst (snd (CloseConnection ord i w e h st)))) \<subseteq>\<^sub>m map_of (sv_sessions st)"
  by (auto simp: CloseConnection_def Let_def delete_conv' map_le_def split: prod.splits outcome.splits if_splits)

lemma HandleStomp_ids:
  "map_of (sv_sessions (fst (snd (HandleStomp ord w c f st)))) \<subseteq>\<^sub>m map_of (sv_sessions st)"
  by (simp add: HandleStomp_def CloseConnection_ids Let_def split: prod.split outcome.split)

lemma HandleSend_ids:
  "map_of (sv_sessions (fst (snd (HandleSend ord w c f st)))) \<subseteq>\<^sub>m map_of (sv_sessions st)"
  by (simp add: HandleSend_def CloseConnection_ids)

lemma message_ids:
  "map_of (sv_sessions (fst (snd (OnWsSessionMessage ord failed w msg st)))) \<subseteq>\<^sub>m map_of (sv_sessions st)"
  by (simp add: OnWsSessionMessage_def CloseConnection_ids HandleStomp_ids HandleSend_ids
      split: prod.split outcome.split option.split StompCommand.split)

lemma session_call_ids:
  assumes "session_call ord w newId a st = (res, st', acts)"
  shows "map_of (sv_sessions st') \<subseteq>\<^sub>m (map_of (sv_sessions st))(newId \<mapsto> w) \<or>
    map_of (sv_sessions st') \<subseteq>\<^sub>m map_of (sv_sessions st)"
proof (cases a)
  case (User_Message m)
  then show ?thesis using assms message_ids [of ord False w m st] by simp
qed (use assms in \<open>auto simp: OnWsSessionConnect_def OnWsSessionDisconnect_def update_conv' delete_conv' map_le_def
    split: if_splits option.splits\<close>)

lemma user_call_ids:
  assumes "user_call e"
  shows "map_of (sv_sessions (fst (server_step ord e (st, [])))) \<subseteq>\<^sub>m map_of (sv_sessions st)"
proof (cases e)
  case (Ev_Close cid h)
  then show ?thesis
    using CloseConnection_ids by (auto simp: server_Close_def split_beta Let_def split: option.splits)
qed (use assms in \<open>auto simp: server_Stop_def\<close>)

lemma accepted_trace:
  "\<exists>acts. sk_trace (fold do_accept (ws_accepted ec w sv) k) = sk_trace k @ acts \<and>
     (\<forall>x\<in>set acts. \<not> exchanged x) \<and> sv_sessions (sk_server (fold do_accept (ws_accepted ec w sv) k)) =
     sv_sessions (sk_server k)"
  by (auto simp: ws_accepted_def OnConnectionAccepted_def AcceptConnection_def ask_def server_OnWsDisconnect_def
      split: prod.splits)

text \<open>A completion at a session calls one handler at most.\<close>

lemma socket_call:
  assumes inv: "stack_inv k" and ok: "\<not> sk_failed k"
  obtains (quiet) "sk_trace (stack_step ord (Socket w op ec b newId) k) = sk_trace k"
      "sk_server (stack_step ord (Socket w op ec b newId) k) = sk_server k"
  | (call) s a res st' acts where "sk_sessions k w = Some s"
      "session_call ord w newId a (sk_server k) = (res, st', acts)"
      "\<And>m. a = User_Message m \<Longrightarrow> op = Read \<and> ec = No_Error \<and> m = wp_rBuffer (st_peer s) @ b"
      "sk_trace (stack_step ord (Socket w op ec b newId) k) = sk_trace k @ acts"
      "sk_server (stack_step ord (Socket w op ec b newId) k) = st'"
  using ok
proof (cases rule: socket_turn [where ord = ord and w = w and op = op and ec = ec and b = b and newId = newId])
  case same
  then show ?thesis by (intro quiet) simp_all
next
  case (moves s s' v res st' acts)
  have "session.chain_ok s"
    using inv moves(1) by (auto simp: stack_inv_def session_ok_def dest: spec [of _ w])
  from session.endpoint_refines [OF this moves(2)]
  have ct: "contract_step (contract_of s) (Completes op ec b) v (contract_of s')" by simp
  have to: "sk_trace (stack_step ord (Socket w op ec b newId) k) = sk_trace k @ acts"
    "sk_server (stack_step ord (Socket w op ec b newId) k) = st'"
    unfolding moves(4) by (simp_all add: ask_def)
  from single_call [OF ct] show ?thesis
  proof (elim disjE exE)
    assume "v = []"
    then show ?thesis using moves(3) to by (intro quiet) simp_all
  next
    fix a assume v: "v = [a]"
    have "op = Read \<and> ec = No_Error \<and> m = wp_rBuffer (st_peer s) @ b" if "a = User_Message m" for m
      using ct v that by (intro completion_message [of s op ec b m]) simp
    moreover have "session_call ord w newId a (sk_server k) = (res, st', acts)"
      using moves(3) by (simp only: v session_calls_one)
    ultimately show ?thesis using moves(1) to by (intro call)
  qed
qed

text \<open>One turn of the server: what it runs, what it adds to the trace and which ID it may add.\<close>

lemma stack_step_sources:
  assumes inv: "stack_inv k"
  obtains (quiet) acts where "sk_trace (stack_step ord e k) = sk_trace k @ acts" "\<And>x. x \<in> set acts \<Longrightarrow> \<not> exchanged x"
  | (message) w b newId s where "e = Socket w Read No_Error b newId" "sk_sessions k w = Some s"
      "sk_trace (stack_step ord e k) = sk_trace k @
         snd (snd (OnWsSessionMessage ord False w (wp_rBuffer (st_peer s) @ b) (sk_server k)))"
  | (asked) c where "e = Calls c" "sk_trace (stack_step ord e k) = sk_trace k @ snd (server_step ord c (sk_server k, []))"
proof (cases "sk_failed k")
  case True
  then have "stack_step ord e k = k" by (cases e) simp_all
  then show ?thesis by (intro quiet [of "[]"]) simp_all
next
  case False
  show ?thesis
  proof (cases e)
    case (Accepted ec w)
    then show ?thesis
      using accepted_trace [of ec w "sk_acceptor k" "k\<lparr>sk_accepting := False\<rparr>"] False quiet by auto
  next
    case (Calls c)
    then show ?thesis using False by (intro asked [of c]) (simp_all add: ask_def split: prod.split)
  next
    case (Socket w op ec b newId)
    from inv False show ?thesis
    proof (cases rule: socket_call [where ord = ord and w = w and op = op and ec = ec and b = b and newId = newId])
      case quiet
      then show ?thesis using that(1) [of "[]"] Socket by simp
    next
      case (call s a res st' acts)
      show ?thesis
      proof (cases "\<exists>m. a = User_Message m")
        case True
        then obtain m where m: "a = User_Message m" by blast
        note read = call(3) [OF m]
        show ?thesis by (rule message [of w b newId s]) (use call(1,2,4) read Socket m in simp_all)
      next
        case False
        then show ?thesis using that(1) [of acts] call(4) quiet_call [OF call(2)] Socket by blast
      qed
    qed
  qed
qed

lemma stack_step_ids:
  assumes inv: "stack_inv k" and al: "stack_allowed e k"
  shows "map_of (sv_sessions (sk_server (stack_step ord e k))) \<subseteq>\<^sub>m map_of (sv_sessions (sk_server k)) \<or>
    (\<exists>w op ec b newId. e = Socket w op ec b newId \<and>
       map_of (sv_sessions (sk_server (stack_step ord e k))) \<subseteq>\<^sub>m (map_of (sv_sessions (sk_server k)))(newId \<mapsto> w))"
proof (cases "sk_failed k")
  case True
  then have "stack_step ord e k = k" by (cases e) simp_all
  then show ?thesis by simp
next
  case False
  show ?thesis
  proof (cases e)
    case (Accepted ec w)
    then show ?thesis
      using accepted_trace [of ec w "sk_acceptor k" "k\<lparr>sk_accepting := False\<rparr>"] False by auto
  next
    case (Calls c)
    then show ?thesis
      using al user_call_ids [of c ord "sk_server k"] False by (auto simp: ask_def split: prod.splits)
  next
    case (Socket w op ec b newId)
    from inv False show ?thesis
    proof (cases rule: socket_call [where ord = ord and w = w and op = op and ec = ec and b = b and newId = newId])
      case quiet
      then show ?thesis using Socket by simp
    next
      case (call s a res st' acts)
      show ?thesis using session_call_ids [OF call(2)] call(5) Socket by blast
    qed
  qed
qed

text \<open>One turn of a client: a message that the user is told is one that has been read.\<close>

lemma ck_runs_calls: "ck_calls (ck_runs ord es k) = ck_calls k"
  by (induction es arbitrary: k) (simp_all add: ck_run_def Let_def split_beta)

lemma ck_step_calls: "set (ck_calls k) \<subseteq> set (ck_calls (ck_step ord e k))"
  by (cases e) (auto simp: ck_runs_calls ck_run_def split_beta split: option.splits)

lemma socket_event_message: "socket_event a = Some (Cl_WsMessage failed m) \<Longrightarrow> a = User_Message m"
  by (elim socket_eventE) simp_all

lemma ck_run_told:
  assumes "On_Message er d m \<in> set (ck_trace (ck_run ord e k))"
  shows "On_Message er d m \<in> set (ck_trace k) \<or>
    (\<exists>failed msg g. e = Cl_WsMessage failed msg \<and> StompFrame_parse msg = (Returns StompError.kOk, g) \<and>
       GetCommand g = StompCommand.kSend \<and> GetHeaderValue g kDestination = d \<and> GetBody g = m)"
  using assms effect_message [of er d m ord e "ck_client k"] by (auto simp: ck_run_def split_beta)

lemma ck_step_told:
  assumes inv: "ck_inv url k" and al: "ck_allowed e k" and a: "On_Message er d m \<in> set (ck_trace (ck_step ord e k))"
  shows "On_Message er d m \<in> set (ck_trace k) \<or>
    (\<exists>b g. e = Io Read No_Error b \<and>
       StompFrame_parse (wp_rBuffer (st_peer (ck_socket k)) @ b) = (Returns StompError.kOk, g) \<and>
       GetCommand g = StompCommand.kSend \<and> GetHeaderValue g kDestination = d \<and> GetBody g = m)"
proof (cases e)
  case (User c)
  then show ?thesis
    using a al ck_run_told [of er d m ord c "k\<lparr>ck_calls := ck_calls k @ [c]\<rparr>"] by (cases c) (auto split: if_splits)
next
  case (Io op ec b)
  show ?thesis
  proof (cases "endpoint_exec (wc_Connect (ck_wc k)) (wc_complete (ck_wc k)) (Completes op ec b) (ck_socket k)")
    case None
    then show ?thesis using a Io by (auto split: if_splits)
  next
    case (Some r)
    obtain s' v where r: "r = (s', v)" by fastforce
    then have "endpoint_step (wc_Connect (ck_wc k)) (wc_complete (ck_wc k)) (ck_socket k) (Completes op ec b) v s'"
      using Some by (simp only: endpoint_exec_iff)
    then have ct: "contract_step (contract_of (ck_socket k)) (Completes op ec b) v (contract_of s')"
      using client.endpoint_refines inv unfolding ck_inv_def by blast
    have tr: "On_Message er d m \<in> set (ck_trace k) \<or>
        On_Message er d m \<in> set (ck_trace (ck_runs ord (List.map_filter socket_event v) (k\<lparr>ck_socket := s'\<rparr>)))"
      using a Some by (simp add: Io r del: endpoint_exec.simps split: if_splits)
    from single_call [OF ct] show ?thesis
    proof (elim disjE exE)
      fix x assume v: "v = [x]"
      show ?thesis
      proof (cases "socket_event x")
        case None
        then show ?thesis using tr v by (simp add: map_filter_simps)
      next
        case e': (Some e')
        then have "On_Message er d m \<in> set (ck_trace k) \<or> On_Message er d m \<in> set (ck_trace (ck_run ord e' (k\<lparr>ck_socket := s'\<rparr>)))"
          using tr v by (simp add: map_filter_simps Let_def split: if_splits)
        then consider "On_Message er d m \<in> set (ck_trace k)"
          | failed msg g where "e' = Cl_WsMessage failed msg" "StompFrame_parse msg = (Returns StompError.kOk, g)"
            "GetCommand g = StompCommand.kSend" "GetHeaderValue g kDestination = d" "GetBody g = m"
          using ck_run_told [of er d m ord e' "k\<lparr>ck_socket := s'\<rparr>"] by auto
        then show ?thesis
        proof cases
          case (2 failed msg g)
          then have "x = User_Message msg" using e' socket_event_message by blast
          from completion_message [OF ct [unfolded v this]] show ?thesis using Io 2 by auto
        qed simp
      qed
    qed (use tr in \<open>simp add: map_filter_simps\<close>)
  qed
qed

section \<open>Clients and a server\<close>

text \<open>
  \<open>wb_replies\<close> and \<open>wb_owner\<close> are history variables: what the server's user has called, and the
  session that every ID was generated for. Every session belongs to a client, its \<open>peer\<close>; a client
  that connects again gets another session.
\<close>

record ('c, 'w) web =
  wb_clients :: "'c \<Rightarrow> client_stack"
  wb_server :: "'w stack"
  wb_replies :: "'w server_event list"
  wb_owner :: "string \<rightharpoonup> 'w"

datatype ('c, 'w) web_event = At_Client 'c client_stack_event | At_Server "'w stack_event"

fun call_of :: "'w stack_event \<Rightarrow> 'w server_event list" where
  "call_of (Calls e) = [e]"
| "call_of _ = []"

fun web_step :: "header_order \<Rightarrow> ('c, 'w) web_event \<Rightarrow> ('c, 'w) web \<Rightarrow> ('c, 'w) web" where
  "web_step ord (At_Client c e) W =
     W\<lparr>wb_clients := (wb_clients W)(c := ck_step ord e (wb_clients W c))\<rparr>"
| "web_step ord (At_Server e) W =
     (let k = stack_step ord e (wb_server W)
      in W\<lparr>wb_server := k, wb_replies := wb_replies W @ call_of e,
           wb_owner := wb_owner W ++ map_of (sv_sessions (sk_server k))\<rparr>)"

fun writes_to :: "('w \<Rightarrow> 'c) \<Rightarrow> 'c \<Rightarrow> string \<Rightarrow> 'w server_action \<Rightarrow> bool" where
  "writes_to peer c t (Ws_Send w msg h) \<longleftrightarrow> peer w = c \<and> msg = t"
| "writes_to peer c t _ \<longleftrightarrow> False"

fun writes :: "string \<Rightarrow> client_action \<Rightarrow> bool" where
  "writes t (Wc_Send msg h) \<longleftrightarrow> msg = t"
| "writes t _ \<longleftrightarrow> False"

lemma writes_iff:
  "writes_to peer c t x \<longleftrightarrow> (\<exists>w h. x = Ws_Send w t h \<and> peer w = c)" "writes t a \<longleftrightarrow> (\<exists>h. a = Wc_Send t h)"
  by (cases x; auto) (cases a; auto)

text \<open>
  What is relied on, beside what each end relies on: a read that succeeds leaves in the buffer a
  text that the other end has written, and a generated ID is one that no session has had.
\<close>

fun web_allowed :: "('w \<Rightarrow> 'c) \<Rightarrow> ('c, 'w) web_event \<Rightarrow> ('c, 'w) web \<Rightarrow> bool" where
  "web_allowed peer (At_Client c (Io op ec b)) W \<longleftrightarrow>
     (op = Read \<and> ec = No_Error \<longrightarrow>
        list_ex (writes_to peer c (wp_rBuffer (st_peer (ck_socket (wb_clients W c))) @ b)) (sk_trace (wb_server W)))"
| "web_allowed peer (At_Client c (User e)) W \<longleftrightarrow> ck_allowed (User e) (wb_clients W c)"
| "web_allowed peer (At_Server (Socket w op ec b newId)) W \<longleftrightarrow>
     stack_allowed (Socket w op ec b newId) (wb_server W) \<and> wb_owner W newId = None \<and>
     (op = Read \<and> ec = No_Error \<longrightarrow>
        (case sk_sessions (wb_server W) w of
           None \<Rightarrow> True
         | Some s \<Rightarrow> list_ex (writes (wp_rBuffer (st_peer s) @ b)) (ck_trace (wb_clients W (peer w)))))"
| "web_allowed peer (At_Server (Calls e)) W \<longleftrightarrow> user_call e \<and> reply_ok e"
| "web_allowed peer (At_Server e) W \<longleftrightarrow> stack_allowed e (wb_server W)"

definition web_start ::
  "string \<Rightarrow> string \<Rightarrow> string \<Rightarrow> string \<Rightarrow> string \<Rightarrow> 16 word \<Rightarrow> bool \<Rightarrow> bool \<Rightarrow> bool \<Rightarrow> ('c, 'w) web" where
  "web_start url endpoint port host ip sport onMessage onClientDisconnect onDisconnect =
     \<lparr>wb_clients = (\<lambda>c. ck_start url endpoint port),
      wb_server = stack_start host ip sport onMessage onClientDisconnect onDisconnect,
      wb_replies = [], wb_owner = Map.empty\<rparr>"

definition asked_by ::
  "('w \<Rightarrow> 'c) \<Rightarrow> ('c, 'w) web \<Rightarrow> string \<Rightarrow> string \<Rightarrow> string \<Rightarrow> string \<Rightarrow> bool" where
  "asked_by peer W cid dest rid content \<longleftrightarrow>
     (\<exists>w h. wb_owner W cid = Some w \<and> Cl_Send rid dest content h \<in> set (ck_calls (wb_clients W (peer w))))"

definition replied_to :: "('w \<Rightarrow> 'c) \<Rightarrow> ('c, 'w) web \<Rightarrow> 'c \<Rightarrow> string \<Rightarrow> string \<Rightarrow> bool" where
  "replied_to peer W c dest content \<longleftrightarrow>
     (\<exists>newId cid onSend rid w. Ev_Send newId cid dest content onSend rid \<in> set (wb_replies W) \<and>
        wb_owner W cid = Some w \<and> peer w = c)"

definition web_inv :: "('w \<Rightarrow> 'c) \<Rightarrow> string \<Rightarrow> ('c, 'w) web \<Rightarrow> bool" where
  "web_inv peer url W \<longleftrightarrow>
     (\<forall>c. ck_inv url (wb_clients W c) \<and> ck_up url (wb_clients W c)) \<and> stack_ok (wb_server W) \<and>
     map_of (sv_sessions (sk_server (wb_server W))) \<subseteq>\<^sub>m wb_owner W \<and>
     (\<forall>w t h. Ws_Send w t h \<in> set (sk_trace (wb_server W)) \<longrightarrow> reply_text (wb_replies W) (wb_owner W) w t) \<and>
     (\<forall>er cid dest rid content. Client_Message er cid dest rid content \<in> set (sk_trace (wb_server W)) \<longrightarrow>
        asked_by peer W cid dest rid content) \<and>
     (\<forall>c er dest content. On_Message er dest content \<in> set (ck_trace (wb_clients W c)) \<longrightarrow>
        replied_to peer W c dest content)"

lemma map_added_fresh:
  assumes "m' \<subseteq>\<^sub>m m(x \<mapsto> y)" and "m \<subseteq>\<^sub>m f" and "f x = None"
  shows "f \<subseteq>\<^sub>m f ++ m'"
  unfolding map_le_def
proof
  fix a assume a: "a \<in> dom f"
  then have "a \<noteq> x" using assms(3) by auto
  then have "m' a = None \<or> m' a = f a"
    using assms(1,2) unfolding map_le_def by (metis domIff fun_upd_other)
  then show "f a = (f ++ m') a" by (auto simp: map_add_def split: option.split)
qed

lemma map_le_Some: "f \<subseteq>\<^sub>m g \<Longrightarrow> f x = Some y \<Longrightarrow> g x = Some y"
  unfolding map_le_def by (metis domI)

lemma map_le_grown: "f \<subseteq>\<^sub>m g \<Longrightarrow> g ++ f = g"
  by (rule map_le_antisym) (auto simp: map_le_def map_add_def dom_def split: option.splits)

lemma reply_text_mono:
  "reply_text asked owner w t \<Longrightarrow> set asked \<subseteq> set asked' \<Longrightarrow> owner \<subseteq>\<^sub>m owner' \<Longrightarrow> reply_text asked' owner' w t"
  unfolding reply_text_def by (metis map_le_Some subsetD)

lemma owner_grows:
  assumes inv: "web_inv peer url W" and al: "web_allowed peer (At_Server e) W"
    and k: "k = stack_step ord e (wb_server W)"
  shows "wb_owner W \<subseteq>\<^sub>m wb_owner W ++ map_of (sv_sessions (sk_server k))"
proof (cases "sk_failed (wb_server W)")
  case True
  then have "k = wb_server W" using k by (cases e) simp_all
  then show ?thesis using inv by (simp add: web_inv_def map_le_grown)
next
  case False
  then have si: "stack_inv (wb_server W)" using inv by (simp add: web_inv_def stack_ok_def)
  have sal: "stack_allowed e (wb_server W)" using al by (cases e) simp_all
  have le: "map_of (sv_sessions (sk_server (wb_server W))) \<subseteq>\<^sub>m wb_owner W" using inv by (simp add: web_inv_def)
  from stack_step_ids [OF si sal, of ord] show ?thesis
  proof (elim disjE exE conjE)
    assume "map_of (sv_sessions (sk_server (stack_step ord e (wb_server W)))) \<subseteq>\<^sub>m
      map_of (sv_sessions (sk_server (wb_server W)))"
    from map_le_trans [OF this le] show ?thesis by (simp add: k map_le_grown)
  next
    fix w op ec b newId
    assume e: "e = Socket w op ec b newId"
      and new: "map_of (sv_sessions (sk_server (stack_step ord e (wb_server W)))) \<subseteq>\<^sub>m
        (map_of (sv_sessions (sk_server (wb_server W))))(newId \<mapsto> w)"
    show ?thesis
      unfolding k using map_added_fresh [OF new le] al e by simp
  qed
qed

lemma user_call_quiet:
  assumes "user_call e"
  shows "Client_Message er cid dest rid content \<notin> set (snd (server_step ord e (st, [])))"
proof (cases e)
  case (Ev_Send newId i d c onSend r)
  then show ?thesis
    by (auto simp: server_Send_def Let_def split: option.splits prod.splits outcome.splits)
next
  case (Ev_Close i h)
  have "Client_Message er cid dest rid content \<notin> set (snd (snd (CloseConnection ord j w er' h' st)))" for j w er' h'
    by (rule closing_posts_nothing) simp
  then show ?thesis
    using Ev_Close
    by (auto simp: server_Close_def Let_def split_beta split: option.splits)
qed (use assms in \<open>auto simp: server_Stop_def\<close>)

lemma authored_send:
  assumes "authored asked t" and "StompFrame_parse t = (Returns StompError.kOk, f)"
    and "GetCommand f = StompCommand.kSend"
  shows "\<exists>h. Cl_Send (GetHeaderValue f kId) (GetHeaderValue f kDestination) (GetBody f) h \<in> set asked"
  using assms by (auto simp: authored_def)

context header_layout
begin

lemma client_turn:
  assumes inv: "web_inv peer url W" and al: "web_allowed peer (At_Client c e) W"
  shows "web_inv peer url (web_step ord (At_Client c e) W)"
proof -
  let ?k = "ck_step ord e (wb_clients W c)" and ?W = "web_step ord (At_Client c e) W"
  have ck: "ck_inv url (wb_clients W c) \<and> ck_up url (wb_clients W c)" using inv by (simp add: web_inv_def)
  have ok: "ck_allowed e (wb_clients W c)" using al by (cases e) simp_all
  have told: "replied_to peer ?W c' dest content" if "On_Message er dest content \<in> set (ck_trace (wb_clients ?W c'))"
    for c' er dest content
  proof -
    have same: "replied_to peer ?W c' d m" if "replied_to peer W c' d m" for c' d m
      using that by (simp add: replied_to_def)
    show ?thesis
    proof (cases "On_Message er dest content \<in> set (ck_trace (wb_clients W c'))")
      case True
      then have "replied_to peer W c' dest content" using inv by (auto simp: web_inv_def)
      then show ?thesis by (rule same)
    next
      case False
      then have c: "c' = c" and new: "On_Message er dest content \<in> set (ck_trace ?k)"
        using that by (auto split: if_splits)
      from ck_step_told [OF conjunct1 [OF ck] ok new] False c
      obtain b g where e: "e = Io Read No_Error b"
        and g: "StompFrame_parse (wp_rBuffer (st_peer (ck_socket (wb_clients W c))) @ b) = (Returns StompError.kOk, g)"
          "GetCommand g = StompCommand.kSend" "GetHeaderValue g kDestination = dest" "GetBody g = content"
        by auto
      obtain w h where "peer w = c"
        "Ws_Send w (wp_rBuffer (st_peer (ck_socket (wb_clients W c))) @ b) h \<in> set (sk_trace (wb_server W))"
        using al e by (auto simp: list_ex_iff writes_iff)
      moreover from this(2)
      have "reply_text (wb_replies W) (wb_owner W) w (wp_rBuffer (st_peer (ck_socket (wb_clients W c))) @ b)"
        using inv unfolding web_inv_def by blast
      ultimately have "replied_to peer W c dest content"
        unfolding reply_text_def replied_to_def using g by auto
      then show ?thesis unfolding c by (rule same)
    qed
  qed
  have asked: "asked_by peer ?W cid dest rid content" if "asked_by peer W cid dest rid content" for cid dest rid content
    using that ck_step_calls [of "wb_clients W c" ord e] by (fastforce simp: asked_by_def)
  show ?thesis
    unfolding web_inv_def
  proof (intro conjI allI impI)
    fix c' show "ck_inv url (wb_clients ?W c')" "ck_up url (wb_clients ?W c')"
      using inv ck_step_inv [OF ck ok] by (simp_all add: web_inv_def)
  next
    fix w t h assume "Ws_Send w t h \<in> set (sk_trace (wb_server ?W))"
    then show "reply_text (wb_replies ?W) (wb_owner ?W) w t" using inv by (auto simp: web_inv_def)
  qed (use inv told asked in \<open>simp_all add: web_inv_def\<close>)
qed

lemma server_turn:
  assumes inv: "web_inv peer url W" and al: "web_allowed peer (At_Server e) W"
  shows "web_inv peer url (web_step ord (At_Server e) W)"
proof -
  let ?k = "stack_step ord e (wb_server W)" and ?W = "web_step ord (At_Server e) W"
  have ok: "stack_ok (wb_server W)" and le: "map_of (sv_sessions (sk_server (wb_server W))) \<subseteq>\<^sub>m wb_owner W"
    using inv by (simp_all add: web_inv_def)
  have sal: "stack_allowed e (wb_server W)" using al by (cases e) simp_all
  have grows: "wb_owner W \<subseteq>\<^sub>m wb_owner ?W" using owner_grows [OF inv al refl] by (simp add: Let_def)
  have asked: "asked_by peer ?W cid dest rid content" if "asked_by peer W cid dest rid content" for cid dest rid content
    using that map_le_Some [OF grows] by (auto simp: asked_by_def Let_def)
  have told: "replied_to peer ?W c dest content" if "replied_to peer W c dest content" for c dest content
    using that map_le_Some [OF grows] unfolding replied_to_def by (fastforce simp: Let_def)
  have replied: "reply_text (wb_replies ?W) (wb_owner ?W) w t" if "reply_text (wb_replies W) (wb_owner W) w t" for w t
    using that by (rule reply_text_mono [OF _ _ grows]) (simp add: Let_def)
  have new: "(\<forall>w t h. Ws_Send w t h \<in> set (sk_trace ?k) \<longrightarrow> reply_text (wb_replies ?W) (wb_owner ?W) w t) \<and>
    (\<forall>er cid dest rid content. Client_Message er cid dest rid content \<in> set (sk_trace ?k) \<longrightarrow>
       asked_by peer ?W cid dest rid content)"
  proof (cases "sk_failed (wb_server W)")
    case True
    then have "?k = wb_server W" by (cases e) simp_all
    then show ?thesis using inv replied asked unfolding web_inv_def by simp
  next
    case False
    then have si: "stack_inv (wb_server W)" using ok by (simp add: stack_ok_def)
    then have m: "maps_agree (sk_server (wb_server W))" by (simp add: stack_inv_def server_inv_def)
    have old: "Ws_Send w t h \<in> set (sk_trace (wb_server W)) \<Longrightarrow> reply_text (wb_replies ?W) (wb_owner ?W) w t"
      "Client_Message er cid dest rid content \<in> set (sk_trace (wb_server W)) \<Longrightarrow> asked_by peer ?W cid dest rid content"
      for w t h er cid dest rid content
      using inv replied asked unfolding web_inv_def by blast+
    from si show ?thesis
    proof (cases rule: stack_step_sources [where ord = ord and e = e])
      case (quiet acts)
      then show ?thesis using old by fastforce
    next
      case (message w b newId s)
      let ?t = "wp_rBuffer (st_peer s) @ b"
      obtain h where "Wc_Send ?t h \<in> set (ck_trace (wb_clients W (peer w)))"
        using al message(1,2) by (auto simp: list_ex_iff writes_iff)
      then have au: "authored (ck_calls (wb_clients W (peer w))) ?t"
        using inv by (auto simp: web_inv_def ck_inv_def)
      have "asked_by peer ?W cid dest rid content"
        if a: "Client_Message er cid dest rid content \<in>
          set (snd (snd (OnWsSessionMessage ord False w ?t (sk_server (wb_server W)))))" for er cid dest rid content
      proof -
        from message_source [OF m a] authored_send [OF au] have "asked_by peer W cid dest rid content"
          unfolding asked_by_def using map_le_Some [OF le] by blast
        then show ?thesis by (rule asked)
      qed
      then show ?thesis
        using old message_frame [OF m] unfolding message(3) by (auto simp del: web_step.simps)
    next
      case (asked c)
      then have c: "user_call c" "reply_ok c" using al by simp_all
      have "reply_text (wb_replies ?W) (wb_owner ?W) w t"
        if "Ws_Send w t h \<in> set (snd (server_step ord c (sk_server (wb_server W), [])))" for w t h
        using call_frame [OF m c that] map_le_trans [OF le grows] asked(1)
        by (elim reply_text_mono) (simp_all add: Let_def)
      then show ?thesis
        using old user_call_quiet [OF c(1)] unfolding asked(2) by (auto simp del: web_step.simps)
    qed
  qed
  have "map_of (sv_sessions (sk_server ?k)) \<subseteq>\<^sub>m wb_owner ?W" by (simp add: Let_def)
  then show ?thesis
    using inv new told stack_step_ok [OF ok sal] by (simp add: web_inv_def Let_def)
qed

lemma web_step_inv:
  "web_inv peer url W \<Longrightarrow> web_allowed peer e W \<Longrightarrow> web_inv peer url (web_step ord e W)"
  by (cases e) (simp_all only: client_turn server_turn)

end

lemma web_start_inv:
  assumes "id_ok url"
  shows "web_inv peer url (web_start url endpoint port host ip sport m d o')"
  using ck_start_inv [OF assms] stack_start_ok [of host ip sport m d o']
  by (simp add: web_inv_def web_start_def ck_start_def)
    (simp add: stack_start_def started_def server_Run_def new_server_def split_beta)

section \<open>Every run\<close>

locale stomp_web = header_layout +
  fixes peer :: "'w \<Rightarrow> 'c" and url endpoint port host ip :: string and sport :: "16 word"
    and onMessage onClientDisconnect onDisconnect :: bool
  assumes url_ok: "id_ok url"

sublocale stomp_web \<subseteq>
  web: invariant_machine "web_start url endpoint port host ip sport onMessage onClientDisconnect onDisconnect"
    "web_step ord" "web_allowed peer" "web_inv peer url"
  by unfold_locales (auto intro: web_start_inv web_step_inv url_ok simp del: web_step.simps web_allowed.simps)

context stomp_web
begin

lemma every_state:
  "all_allowed (web_step ord) (web_allowed peer) es
     (web_start url endpoint port host ip sport onMessage onClientDisconnect onDisconnect) \<Longrightarrow>
   web_inv peer url (run_all (web_step ord) es
     (web_start url endpoint port host ip sport onMessage onClientDisconnect onDisconnect))"
  by (rule web.run_from_init)

end

interpretation any_web: stomp_web rev peer
  "''ltnm.learncppthroughprojects.com''" "''/network-events''" "''443''" host ip sport
  onMessage onClientDisconnect onDisconnect
  for peer host ip sport onMessage onClientDisconnect onDisconnect
  by unfold_locales (simp add: id_ok_def newLine_def)

text \<open>C15: in every run of any number of STOMP clients and a STOMP server over their sockets: a message that
  the server reports to its user, with the ID of a connection, a destination, a request ID and a
  content, is one that the user of the client at the other end of this connection has asked to send,
  with the same values; and a message that a client reports to its user is one that the server's
  user has asked to send, to an ID of a session of this client.\<close>

theorem messages_authentic:
  assumes "\<And>hs. mset (ord hs) = mset hs" and "id_ok url"
    and "all_allowed (web_step ord) (web_allowed peer) es
      (web_start url endpoint port host ip sport onMessage onClientDisconnect onDisconnect)"
    and "run_all (web_step ord) es
      (web_start url endpoint port host ip sport onMessage onClientDisconnect onDisconnect) = W"
  shows "(Client_Message er cid dest rid content \<in> set (sk_trace (wb_server W)) \<longrightarrow>
      (\<exists>w h. wb_owner W cid = Some w \<and> Cl_Send rid dest content h \<in> set (ck_calls (wb_clients W (peer w))))) \<and>
    (On_Message ec dest content \<in> set (ck_trace (wb_clients W c)) \<longrightarrow>
      (\<exists>newId cid onSend rid w. Ev_Send newId cid dest content onSend rid \<in> set (wb_replies W) \<and>
        wb_owner W cid = Some w \<and> peer w = c))"
proof -
  have "stomp_web ord url" by unfold_locales (rule assms(1), rule assms(2))
  from stomp_web.every_state [OF this assms(3)] have "web_inv peer url W" by (simp add: assms(4))
  then show ?thesis by (auto simp: web_inv_def asked_by_def replied_to_def)
qed

text \<open>Client 1 logs in on session 1, sends a message and is sent an answer.\<close>

definition web_login :: string where
  "web_login = make_plain StompCommand.kStomp
     [(kPasscode, ''p''), (kLogin, ''u''), (kHost, ''h''), (kAcceptVersion, ''1.2'')] []"

definition web_connected :: string where
  "web_connected = make_plain StompCommand.kConnected [(kSession, ''i''), (StompHeader.kVersion, ''1.2'')] []"

definition web_text :: "string \<Rightarrow> string \<Rightarrow> string" where
  "web_text rid content = make_plain StompCommand.kSend
     [(kContentLength, ''2''), (kContentType, ''application/json''), (kDestination, ''/q''), (kId, rid)] content"

definition example_web_events :: "(nat, nat) web_event list" where
  "example_web_events =
     map (At_Client 1) (login_io ''h'' ''443'') @ map At_Server (opening_of 1 ''i'') @
     [At_Server (Socket 1 Read No_Error web_login ''j''), At_Client 1 (Io Read No_Error web_connected),
      At_Client 1 (User (Cl_Send ''7'' ''/q'' ''hi'' False)),
      At_Server (Socket 1 Read No_Error (web_text ''7'' ''hi'') ''j''),
      At_Server (Calls (Ev_Send ''8'' ''i'' ''/q'' ''ok'' False ''7'')),
      At_Client 1 (Io Read No_Error (web_text ''7'' ''ok''))]"

definition example_web_start :: "(nat, nat) web" where
  "example_web_start = web_start ''h'' ''/e'' ''443'' ''h'' ''127.0.0.1'' 8042 True True True"

definition example_web :: "(nat, nat) web" where
  "example_web = run_all (web_step rev) example_web_events example_web_start"

lemma example_web_facts:
  "all_allowed (web_step rev) (web_allowed (\<lambda>w. w)) example_web_events example_web_start"
  "Client_Message StompServerError.kOk ''i'' ''/q'' ''7'' ''hi'' \<in> set (sk_trace (wb_server example_web))"
  "On_Message StompClientError.kOk ''/q'' ''ok'' \<in> set (ck_trace (wb_clients example_web 1))"
  "wb_owner example_web ''i'' = Some 1"
  by code_simp+

lemma messages_authentic_witness:
  "(\<exists>h. Cl_Send ''7'' ''/q'' ''hi'' h \<in> set (ck_calls (wb_clients example_web 1))) \<and>
   (\<exists>newId cid onSend rid. Ev_Send newId cid ''/q'' ''ok'' onSend rid \<in> set (wb_replies example_web) \<and>
     wb_owner example_web cid = Some 1)"
proof -
  have h: "id_ok ''h''" by (simp add: id_ok_def newLine_def)
  note run = messages_authentic [OF rev_layout h example_web_facts(1) [unfolded example_web_start_def]
      example_web_def [unfolded example_web_start_def, symmetric]]
  from run example_web_facts(2,3,4) show ?thesis by force
qed

end
