(* ===== verification/Network_Copies.thy ===== *)
theory Network_Copies
  imports Network_Machine
begin

text \<open>
  A network and its copy. The copy operations of \<^verbatim>\<open>TransportNetwork\<close> are the defaults of the
  compiler: they copy the two maps of shared pointers, and the objects behind them are shared. So
  the two networks are one store with two pairs of maps, and what an operation on one does to the
  objects is seen by the other.
\<close>

section \<open>Two networks in one store\<close>

text \<open>\<open>cp_network\<close> is the network that was copied, with the store of both.\<close>

record copies =
  cp_network :: network
  cp_stations :: "(Id, node_ref) umap"
  cp_lines :: "(Id, line_ref) umap"

definition copied :: "copies \<Rightarrow> network" where
  "copied c = (cp_network c)\<lparr>station_map := cp_stations c, line_map := cp_lines c\<rparr>"

definition copy_construct :: "network \<Rightarrow> copies" where
  "copy_construct net = \<lparr>cp_network = net, cp_stations = station_map net, cp_lines = line_map net\<rparr>"

text \<open>The assignment of the one to the other. A copied map has its elements in the order of the first.\<close>

definition copy_assign :: "copies \<Rightarrow> copies" where
  "copy_assign c = c\<lparr>cp_stations := station_map (cp_network c), cp_lines := line_map (cp_network c)\<rparr>"


definition on_copy :: "(network \<Rightarrow> network) \<Rightarrow> copies \<Rightarrow> copies" where
  "on_copy f c =
     (let net = f (copied c)
      in \<lparr>cp_network = net\<lparr>station_map := station_map (cp_network c), line_map := line_map (cp_network c)\<rparr>,
          cp_stations = station_map net, cp_lines = line_map net\<rparr>)"


lemma copied_construct [simp]: "copied (copy_construct net) = net" "cp_network (copy_construct net) = net"
  by (simp_all add: copied_def copy_construct_def)

lemma copied_assign [simp]: "copied (copy_assign c) = cp_network c" "cp_network (copy_assign c) = cp_network c"
  by (simp_all add: copied_def copy_assign_def)

lemma copied_on_copy [simp]: "copied (on_copy f c) = f (copied c)"
  by (simp add: copied_def on_copy_def Let_def)


section \<open>Operations that leave the maps alone\<close>









end
