(* ===== verification/Missed_Alternatives.thy ===== *)
theory Missed_Alternatives
  imports Quiet_Choice
begin










end
