(* ===== verification/Spec2Isabelle.thy ===== *)
theory Spec2Isabelle
  imports Process_Requests Monitor_Main Monitor_Callbacks Monitor_Crowding Print_Operators Stomp_Channel
    Network_Copies Missed_Alternatives
begin

text \<open>
  \<^bold>\<open>London tube quiet route: a verification development\<close>

  The program is a live monitor of a transport network. It loads the network from a JSON layout,
  receives passenger events from a remote service over STOMP on a WebSocket connection, counts the
  passengers at every station, and answers, as a STOMP server of its own, requests for a quiet
  route between two stations.

  \<^bold>\<open>Parts of the program, and the theories that model them\<close>

  \<^item> \<open>Tube_Prelude\<close>: what all theories share. A 32-bit \<^verbatim>\<open>unsigned int\<close> is a word; the outcome of
    a call is a value, a fault (an exception or undefined behaviour) or no return; a
    \<^verbatim>\<open>std::unordered_map\<close> is an association list in iteration order; \<open>invariant_machine\<close> is the
    contract of a state machine whose events keep an invariant, \<open>refined_machine\<close> and
    \<open>stuttering_machine\<close> of one that implements a more abstract one, step by step or with some steps
    that the abstract one does not see.
  \<^item> The network, \<^verbatim>\<open>src/transport-network.cpp\<close>. \<open>Transport_Network\<close> has the data types, the
    internal objects as an explicit store (a shared pointer is an index) and every operation on
    stations, lines, counts and travel times. \<open>Network_Invariant\<close> and \<open>Network_Machine\<close>: the
    invariant of the store, kept by any sequence of operations, failed ones included.
    \<open>Network_Queries\<close>, \<open>Network_Lines\<close>: what the operations return. \<open>Tube_Map\<close>: an abstract
    network of maps over IDs, which the objects and references implement. \<open>Network_Copies\<close>: a
    network and its copy, in one store.
  \<^item> Route search, the same file. \<open>Shortest_Path\<close>: the internal search as written, with its
    priority queue, warm start, excluded stops and the cost of 5 minutes for changing route.
    \<open>Dijkstra_Loop\<close> (it stops), \<open>Dijkstra_Correct\<close> (the invariant of the main loop),
    \<open>Path_Search\<close> (its contract: the least cost). \<open>Quiet_Route\<close>: the alternatives and the public
    operations; \<open>Alternative_Paths\<close>, \<open>Quiet_Choice\<close>, \<open>Travel_Routes\<close>: what they promise;
    \<open>Quiet_Limits\<close>: the limits in doubles, and that a quiet route always comes back in time;
    \<open>Missed_Alternatives\<close>: a path that the search for alternatives does not find.
  \<^item> JSON, the same file. \<open>Network_Json\<close>: the conversions and \<open>FromJson\<close>; \<open>Network_Loading\<close>: what a
    loaded network is.
  \<^item> STOMP frames, \<^verbatim>\<open>src/stomp-frame.cpp\<close>. \<open>Stomp_Frame\<close>: names, parser, validator, constructors,
    copies. \<open>Stomp_Grammar\<close>: the texts the parser accepts. \<open>Stomp_Frame_Laws\<close>: the constructors.
    \<open>Stomp_Messages\<close>: numbers in headers, the order of headers, the SEND frame.
  \<^item> STOMP server, \<^verbatim>\<open>inc/network-monitor/stomp-server.h\<close>: \<open>Stomp_Server\<close> (its two maps, one
    definition per operation and handler), \<open>Stomp_Server_Laws\<close> (the invariant, each handler),
    \<open>Stomp_Server_Props\<close> (whole runs, the handshake, sends, protocol errors), \<open>Server_Table\<close> (which
    sessions each operation leaves in the table).
  \<^item> STOMP client, \<^verbatim>\<open>inc/network-monitor/stomp-client.h\<close>: \<open>Stomp_Client\<close> and \<open>Stomp_Client_Laws\<close> in
    the same way. \<open>Stomp_Conversation\<close> gives the frames of each side to the other.
  \<^item> WebSocket layer, \<^verbatim>\<open>inc/network-monitor/websocket-client.h\<close> and \<^verbatim>\<open>websocket-server.h\<close>:
    \<open>Web_Socket\<close> (client, session and acceptor as chains of asynchronous operations),
    \<open>Web_Socket_Laws\<close> (one contract that client and session refine). \<open>Stomp_Sockets\<close> puts the STOMP
    server on the WebSocket server: accepted sockets, sessions, and the handlers they call;
    \<open>Client_Sockets\<close> puts the STOMP client on the WebSocket client; \<open>Stomp_Channel\<close> runs any
    number of these clients against this server.
  \<^item> The monitor, \<^verbatim>\<open>inc/network-monitor/network-monitor.h\<close>: \<open>Network_Monitor\<close> (configuration and
    handlers), \<open>Monitor_System\<close> (the run of the I/O context: client, server, monitor and the
    callbacks waiting on the two strands), \<open>Monitor_Laws\<close> (what every run keeps), \<open>Monitor_Props\<close>,
    \<open>Monitor_Requests\<close>, \<open>Monitor_Callbacks\<close> and \<open>Monitor_Crowding\<close> (its properties).
    \<open>Process_Sockets\<close> puts the monitor on the WebSocket client, the acceptor and the sessions;
    \<open>Process_Requests\<close> follows a request from the read of a socket to the write of its answer, and a
    passenger event from the read of a socket to the count of its station.
    \<open>File_Downloader\<close> is \<^verbatim>\<open>src/file-downloader.cpp\<close> and \<^verbatim>\<open>src/env.cpp\<close>; \<open>Monitor_Main\<close> is
    \<^verbatim>\<open>src/main.cpp\<close>; \<open>Print_Operators\<close> has the print operators.

  \<^bold>\<open>How they interact\<close>

  The monitor owns the network, one client and one server. A handler of the monitor that sends or
  closes calls the models of the client and the server, whose requests to the WebSocket layer and
  whose posted user callbacks are actions, in order. \<open>sys_step\<close> is one turn of the I/O context: an
  event of the WebSocket layer, or the first callback that waits on a strand; turns come in any
  order. \<open>sys_allowed\<close>, \<open>client_allowed\<close> and \<open>server_allowed\<close> say what is relied on of the outside:
  new sessions and IDs are new, a completion belongs to a send that was made, IDs have no line ends.
  \<open>process_step\<close> is one turn of the whole process, where the events are what operations of the
  sockets complete with, or a waiting callback, until the monitor is stopped.
  \<open>process_refines_system\<close> shows that it makes only events that \<open>sys_allowed\<close> allows, so that of the
  outside only new sockets, and new IDs without line ends, are relied on.

  \<^bold>\<open>What the lemmas show\<close>

  \<^item> Routes: the search stops, never throws, and finds a valid journey of least cost; the quiet
    route is the least crowded of the alternatives within both limits, or the fastest.
  \<^item> The network: its invariant; a refinement of maps over IDs, so that travel times, counts, lines
    and routes are read back as they were set; a loaded layout can be searched.
  \<^item> Frames: the parser accepts a grammar, exactly; a frame that is assembled is read back with the
    components it was given, whatever the order of its headers.
  \<^item> Server and client: the user only hears of clients that completed the handshake, and of
    subscriptions that were requested; log in, requests and replies from one side to the other.
  \<^item> WebSocket: the order and the number of the calls of the user's handlers; and with the STOMP
    server on top, that its table lists exactly the sessions that are up. Clients and a server:
    what a user is told was sent by the user at the other end of the same connection. The process:
    the monitor on its sockets moves as the monitor alone, with the table of the live sessions; a request that is
    read from a socket is answered on this socket, and a passenger event that is read is counted.
  \<^item> The monitor: what a configuration leaves, what every run keeps, how requests are answered and
    events counted, that posted callbacks are called and no handler of the server throws.
  \<^item> Errors: inputs on which the parser throws or reads an unwritten variable, failures that leave
    half of their work behind, and failures that no one is told about.

  \<^bold>\<open>Parameters\<close>

  What is not in the repository is an argument. \<open>stl\<close>: which of several smallest elements a sort or
  a queue takes, and the order of a hash map (laws: \<open>stl_laws\<close>). \<open>rnd\<close>: the rounding of doubles,
  which are rationals (laws: \<open>rounding\<close>). \<open>json_api\<close> with \<open>json_laws\<close>: the JSON library. \<open>ord\<close> with \<open>header_layout\<close>: the
  order of the headers of a frame, any permutation. \<open>world\<close>: HTTP, files and the JSON parser. New
  IDs, the results of socket operations and the schedule of the I/O context are inputs.

  \<^bold>\<open>Bounds\<close>

  Distances of a search are 32-bit and wrap around; the theorems on optimality assume that the
  longest distance does not (\<open>no_overflow\<close>), termination does not assume it. The contents of a
  message are shorter than \<open>2 ^ 64\<close> octets, as a \<^verbatim>\<open>size_t\<close> is. The loop of the search is
  \<open>while_option\<close> with its termination proved; no definition uses fuel.

  \<^bold>\<open>Not modelled\<close>

  Logging; the generation of random IDs; TLS contexts beyond loading a certificate that may throw;
  \<^verbatim>\<open>test-server-certificate.h\<close>, which holds constants; moves that the compiler generates, and copies of anything but a network or a frame;
  the hash of a path stop; the tests. Two threads never run the
  same I/O context here, as \<^verbatim>\<open>main\<close> runs it in one.
\<close>

end
